(* ===== verification/Prelude.thy ===== *)
theory Prelude
  imports Main "HOL-Library.List_Lexorder" "HOL-Library.Char_ord" "HOL-Library.Multiset"
    "HOL-Library.Word"
begin

text \<open>
  The vocabulary the component theories share.

  \<^item> Types: a Go \<open>time.Time\<close> is the number of nanoseconds since the zero time (so \<open>0\<close> is
    the value \<open>IsZero\<close> recognises), a \<open>time.Duration\<close> is a 64-bit word, a Go string is a list
    of bytes.
  \<^item> Go maps are partial functions; a \<open>range\<close> over a map visits its keys in an order the
    language leaves open, so every definition that ranges over a map takes that order as an
    argument, which \<open>enumerates\<close> constrains.
  \<^item> Comparison functions in the style of \<open>slices.SortFunc\<close>, with their contract as the
    locale \<open>comparator\<close>.
  \<^item> The named collections the component proofs draw on.
\<close>

section \<open>Collections of facts\<close>

named_theorems step_defs "definitions of the operations of a component, unfolded together"
named_theorems frame_simps "fields an operation leaves alone"

section \<open>Types\<close>

type_synonym time = int
type_synonym duration = "64 word"
type_synonym labels = "string \<rightharpoonup> string"

definition Second :: duration where
  "Second = 1000000000"

section \<open>Maps and their enumeration orders\<close>

definition enumerates :: "'k list \<Rightarrow> ('k \<rightharpoonup> 'v) \<Rightarrow> bool" where
  "enumerates ks m \<longleftrightarrow> distinct ks \<and> set ks = dom m"

lemma enumerates_finite: "enumerates ks m \<Longrightarrow> finite (dom m)"
  by (metis enumerates_def List.finite_set)

lemma enumerates_mem: "enumerates ks m \<Longrightarrow> k \<in> set ks \<longleftrightarrow> (\<exists>v. m k = Some v)"
  by (auto simp: enumerates_def)

lemma enumerates_empty [simp]: "enumerates ks Map.empty \<longleftrightarrow> ks = []"
  by (auto simp: enumerates_def)

text \<open>\<open>maps.Copy(dst, src)\<close>: the source's entries overwrite.\<close>

definition maps_Copy :: "('k \<rightharpoonup> 'v) \<Rightarrow> ('k \<rightharpoonup> 'v) \<Rightarrow> ('k \<rightharpoonup> 'v)" where
  "maps_Copy dst src = dst ++ src"

text \<open>Reading a missing key of a \<open>map[string]string\<close> gives the empty string.\<close>

definition get_str :: "labels \<Rightarrow> string \<Rightarrow> string" where
  "get_str m k = (case m k of None \<Rightarrow> [] | Some v \<Rightarrow> v)"

section \<open>Comparison functions and sorting\<close>

text \<open>
  \<open>strings.Compare\<close> compares byte strings lexicographically; \<open>time.Time.Compare\<close> compares
  instants.
\<close>

definition strings_Compare :: "string \<Rightarrow> string \<Rightarrow> int" where
  "strings_Compare a b = (if a = b then 0 else if a < b then - 1 else 1)"

definition time_Compare :: "time \<Rightarrow> time \<Rightarrow> int" where
  "time_Compare a b = (if a < b then - 1 else if b < a then 1 else 0)"

text \<open>
  \<open>slices.SortFunc\<close>. For slices of at most twelve elements the library runs this insertion
  sort (\<open>insertionSortCmpFunc\<close>: each element moves left past the elements it is smaller
  than); for longer ones it promises a sorted permutation and no stability. The lemmas below
  use the sorted permutation only. The accumulator of \<open>insert_left\<close> is the sorted prefix,
  last element first.
\<close>

fun insert_left :: "('a \<Rightarrow> 'a \<Rightarrow> int) \<Rightarrow> 'a \<Rightarrow> 'a list \<Rightarrow> 'a list" where
  "insert_left cmp x [] = [x]"
| "insert_left cmp x (y # ys) = (if cmp x y < 0 then y # insert_left cmp x ys else x # y # ys)"

definition SortFunc :: "('a \<Rightarrow> 'a \<Rightarrow> int) \<Rightarrow> 'a list \<Rightarrow> 'a list" where
  "SortFunc cmp xs = rev (foldl (\<lambda>acc x. insert_left cmp x acc) [] xs)"

lemma mset_insert_left [simp]: "mset (insert_left cmp x ys) = add_mset x (mset ys)"
  by (induction ys) auto

lemma mset_foldl_insert_left:
  "mset (foldl (\<lambda>acc x. insert_left cmp x acc) acc xs) = mset acc + mset xs"
  by (induction xs arbitrary: acc) auto

lemma mset_SortFunc [simp]: "mset (SortFunc cmp xs) = mset xs"
  by (simp add: SortFunc_def mset_foldl_insert_left)

lemma set_SortFunc [simp]: "set (SortFunc cmp xs) = set xs"
  by (metis mset_SortFunc set_mset_mset)

lemma length_SortFunc [simp]: "length (SortFunc cmp xs) = length xs"
  by (metis mset_SortFunc size_mset)

lemma SortFunc_Nil_iff [simp]: "SortFunc cmp xs = [] \<longleftrightarrow> xs = []"
  by (metis length_0_conv length_SortFunc)

lemma distinct_SortFunc [simp]: "distinct (SortFunc cmp xs) = distinct xs"
  by (metis mset_SortFunc mset_eq_imp_distinct_iff)

text \<open>The contract of a comparison function passed to \<open>slices.SortFunc\<close>.\<close>

locale comparator =
  fixes cmp :: "'a \<Rightarrow> 'a \<Rightarrow> int"
  assumes cmp_flip: "cmp x y < 0 \<longleftrightarrow> 0 < cmp y x"
    and cmp_trans: "cmp x y \<le> 0 \<Longrightarrow> cmp y z \<le> 0 \<Longrightarrow> cmp x z \<le> 0"
begin

lemma not_less_iff: "\<not> cmp x y < 0 \<longleftrightarrow> cmp y x \<le> 0"
  using cmp_flip by (simp add: not_less)

lemma cmp_refl: "cmp x x = 0"
  using cmp_flip [of x x] by linarith

lemma sorted_insert_left:
  "sorted_wrt (\<lambda>a b. cmp b a \<le> 0) ys \<Longrightarrow> sorted_wrt (\<lambda>a b. cmp b a \<le> 0) (insert_left cmp x ys)"
proof (induction ys)
  case Nil
  then show ?case by simp
next
  case (Cons y ys)
  have set_ins: "set (insert_left cmp x ys) = insert x (set ys)"
    by (metis mset_insert_left set_mset_add_mset_insert set_mset_mset)
  show ?case
  proof (cases "cmp x y < 0")
    case True
    then show ?thesis using Cons by (auto simp: set_ins)
  next
    case False
    then have "cmp y x \<le> 0" by (simp add: not_less_iff)
    then show ?thesis using Cons.prems False by (auto intro: cmp_trans)
  qed
qed

lemma sorted_foldl_insert_left:
  "sorted_wrt (\<lambda>a b. cmp b a \<le> 0) acc \<Longrightarrow>
   sorted_wrt (\<lambda>a b. cmp b a \<le> 0) (foldl (\<lambda>acc x. insert_left cmp x acc) acc xs)"
  by (induction xs arbitrary: acc) (auto intro: sorted_insert_left)

theorem sorted_SortFunc: "sorted_wrt (\<lambda>a b. cmp a b \<le> 0) (SortFunc cmp xs)"
  unfolding SortFunc_def sorted_wrt_rev by (rule sorted_foldl_insert_left) simp

lemma SortFunc_head_least:
  assumes "SortFunc cmp xs = y # ys" and "x \<in> set xs"
  shows "cmp y x \<le> 0"
proof -
  have "x \<in> set (y # ys)"
    using assms by (metis set_SortFunc)
  then show ?thesis
    using sorted_SortFunc [of xs] assms(1) by (auto simp: cmp_refl)
qed

end

interpretation str_cmp: comparator strings_Compare
  by unfold_locales (auto simp: strings_Compare_def split: if_splits)

interpretation time_cmp: comparator time_Compare
  by unfold_locales (auto simp: time_Compare_def split: if_splits)

lemma strings_Compare_zero [simp]: "strings_Compare a b = 0 \<longleftrightarrow> a = b"
  by (simp add: strings_Compare_def)

lemma strings_Compare_le: "strings_Compare a b \<le> 0 \<longleftrightarrow> a \<le> b"
  by (auto simp: strings_Compare_def)

lemma time_Compare_le: "time_Compare a b \<le> 0 \<longleftrightarrow> a \<le> b"
  by (auto simp: time_Compare_def)

text \<open>\<open>slices.Sort\<close> and \<open>sort.Strings\<close> on strings.\<close>

definition sort_strings :: "string list \<Rightarrow> string list" where
  "sort_strings = SortFunc strings_Compare"

lemma sorted_sort_strings: "sorted (sort_strings xs)"
  using str_cmp.sorted_SortFunc [of xs] by (simp add: sort_strings_def strings_Compare_le)

lemma set_sort_strings [simp]: "set (sort_strings xs) = set xs"
  and mset_sort_strings [simp]: "mset (sort_strings xs) = mset xs"
  and distinct_sort_strings [simp]: "distinct (sort_strings xs) = distinct xs"
  and length_sort_strings [simp]: "length (sort_strings xs) = length xs"
  by (simp_all add: sort_strings_def)

text \<open>Any two enumerations of the same strings sort to the same list.\<close>

lemma sort_strings_cong: "mset xs = mset ys \<Longrightarrow> sort_strings xs = sort_strings ys"
  by (metis mset_sort_strings properties_for_sort sorted_sort_strings)

section \<open>Strings\<close>

text \<open>\<open>strings.Join\<close>, \<open>strings.HasPrefix\<close> and \<open>strings.Split\<close> at a one-byte separator.\<close>

fun strings_Join :: "string list \<Rightarrow> string \<Rightarrow> string" where
  "strings_Join [] sep = []"
| "strings_Join [x] sep = x"
| "strings_Join (x # y # zs) sep = x @ sep @ strings_Join (y # zs) sep"

fun HasPrefix :: "string \<Rightarrow> string \<Rightarrow> bool" where
  "HasPrefix s [] = True"
| "HasPrefix [] (p # ps) = False"
| "HasPrefix (c # cs) (p # ps) = (c = p \<and> HasPrefix cs ps)"

lemma HasPrefix_iff: "HasPrefix s p \<longleftrightarrow> (\<exists>r. s = p @ r)"
  by (induction s p rule: HasPrefix.induct) auto

fun split_at :: "char \<Rightarrow> string \<Rightarrow> string list" where
  "split_at sep [] = [[]]"
| "split_at sep (c # cs) =
     (if c = sep then [] # split_at sep cs
      else (case split_at sep cs of [] \<Rightarrow> [[c]] | w # ws \<Rightarrow> (c # w) # ws))"

lemma split_at_nonempty [simp]: "split_at sep s \<noteq> []"
  by (induction s) (auto split: list.splits)

lemma split_at_word: "sep \<notin> set w \<Longrightarrow> split_at sep w = [w]"
  by (induction w) auto

lemma split_at_append: "sep \<notin> set w \<Longrightarrow> split_at sep (w @ sep # s) = w # split_at sep s"
  by (induction w) auto

lemma split_at_Join:
  "ws \<noteq> [] \<Longrightarrow> \<forall>w \<in> set ws. sep \<notin> set w \<Longrightarrow> split_at sep (strings_Join ws [sep]) = ws"
proof (induction ws "[sep]" rule: strings_Join.induct)
  case 1
  then show ?case by simp
next
  case (2 x)
  then show ?case by (simp add: split_at_word)
next
  case (3 x y zs)
  then show ?case by (simp add: split_at_append)
qed

lemma Join_split_at: "strings_Join (split_at sep s) [sep] = s"
proof (induction s)
  case Nil
  then show ?case by simp
next
  case (Cons c cs)
  obtain w ws where w: "split_at sep cs = w # ws"
    by (cases "split_at sep cs") auto
  with Cons show ?case by (cases ws) auto
qed

end
