(* ===== verification/Errors.thy ===== *)
theory Errors
  imports Prelude
begin

text \<open>
  The error package \<open>lib/error\<close>: wrapping with a captured stack and key/value context, the
  nesting of descriptions, and unwrapping to the root cause. An \<open>error\<close> interface value is
  \<open>goerr option\<close>, \<open>None\<close> being nil. \<open>Wrap\<close> on a \<open>*Error\<close> changes the object in place and
  returns it; every caller goes on with the returned value, which is what the model passes on.
  The frames \<open>runtime.Callers\<close> reports are an argument.
\<close>

section \<open>Error values\<close>

text \<open>The values of a \<open>[]any\<close> context: Go strings, and everything else by its rendering.\<close>

datatype any = AStr string | AOther string

text \<open>
  \<open>Plain\<close>: an error without \<open>Unwrap\<close> (\<open>errors.New\<close>). \<open>Chained\<close>: any other error with an
  \<open>Unwrap\<close> method (\<open>fmt.Errorf\<close> with \<open>%w\<close>, \<open>pkg/errors\<close>), with its message and what
  \<open>Unwrap\<close> returns. \<open>LibError\<close>: the package's \<open>Error\<close> struct: the fields \<open>wrapped\<close>,
  \<open>description\<close>, \<open>context\<close> and \<open>stack\<close>.
\<close>

datatype goerr =
    Plain string
  | Chained string "goerr option"
  | LibError (wrapped: goerr) (description: string) (err_context: "any list") (err_stack: "string list")

definition causedBy :: "string \<Rightarrow> string \<Rightarrow> string" where
  "causedBy err caused = err @ '' caused by: '' @ [CHR 0x27] @ caused @ [CHR 0x27]"

fun Error :: "goerr \<Rightarrow> string" where
  "Error (Plain m) = m"
| "Error (Chained m i) = m"
| "Error (LibError w d c s) = (if 0 < length d then causedBy d (Error w) else Error w)"

text \<open>\<open>fmt.Errorf("prefix: %w", err)\<close>.\<close>

definition errorf :: "string \<Rightarrow> goerr \<Rightarrow> goerr" where
  "errorf prefix err = Chained (prefix @ '': '' @ Error err) (Some err)"

definition Stack :: "goerr \<Rightarrow> string" where
  "Stack e = strings_Join (err_stack e) [CHR 0x0A]"

definition Context :: "goerr \<Rightarrow> any list" where
  "Context e = err_context e"

text \<open>
  \<open>append\<close>: an odd number of values that starts with a string is a description followed by
  pairs; any other list of values goes to the context as it is.
\<close>

definition append_kv :: "any list \<Rightarrow> goerr \<Rightarrow> goerr" where
  "append_kv kvpair e = (case e of
     LibError w d c s \<Rightarrow>
       (case kvpair of
          [] \<Rightarrow> e
        | v # rest \<Rightarrow>
            (case v of
               AStr desc \<Rightarrow>
                 if odd (length kvpair)
                 then LibError w (if 0 < length d then causedBy desc d else desc) (c @ rest) s
                 else LibError w d (c @ kvpair) s
             | AOther _ \<Rightarrow> LibError w d (c @ kvpair) s))
   | _ \<Rightarrow> e)"

definition Wrap :: "string list \<Rightarrow> goerr option \<Rightarrow> any list \<Rightarrow> goerr option" where
  "Wrap frames err kvpair = (case err of
     None \<Rightarrow> None
   | Some e \<Rightarrow>
       (case e of
          LibError w d c s \<Rightarrow> Some (append_kv kvpair e)
        | _ \<Rightarrow> Some (append_kv kvpair (LibError e [] [] ([] # frames)))))"

definition New :: "string list \<Rightarrow> string \<Rightarrow> any list \<Rightarrow> goerr option" where
  "New frames m kvpair = Wrap frames (Some (Plain m)) kvpair"

text \<open>
  \<open>Unwrap\<close> follows \<open>Unwrap\<close> methods until it meets nil or an error without one. The method of
  \<open>Error\<close> itself unwraps its whole chain, so the recursion is nested.
\<close>

function Unwrap :: "goerr option \<Rightarrow> goerr option" where
  "Unwrap None = None"
| "Unwrap (Some (Plain m)) = Some (Plain m)"
| "Unwrap (Some (Chained m i)) = Unwrap i"
| "Unwrap (Some (LibError w d c s)) = Unwrap (Unwrap (Some w))"
  by pat_completeness auto

lemma Unwrap_root: "Unwrap_dom e \<Longrightarrow> Unwrap e = None \<or> (\<exists>m. Unwrap e = Some (Plain m))"
  by (induction e rule: Unwrap.pinduct) (auto simp: Unwrap.psimps)

termination Unwrap
proof (relation "measure (\<lambda>e. case e of None \<Rightarrow> 0 | Some e \<Rightarrow> size e)", goal_cases)
  case 1
  show ?case by simp
next
  case (2 m i)
  show ?case by (cases i) auto
next
  case (3 w d c s)
  show ?case by simp
next
  case (4 w d c s)
  from Unwrap_root [OF 4] show ?case by auto
qed

lemma Unwrap_cases: "Unwrap e = None \<or> (\<exists>m. Unwrap e = Some (Plain m))"
proof (induction e rule: Unwrap.induct)
  case (4 w d c s)
  then show ?case by (metis Unwrap.simps(1,2,4))
qed simp_all

lemma Unwrap_idem [simp]: "Unwrap (Unwrap e) = Unwrap e"
  using Unwrap_cases [of e] by auto

section \<open>Properties\<close>

lemma Wrap_eq_None_iff [simp]: "Wrap frames e kvs = None \<longleftrightarrow> e = None"
  by (cases e; cases "the e") (auto simp: Wrap_def)

lemma Wrap_Some [simp]: "\<exists>y. Wrap frames (Some e) kvs = Some y"
  using Wrap_eq_None_iff [of frames "Some e" kvs] by blast

definition is_LibError :: "goerr \<Rightarrow> bool" where
  "is_LibError e = (case e of LibError _ _ _ _ \<Rightarrow> True | _ \<Rightarrow> False)"

lemma is_LibError_simps [simp]:
  "is_LibError (LibError w d c s)" "\<not> is_LibError (Plain m)" "\<not> is_LibError (Chained m i)"
  by (simp_all add: is_LibError_def)

text \<open>The description and the pairs one \<open>Wrap\<close> call contributes.\<close>

definition kv_desc :: "any list \<Rightarrow> string option" where
  "kv_desc kvs = (case kvs of AStr m # _ \<Rightarrow> if odd (length kvs) then Some m else None | _ \<Rightarrow> None)"

definition kv_pairs :: "any list \<Rightarrow> any list" where
  "kv_pairs kvs = (if kv_desc kvs = None then kvs else tl kvs)"

definition nest_desc :: "string \<Rightarrow> string option \<Rightarrow> string" where
  "nest_desc d n = (case n of None \<Rightarrow> d | Some m \<Rightarrow> if 0 < length d then causedBy m d else m)"

lemma append_kv_LibError:
  "append_kv kvs (LibError w d c s) =
   LibError w (nest_desc d (kv_desc kvs)) (c @ kv_pairs kvs) s"
  by (auto simp: append_kv_def kv_desc_def kv_pairs_def nest_desc_def split: list.splits any.splits)

text \<open>Successive \<open>Wrap\<close> calls on one error, each with the frames captured at its call.\<close>

fun wraps :: "(string list \<times> any list) list \<Rightarrow> goerr option \<Rightarrow> goerr option" where
  "wraps [] e = e"
| "wraps ((frames, kvs) # rest) e = wraps rest (Wrap frames e kvs)"

lemma wraps_None [simp]: "wraps ws None = None"
  by (induction ws) (auto simp: Wrap_def)

lemma wraps_LibError:
  "wraps ws (Some (LibError w d c s)) =
   Some (LibError w (foldl nest_desc d (map (kv_desc \<circ> snd) ws))
     (c @ concat (map (kv_pairs \<circ> snd) ws)) s)"
  by (induction ws arbitrary: d c) (auto simp: Wrap_def append_kv_LibError)

text \<open>
  C39. However often an error is wrapped, the stack is the one captured by the first \<open>Wrap\<close>, the
  context is the concatenation of all key/value pairs, the descriptions nest with the newest
  outermost, and the wrapped value is the original error.
\<close>
theorem wrap_accumulates:
  assumes "\<not> is_LibError e"
  shows "wraps ((frames, kvs) # ws) (Some e) =
    Some (LibError e
      (foldl nest_desc [] (map kv_desc (kvs # map snd ws)))
      (concat (map kv_pairs (kvs # map snd ws)))
      ([] # frames))"
  using assms
  by (cases e) (simp_all add: Wrap_def append_kv_LibError wraps_LibError comp_def)

theorem wrap_accumulates_witness:
  "wraps [([''f()''], [AStr ''Failed'', AStr ''name'', AStr ''larry'']),
          ([''g()''], [AStr ''POST failed''])] (Some (Plain ''root'')) =
    Some (LibError (Plain ''root'')
      (causedBy ''POST failed'' ''Failed'') [AStr ''name'', AStr ''larry''] [[], ''f()''])"
proof -
  have "\<not> is_LibError (Plain ''root'')" by simp
  from wrap_accumulates [OF this, of "[''f()'']" "[AStr ''Failed'', AStr ''name'', AStr ''larry'']"
      "[([''g()''], [AStr ''POST failed''])]"]
  show ?thesis by (simp add: kv_desc_def kv_pairs_def nest_desc_def)
qed

text \<open>
  Wrapping any number of times and unwrapping gives the root cause that unwrapping the
  original error gives; a nil error stays nil.
\<close>
theorem unwrap_wraps: "Unwrap (wraps ws e) = Unwrap e"
proof (cases e)
  case None
  then show ?thesis by simp
next
  case (Some x)
  show ?thesis
  proof (cases ws)
    case Nil
    then show ?thesis by simp
  next
    case (Cons a rest)
    then show ?thesis using Some
      by (cases a; cases x) (simp_all add: Wrap_def append_kv_LibError wraps_LibError)
  qed
qed

end
