(* ===== verification/Settings.thy ===== *)
theory Settings
  imports Errors
begin

text \<open>
  The controller settings (\<open>settings/settings.go\<close>): environment lookups, the parsing of numbers
  and booleans they rely on, and \<open>Load\<close> with its order and its early returns. The environment
  is a function from variable names to values. Durations are 64-bit, so the multiplication by
  \<open>time.Second\<close> wraps.
\<close>

section \<open>Number and boolean parsing\<close>

datatype num_err = ErrSyntax | ErrRange

fun num_err_msg :: "num_err \<Rightarrow> string" where
  "num_err_msg ErrSyntax = ''invalid syntax''"
| "num_err_msg ErrRange = ''value out of range''"

text \<open>A \<open>*strconv.NumError\<close>: it has an \<open>Unwrap\<close> method.\<close>

definition NumError :: "string \<Rightarrow> string \<Rightarrow> num_err \<Rightarrow> goerr" where
  "NumError fn num e =
     Chained (''strconv.'' @ fn @ '': parsing '' @ [CHR 0x22] @ num @ [CHR 0x22] @ '': '' @ num_err_msg e)
       (Some (Plain (num_err_msg e)))"

definition is_digit :: "char \<Rightarrow> bool" where
  "is_digit c \<longleftrightarrow> (48::nat) \<le> of_char c \<and> of_char c \<le> (57::nat)"

definition digit_val :: "char \<Rightarrow> nat" where
  "digit_val c = of_char c - 48"

text \<open>The digit loop of \<open>strconv.ParseUint\<close>, base 10, 64 bits.\<close>

fun parse_uint :: "nat \<Rightarrow> string \<Rightarrow> num_err + nat" where
  "parse_uint n [] = Inr n"
| "parse_uint n (c # cs) =
     (if is_digit c then
        (let n1 = n * 10 + digit_val c in
         if 2 ^ 64 \<le> n1 then Inl ErrRange else parse_uint n1 cs)
      else Inl ErrSyntax)"

text \<open>
  \<open>strconv.Atoi\<close>: an optional sign and at least one digit; a value outside 64 bits comes back
  clamped with \<open>ErrRange\<close>, a malformed string as 0 with \<open>ErrSyntax\<close>.
\<close>

definition signed_value :: "bool \<Rightarrow> string \<Rightarrow> int \<times> num_err option" where
  "signed_value neg ds =
     (if ds = [] then (0, Some ErrSyntax)
      else case parse_uint 0 ds of
        Inl ErrSyntax \<Rightarrow> (0, Some ErrSyntax)
      | Inl ErrRange \<Rightarrow> (if neg then - (2 ^ 63) else 2 ^ 63 - 1, Some ErrRange)
      | Inr un \<Rightarrow>
          if \<not> neg \<and> 2 ^ 63 \<le> un then (2 ^ 63 - 1, Some ErrRange)
          else if neg \<and> 2 ^ 63 < un then (- (2 ^ 63), Some ErrRange)
          else (if neg then - int un else int un, None))"

definition Atoi :: "string \<Rightarrow> int \<times> goerr option" where
  "Atoi s =
     (let r = (case s of
          [] \<Rightarrow> signed_value False []
        | c # cs \<Rightarrow>
            if c = CHR ''-'' then signed_value True cs
            else if c = CHR ''+'' then signed_value False cs
            else signed_value False s)
      in (fst r, map_option (NumError ''Atoi'' s) (snd r)))"

definition ParseBool :: "string \<Rightarrow> bool \<times> goerr option" where
  "ParseBool s =
     (if s \<in> {''1'', ''t'', ''T'', ''TRUE'', ''true'', ''True''} then (True, None)
      else if s \<in> {''0'', ''f'', ''F'', ''FALSE'', ''false'', ''False''} then (False, None)
      else (False, Some (NumError ''ParseBool'' s ErrSyntax)))"

section \<open>Lookups\<close>

type_synonym environment = "string \<Rightarrow> string option"

definition LookupInt :: "string list \<Rightarrow> environment \<Rightarrow> string \<Rightarrow> int \<Rightarrow> int \<times> goerr option" where
  "LookupInt frames env envvar def =
     (case env envvar of
        None \<Rightarrow> (def, None)
      | Some str \<Rightarrow>
          (case Atoi str of
             (val, None) \<Rightarrow> (val, None)
           | (val, Some err) \<Rightarrow> (val, Wrap frames (Some err) [AStr ''var'', AStr envvar])))"

definition LookupBool :: "string list \<Rightarrow> environment \<Rightarrow> string \<Rightarrow> bool \<Rightarrow> bool \<times> goerr option" where
  "LookupBool frames env envvar def =
     (case env envvar of
        None \<Rightarrow> (def, None)
      | Some str \<Rightarrow>
          (case ParseBool str of
             (val, None) \<Rightarrow> (val, None)
           | (val, Some err) \<Rightarrow> (val, Wrap frames (Some err) [AStr ''var'', AStr envvar])))"

definition LookupSeconds :: "string list \<Rightarrow> environment \<Rightarrow> string \<Rightarrow> int \<Rightarrow> duration \<times> goerr option" where
  "LookupSeconds frames env envvar def =
     (case env envvar of
        None \<Rightarrow> (of_int def * Second, None)
      | Some str \<Rightarrow>
          (case Atoi str of
             (val, None) \<Rightarrow> (of_int val * Second, None)
           | (val, Some err) \<Rightarrow> (0, Wrap frames (Some err) [AStr ''var'', AStr envvar])))"

section \<open>The settings\<close>

definition EnvDebounceThreshold :: string where
  "EnvDebounceThreshold = ''DEBOUNCE_THRESHOLD''"
definition EnvInformerSyncTimeout :: string where
  "EnvInformerSyncTimeout = ''INFORMER_SYNC_TIMEOUT''"
definition EnvK8SAPITimeout :: string where
  "EnvK8SAPITimeout = ''K8S_API_TIMEOUT''"
definition EnvK8SInformerResync :: string where
  "EnvK8SInformerResync = ''K8S_INFORMER_RESYNC''"
definition EnvRetainCompletedIFOs :: string where
  "EnvRetainCompletedIFOs = ''RETAIN_COMPLETED_IFOS''"
definition EnvRequeueInterval :: string where
  "EnvRequeueInterval = ''REQUEUE_INTERVAL''"
definition EnvOperatorVersion :: string where
  "EnvOperatorVersion = ''OPERATOR_VERSION''"

definition DefaultDebounceThreshold :: int where "DefaultDebounceThreshold = 30"
definition DefaultInformerSyncTimeout :: int where "DefaultInformerSyncTimeout = 30"
definition DefaultK8SAPITimeout :: int where "DefaultK8SAPITimeout = 30"
definition DefaultK8SInformerResync :: int where "DefaultK8SInformerResync = 30"
definition DefaultRequeueInterval :: int where "DefaultRequeueInterval = 60"

record settings =
  DebounceThreshold :: duration
  InformerSyncTimeout :: duration
  K8SAPITimeout :: duration
  K8SInformerResync :: duration
  RetainCompletedIFOs :: bool
  RequeueInterval :: duration
  OperatorVersion :: string

text \<open>
  \<open>Load\<close> assigns the fields in order. Each lookup's value is stored before its error is
  examined, and the first error returns at once, so the fields after it keep their old values.
\<close>

definition Load :: "string list \<Rightarrow> environment \<Rightarrow> settings \<Rightarrow> settings \<times> goerr option" where
  "Load frames env r =
     (let (v, err) = LookupSeconds frames env EnvDebounceThreshold DefaultDebounceThreshold;
          r = r\<lparr>DebounceThreshold := v\<rparr> in
      if err \<noteq> None then (r, err) else
      let (v, err) = LookupSeconds frames env EnvInformerSyncTimeout DefaultInformerSyncTimeout;
          r = r\<lparr>InformerSyncTimeout := v\<rparr> in
      if err \<noteq> None then (r, err) else
      let (v, err) = LookupSeconds frames env EnvK8SAPITimeout DefaultK8SAPITimeout;
          r = r\<lparr>K8SAPITimeout := v\<rparr> in
      if err \<noteq> None then (r, err) else
      let (v, err) = LookupSeconds frames env EnvK8SInformerResync DefaultK8SInformerResync;
          r = r\<lparr>K8SInformerResync := v\<rparr> in
      if err \<noteq> None then (r, err) else
      let (v, err) = LookupBool frames env EnvRetainCompletedIFOs False;
          r = r\<lparr>RetainCompletedIFOs := v\<rparr> in
      if err \<noteq> None then (r, err) else
      let (v, err) = LookupSeconds frames env EnvRequeueInterval DefaultRequeueInterval;
          r = r\<lparr>RequeueInterval := v\<rparr> in
      if err \<noteq> None then (r, err) else
      (r\<lparr>OperatorVersion := (case env EnvOperatorVersion of None \<Rightarrow> [] | Some s \<Rightarrow> s)\<rparr>, None))"

lemmas Env_defs = EnvDebounceThreshold_def EnvInformerSyncTimeout_def EnvK8SAPITimeout_def
  EnvK8SInformerResync_def EnvRetainCompletedIFOs_def EnvRequeueInterval_def EnvOperatorVersion_def

lemmas Default_defs = DefaultDebounceThreshold_def DefaultInformerSyncTimeout_def
  DefaultK8SAPITimeout_def DefaultK8SInformerResync_def DefaultRequeueInterval_def

section \<open>Properties\<close>

text \<open>The decimal digits of a number, and \<open>Atoi\<close> on what they spell.\<close>

fun dec :: "nat \<Rightarrow> string" where
  "dec n = (if n < 10 then [char_of (48 + n)] else dec (n div 10) @ [char_of (48 + n mod 10)])"

declare dec.simps [simp del]

lemma dec_nonempty [simp]: "dec n \<noteq> []"
  by (subst dec.simps) simp

lemma digit_char: "d < 10 \<Longrightarrow> is_digit (char_of (48 + d)) \<and> digit_val (char_of (48 + d)) = d"
  by (simp add: is_digit_def digit_val_def)

lemma parse_uint_append:
  "parse_uint n (ds @ ds') = (case parse_uint n ds of Inl e \<Rightarrow> Inl e | Inr m \<Rightarrow> parse_uint m ds')"
  by (induction ds arbitrary: n) (auto simp: Let_def)

lemma parse_uint_dec: "n < 2 ^ 64 \<Longrightarrow> parse_uint 0 (dec n) = Inr n"
proof (induction n rule: dec.induct)
  case (1 n)
  show ?case
  proof (cases "n < 10")
    case True
    then show ?thesis by (subst dec.simps) (simp add: digit_char)
  next
    case False
    then have "parse_uint 0 (dec (n div 10)) = Inr (n div 10)"
      using 1 by simp
    moreover have "n div 10 * 10 + n mod 10 = n" by simp
    ultimately show ?thesis using False 1(2)
      by (subst dec.simps) (simp add: parse_uint_append digit_char Let_def)
  qed
qed

lemma dec_no_sign: "hd (dec n) \<noteq> CHR ''-'' \<and> hd (dec n) \<noteq> CHR ''+''"
proof (induction n rule: dec.induct)
  case (1 n)
  show ?case
  proof (cases "n < 10")
    case True
    then have "is_digit (hd (dec n))" by (subst dec.simps) (simp add: digit_char)
    moreover have "\<not> is_digit (CHR ''-'')" "\<not> is_digit (CHR ''+'')" by (simp_all add: is_digit_def)
    ultimately show ?thesis by metis
  next
    case False
    then have "hd (dec n) = hd (dec (n div 10))" by (subst dec.simps) (simp add: hd_append)
    with 1 False show ?thesis by simp
  qed
qed

lemma Atoi_dec: "n < 2 ^ 63 \<Longrightarrow> Atoi (dec n) = (int n, None)"
proof -
  assume n: "n < 2 ^ 63"
  obtain c cs where c: "dec n = c # cs" by (cases "dec n") auto
  have "c \<noteq> CHR ''-''" "c \<noteq> CHR ''+''" using dec_no_sign [of n] c by auto
  then show ?thesis
    using n c parse_uint_dec [of n] by (simp add: Atoi_def signed_value_def Let_def)
qed

lemma sint_seconds: "0 \<le> v \<Longrightarrow> v \<le> 9223372036 \<Longrightarrow> sint (of_int v * Second :: duration) = v * 10 ^ 9"
proof -
  assume v: "0 \<le> v" "v \<le> 9223372036"
  have "of_int v * Second = (of_int (v * 1000000000) :: duration)"
    by (simp add: Second_def)
  moreover have "sint (of_int (v * 1000000000) :: duration) = v * 1000000000"
    unfolding int_word_sint using v by (subst mod_pos_pos_trivial) auto
  ultimately show ?thesis by simp
qed

text \<open>
  A seconds variable holding the decimal digits of a number up to 9223372036 is read as
  exactly that many seconds, whatever the default.
\<close>
theorem LookupSeconds_in_range:
  assumes "env v = Some (dec n)" and "n \<le> 9223372036"
  shows "snd (LookupSeconds frames env v d) = None \<and>
    sint (fst (LookupSeconds frames env v d)) = int n * 10 ^ 9"
  using assms sint_seconds [of "int n"]
  by (simp add: LookupSeconds_def Atoi_dec)

theorem LookupSeconds_in_range_witness:
  "sint (fst (LookupSeconds [] [''K8S_API_TIMEOUT'' \<mapsto> dec 45] ''K8S_API_TIMEOUT'' 30)) = 45 * 10 ^ 9"
  using LookupSeconds_in_range [of "[''K8S_API_TIMEOUT'' \<mapsto> dec 45]" "''K8S_API_TIMEOUT''" 45 "[]" 30]
  by simp

text \<open>
  One second more and the product wraps: the value is accepted without an error and the
  duration is negative.
\<close>
theorem LookupSeconds_overflow:
  assumes "env v = Some (dec 9223372037)"
  shows "snd (LookupSeconds frames env v d) = None \<and> sint (fst (LookupSeconds frames env v d)) < 0"
  using assms by (simp add: LookupSeconds_def Atoi_dec Second_def)

theorem LookupSeconds_overflow_witness:
  "sint (fst (LookupSeconds [] [''DEBOUNCE_THRESHOLD'' \<mapsto> dec 9223372037] ''DEBOUNCE_THRESHOLD'' 30)) < 0"
  using LookupSeconds_overflow
    [of "[''DEBOUNCE_THRESHOLD'' \<mapsto> dec 9223372037]" "''DEBOUNCE_THRESHOLD''" "[]" 30]
  by simp

text \<open>The variables \<open>Load\<close> checks, in its order, and what makes a lookup fail.\<close>

definition bad_var :: "environment \<Rightarrow> string \<Rightarrow> bool" where
  "bad_var env v = (case env v of None \<Rightarrow> False | Some s \<Rightarrow>
     if v = EnvRetainCompletedIFOs then snd (ParseBool s) \<noteq> None else snd (Atoi s) \<noteq> None)"

definition load_order :: "string list" where
  "load_order = [EnvDebounceThreshold, EnvInformerSyncTimeout, EnvK8SAPITimeout,
     EnvK8SInformerResync, EnvRetainCompletedIFOs, EnvRequeueInterval]"

lemma LookupSeconds_err_iff:
  "v \<noteq> EnvRetainCompletedIFOs \<Longrightarrow> snd (LookupSeconds frames env v d) = None \<longleftrightarrow> \<not> bad_var env v"
  by (simp add: LookupSeconds_def bad_var_def split: option.splits prod.splits)

lemma LookupBool_err_iff:
  "snd (LookupBool frames env EnvRetainCompletedIFOs d) = None \<longleftrightarrow> \<not> bad_var env EnvRetainCompletedIFOs"
  by (simp add: LookupBool_def bad_var_def split: option.splits prod.splits)

lemma Env_distinct [simp]:
  "EnvDebounceThreshold \<noteq> EnvRetainCompletedIFOs" "EnvInformerSyncTimeout \<noteq> EnvRetainCompletedIFOs"
  "EnvK8SAPITimeout \<noteq> EnvRetainCompletedIFOs" "EnvK8SInformerResync \<noteq> EnvRetainCompletedIFOs"
  "EnvRequeueInterval \<noteq> EnvRetainCompletedIFOs"
  by (simp_all add: Env_defs)

lemmas lookup_err_iffs = LookupSeconds_err_iff LookupBool_err_iff

lemma Load_bad: "v \<in> set load_order \<Longrightarrow> bad_var env v \<Longrightarrow> snd (Load frames env r) \<noteq> None"
  by (auto simp add: Load_def load_order_def Let_def case_prod_beta lookup_err_iffs simp del: not_None_eq)

lemma Load_good:
  assumes "\<forall>v \<in> set load_order. \<not> bad_var env v"
  shows "Load frames env r =
    (\<lparr>DebounceThreshold = fst (LookupSeconds frames env EnvDebounceThreshold DefaultDebounceThreshold),
      InformerSyncTimeout = fst (LookupSeconds frames env EnvInformerSyncTimeout DefaultInformerSyncTimeout),
      K8SAPITimeout = fst (LookupSeconds frames env EnvK8SAPITimeout DefaultK8SAPITimeout),
      K8SInformerResync = fst (LookupSeconds frames env EnvK8SInformerResync DefaultK8SInformerResync),
      RetainCompletedIFOs = fst (LookupBool frames env EnvRetainCompletedIFOs False),
      RequeueInterval = fst (LookupSeconds frames env EnvRequeueInterval DefaultRequeueInterval),
      OperatorVersion = (case env EnvOperatorVersion of None \<Rightarrow> [] | Some s \<Rightarrow> s)\<rparr>, None)"
  using assms
  by (cases r) (simp add: Load_def load_order_def Let_def case_prod_beta lookup_err_iffs del: not_None_eq)

text \<open>
  C38. \<open>Load\<close> succeeds exactly when none of the six checked variables is malformed, and then the
  result does not depend on the settings it started from.
\<close>
theorem Load_succeeds_iff:
  "(snd (Load frames env r) = None \<longleftrightarrow> (\<forall>v \<in> set load_order. \<not> bad_var env v)) \<and>
   (snd (Load frames env r) = None \<longrightarrow> snd (Load frames env r') = None \<and>
      fst (Load frames env r) = fst (Load frames env r'))"
proof (cases "\<forall>v \<in> set load_order. \<not> bad_var env v")
  case True
  then show ?thesis by (simp add: Load_good)
next
  case False
  then show ?thesis using Load_bad by blast
qed

theorem Load_succeeds_iff_witness:
  "\<forall>r r'. snd (Load [] (\<lambda>_. None) r) = None \<and> fst (Load [] (\<lambda>_. None) r) = fst (Load [] (\<lambda>_. None) r')"
proof (intro allI)
  fix r r'
  show "snd (Load [] (\<lambda>_. None) r) = None \<and> fst (Load [] (\<lambda>_. None) r) = fst (Load [] (\<lambda>_. None) r')"
    using Load_succeeds_iff [of "[]" "\<lambda>_. None" r r'] by (simp add: bad_var_def)
qed

end
