(* ===== verification/Conditions.thy ===== *)
theory Conditions
  imports Prelude
begin

text \<open>
  The managed condition list of \<open>lib/condition/condition.go\<close>: the staging protocol
  (\<open>BeginStagingConditions\<close>, \<open>SetCondition\<close>, \<open>StageCondition\<close>, \<open>DeleteCondition\<close>,
  \<open>EndStagingConditions\<close>), the queries, and the explain report.

  A nil slice or map reads as an empty one: every nil guard of the source returns what its loop
  returns on the empty slice, and \<open>build\<close> only makes the three report maps writable. The one
  place where nil and empty differ is \<open>reflect.DeepEqual\<close> on \<open>Items\<close>, which is therefore an
  option. \<open>find\<close> returns a pointer into the list, modelled as an index. A clock reading taken by
  an operation is an argument of it.
\<close>

section \<open>Data\<close>

definition ReconcileFailed :: string where "ReconcileFailed = ''ReconcileFailed''"
definition Ready :: string where "Ready = ''Ready''"
definition StatusTrue :: string where "StatusTrue = ''True''"
definition StatusFalse :: string where "StatusFalse = ''False''"
definition Critical :: string where "Critical = ''Critical''"
definition ErrorCategory :: string where "ErrorCategory = ''Error''"
definition Warn :: string where "Warn = ''Warn''"
definition Required :: string where "Required = ''Required''"
definition Advisory :: string where "Advisory = ''Advisory''"

lemmas category_defs = Critical_def ErrorCategory_def Warn_def Required_def Advisory_def

record condition =
  c_Type :: string
  c_Status :: string
  c_Reason :: string
  c_Category :: string
  c_Message :: string
  c_LastTransitionTime :: time
  c_Durable :: bool
  c_Items :: "string list option"
  c_staged :: bool

record explain =
  Added :: "string \<rightharpoonup> condition"
  Updated :: "string \<rightharpoonup> condition"
  Deleted :: "string \<rightharpoonup> condition"

record conditions =
  cs_List :: "condition list"
  cs_staging :: bool
  cs_explain :: explain

definition empty_explain :: explain where
  "empty_explain = \<lparr>Added = Map.empty, Updated = Map.empty, Deleted = Map.empty\<rparr>"

definition empty_conditions :: conditions where
  "empty_conditions = \<lparr>cs_List = [], cs_staging = False, cs_explain = empty_explain\<rparr>"

section \<open>One condition\<close>

definition Equal :: "condition \<Rightarrow> condition \<Rightarrow> bool" where
  "Equal r other \<longleftrightarrow>
     c_Type r = c_Type other \<and>
     c_Status r = c_Status other \<and>
     c_Category r = c_Category other \<and>
     c_Reason r = c_Reason other \<and>
     c_Message r = c_Message other \<and>
     c_Durable r = c_Durable other \<and>
     c_Items r = c_Items other"

text \<open>\<open>Update\<close> returns the changed receiver and whether anything but the staging mark changed.\<close>

definition Update :: "time \<Rightarrow> condition \<Rightarrow> condition \<Rightarrow> condition \<times> bool" where
  "Update now r other =
     (let r = r\<lparr>c_staged := True\<rparr> in
      if Equal r other then (r, False)
      else (r\<lparr>c_Type := c_Type other, c_Status := c_Status other, c_Reason := c_Reason other,
              c_Category := c_Category other, c_Message := c_Message other,
              c_Durable := c_Durable other, c_Items := c_Items other,
              c_LastTransitionTime := now\<rparr>, True))"

section \<open>The explain report\<close>

definition explain_added :: "condition \<Rightarrow> explain \<Rightarrow> explain" where
  "explain_added cnd r = r\<lparr>
     Added := (Added r)(c_Type cnd \<mapsto> cnd),
     Updated := (Updated r)(c_Type cnd := None),
     Deleted := (Deleted r)(c_Type cnd := None)\<rparr>"

definition explain_updated :: "condition \<Rightarrow> explain \<Rightarrow> explain" where
  "explain_updated cnd r =
     (if Added r (c_Type cnd) \<noteq> None then r
      else r\<lparr>Updated := (Updated r)(c_Type cnd \<mapsto> cnd), Deleted := (Deleted r)(c_Type cnd := None)\<rparr>)"

definition explain_deleted :: "condition \<Rightarrow> explain \<Rightarrow> explain" where
  "explain_deleted cnd r = r\<lparr>
     Deleted := (Deleted r)(c_Type cnd \<mapsto> cnd),
     Added := (Added r)(c_Type cnd := None),
     Updated := (Updated r)(c_Type cnd := None)\<rparr>"

definition Explain_Len :: "explain \<Rightarrow> nat" where
  "Explain_Len r = card (dom (Added r)) + card (dom (Updated r)) + card (dom (Deleted r))"

definition Explain_Empty :: "explain \<Rightarrow> bool" where
  "Explain_Empty r \<longleftrightarrow> Explain_Len r = 0"

definition Explain :: "conditions \<Rightarrow> explain" where
  "Explain r = cs_explain r"

section \<open>The collection\<close>

definition BeginStagingConditions :: "conditions \<Rightarrow> conditions" where
  "BeginStagingConditions r = r\<lparr>
     cs_staging := True,
     cs_List := map (\<lambda>c. c\<lparr>c_staged := c_Durable c\<rparr>) (cs_List r)\<rparr>"

text \<open>The loop of \<open>EndStagingConditions\<close>: keep what is staged, report the rest as deleted.\<close>

fun end_loop :: "condition list \<Rightarrow> condition list \<Rightarrow> explain \<Rightarrow> condition list \<times> explain" where
  "end_loop [] kept e = (kept, e)"
| "end_loop (c # cs) kept e =
     (if c_staged c then end_loop cs (kept @ [c]) e else end_loop cs kept (explain_deleted c e))"

definition EndStagingConditions :: "conditions \<Rightarrow> conditions" where
  "EndStagingConditions r =
     (let (kept, e) = end_loop (cs_List r) [] (cs_explain r) in
      r\<lparr>cs_staging := False, cs_List := kept, cs_explain := e\<rparr>)"

fun find_cnd :: "condition list \<Rightarrow> string \<Rightarrow> nat option" where
  "find_cnd [] cndType = None"
| "find_cnd (c # cs) cndType =
     (if c_Type c = cndType then Some 0 else map_option Suc (find_cnd cs cndType))"

definition FindCondition :: "conditions \<Rightarrow> string \<Rightarrow> condition option" where
  "FindCondition r cndType =
     (case find_cnd (cs_List r) cndType of
        None \<Rightarrow> None
      | Some i \<Rightarrow>
          if cs_staging r \<and> \<not> c_staged (cs_List r ! i) then None else Some (cs_List r ! i))"

text \<open>One round of the \<open>SetCondition\<close> loop, with the clock reading it takes.\<close>

definition SetCondition1 :: "time \<Rightarrow> condition \<Rightarrow> conditions \<Rightarrow> conditions" where
  "SetCondition1 now cnd r =
     (let cnd = cnd\<lparr>c_staged := True\<rparr> in
      case find_cnd (cs_List r) (c_Type cnd) of
        None \<Rightarrow>
          r\<lparr>cs_explain := explain_added cnd (cs_explain r),
            cs_List := cs_List r @ [cnd\<lparr>c_LastTransitionTime := now\<rparr>]\<rparr>
      | Some i \<Rightarrow>
          (let (found, updated) = Update now (cs_List r ! i) cnd in
           r\<lparr>cs_List := (cs_List r)[i := found],
             cs_explain := (if updated then explain_updated cnd (cs_explain r) else cs_explain r)\<rparr>))"

fun SetCondition :: "(time \<times> condition) list \<Rightarrow> conditions \<Rightarrow> conditions" where
  "SetCondition [] r = r"
| "SetCondition ((now, cnd) # rest) r = SetCondition rest (SetCondition1 now cnd r)"

definition UpdateConditions :: "time list \<Rightarrow> conditions \<Rightarrow> conditions \<Rightarrow> conditions" where
  "UpdateConditions clock other r = SetCondition (zip clock (cs_List other)) r"

definition StageCondition :: "string list \<Rightarrow> conditions \<Rightarrow> conditions" where
  "StageCondition types r = r\<lparr>
     cs_List := map (\<lambda>c. if c_Type c \<in> set types then c\<lparr>c_staged := True\<rparr> else c) (cs_List r)\<rparr>"

fun delete_loop ::
  "string list \<Rightarrow> bool \<Rightarrow> condition list \<Rightarrow> condition list \<Rightarrow> explain \<Rightarrow> condition list \<times> explain"
where
  "delete_loop types staging [] kept e = (kept, e)"
| "delete_loop types staging (c # cs) kept e =
     (if c_Type c \<notin> set types then delete_loop types staging cs (kept @ [c]) e
      else
        let e = explain_deleted c e in
        if staging then delete_loop types staging cs (kept @ [c\<lparr>c_staged := False\<rparr>]) e
        else delete_loop types staging cs kept e)"

definition DeleteCondition :: "string list \<Rightarrow> conditions \<Rightarrow> conditions" where
  "DeleteCondition types r =
     (let (kept, e) = delete_loop types (cs_staging r) (cs_List r) [] (cs_explain r) in
      r\<lparr>cs_List := kept, cs_explain := e\<rparr>)"

definition HasCondition :: "string list \<Rightarrow> conditions \<Rightarrow> bool" where
  "HasCondition types r \<longleftrightarrow>
     list_all (\<lambda>t. case FindCondition r t of None \<Rightarrow> False | Some c \<Rightarrow> c_Status c = StatusTrue) types
     \<and> 0 < length types"

definition HasAnyCondition :: "string list \<Rightarrow> conditions \<Rightarrow> bool" where
  "HasAnyCondition types r \<longleftrightarrow>
     list_ex (\<lambda>t. case FindCondition r t of None \<Rightarrow> False | Some c \<Rightarrow> c_Status c = StatusTrue) types"

definition HasConditionCategory :: "string list \<Rightarrow> conditions \<Rightarrow> bool" where
  "HasConditionCategory names r \<longleftrightarrow>
     list_ex (\<lambda>c. c_Category c \<in> set names \<and> c_Status c = StatusTrue \<and>
       \<not> (cs_staging r \<and> \<not> c_staged c)) (cs_List r)"

definition HasCriticalCondition :: "conditions \<Rightarrow> bool" where
  "HasCriticalCondition r = HasConditionCategory [Critical] r"

definition HasErrorCondition :: "conditions \<Rightarrow> bool" where
  "HasErrorCondition r = HasConditionCategory [ErrorCategory] r"

definition HasWarnCondition :: "conditions \<Rightarrow> bool" where
  "HasWarnCondition r = HasConditionCategory [Warn] r"

definition HasBlockerCondition :: "conditions \<Rightarrow> bool" where
  "HasBlockerCondition r = HasConditionCategory [Critical, ErrorCategory] r"

definition IsReady :: "conditions \<Rightarrow> bool" where
  "IsReady r = (case FindCondition r Ready of None \<Rightarrow> False | Some c \<Rightarrow> c_Status c = StatusTrue)"

section \<open>Well-formed collections\<close>

text \<open>At most one condition of a type, and a report that files no type under two headings.\<close>

definition wf_explain :: "explain \<Rightarrow> bool" where
  "wf_explain e \<longleftrightarrow> dom (Added e) \<inter> dom (Updated e) = {} \<and>
     dom (Added e) \<inter> dom (Deleted e) = {} \<and> dom (Updated e) \<inter> dom (Deleted e) = {}"

definition wf_conditions :: "conditions \<Rightarrow> bool" where
  "wf_conditions r \<longleftrightarrow> distinct (map c_Type (cs_List r)) \<and> wf_explain (cs_explain r)"

lemma wf_explain_added [simp]: "wf_explain e \<Longrightarrow> wf_explain (explain_added c e)"
  and wf_explain_updated [simp]: "wf_explain e \<Longrightarrow> wf_explain (explain_updated c e)"
  and wf_explain_deleted [simp]: "wf_explain e \<Longrightarrow> wf_explain (explain_deleted c e)"
  by (auto simp: wf_explain_def explain_added_def explain_updated_def explain_deleted_def
      split: if_splits)

lemma Update_Type [simp]: "c_Type cnd = c_Type r \<Longrightarrow> c_Type (fst (Update now r cnd)) = c_Type r"
  by (simp add: Update_def Let_def)

lemma Update_staged [simp]: "c_staged (fst (Update now r cnd))"
  by (simp add: Update_def Let_def)

lemma Equal_Update [simp]: "Equal (fst (Update now r cnd)) cnd"
  by (simp add: Update_def Let_def Equal_def)

lemma find_cnd_None: "find_cnd cs t = None \<longleftrightarrow> t \<notin> c_Type ` set cs"
  by (induction cs) auto

lemma find_cnd_Some:
  "find_cnd cs t = Some i \<Longrightarrow> i < length cs \<and> c_Type (cs ! i) = t \<and> (\<forall>j < i. c_Type (cs ! j) \<noteq> t)"
proof (induction cs arbitrary: i)
  case Nil
  then show ?case by simp
next
  case (Cons c cs)
  then show ?case by (auto split: if_splits simp: nth_Cons split: nat.splits)
qed

lemma find_cnd_distinct:
  "distinct (map c_Type cs) \<Longrightarrow> i < length cs \<Longrightarrow> find_cnd cs (c_Type (cs ! i)) = Some i"
proof (induction cs arbitrary: i)
  case Nil
  then show ?case by simp
next
  case (Cons c cs)
  then show ?case by (cases i) (auto simp: image_iff)
qed

lemma find_cnd_cong: "map c_Type cs = map c_Type cs' \<Longrightarrow> find_cnd cs t = find_cnd cs' t"
proof (induction cs arbitrary: cs')
  case Nil
  then show ?case by simp
next
  case (Cons c cs)
  then show ?case by (cases cs') auto
qed

lemma find_cnd_append:
  "find_cnd (cs @ ds) t =
     (case find_cnd cs t of Some i \<Rightarrow> Some i | None \<Rightarrow> map_option (\<lambda>i. length cs + i) (find_cnd ds t))"
proof (induction cs)
  case Nil
  have "map_option ((+) 0) x = x" for x :: "nat option" by (cases x) auto
  then show ?case by simp
next
  case (Cons c cs)
  then show ?case by (cases "find_cnd cs t"; cases "find_cnd ds t") auto
qed

lemma end_loop_eq:
  "end_loop cs kept e =
     (kept @ filter c_staged cs, fold explain_deleted (filter (\<lambda>c. \<not> c_staged c) cs) e)"
  by (induction cs arbitrary: kept e) auto

lemma delete_loop_eq:
  "delete_loop types staging cs kept e =
     (kept @ (if staging
        then map (\<lambda>c. if c_Type c \<in> set types then c\<lparr>c_staged := False\<rparr> else c) cs
        else filter (\<lambda>c. c_Type c \<notin> set types) cs),
      fold explain_deleted (filter (\<lambda>c. c_Type c \<in> set types) cs) e)"
  by (induction cs arbitrary: kept e) (auto simp: Let_def)

lemma wf_explain_fold_deleted: "wf_explain e \<Longrightarrow> wf_explain (fold explain_deleted cs e)"
  by (induction cs arbitrary: e) auto

lemma distinct_map_update_same:
  "i < length cs \<Longrightarrow> f x = f (cs ! i) \<Longrightarrow> map f (cs[i := x]) = map f cs"
  by (metis list_update_id map_update)

lemma SetCondition1_types:
  "map c_Type (cs_List (SetCondition1 now cnd r)) =
     (if c_Type cnd \<in> c_Type ` set (cs_List r) then map c_Type (cs_List r)
      else map c_Type (cs_List r) @ [c_Type cnd])"
proof (cases "find_cnd (cs_List r) (c_Type cnd)")
  case None
  then have "c_Type cnd \<notin> c_Type ` set (cs_List r)" by (simp only: find_cnd_None not_False_eq_True)
  with None show ?thesis by (simp add: SetCondition1_def Let_def)
next
  case (Some i)
  from find_cnd_Some [OF Some] Some
  have i: "i < length (cs_List r)" "c_Type (cs_List r ! i) = c_Type cnd" by auto
  then have "c_Type cnd \<in> c_Type ` set (cs_List r)" by (metis image_eqI nth_mem)
  with i Some show ?thesis
    by (simp add: SetCondition1_def Let_def case_prod_beta distinct_map_update_same)
qed

section \<open>The operations keep collections well-formed\<close>

text \<open>The operations of the collection as data, so that a run of them is a list.\<close>

datatype cnd_op =
    OpBegin | OpEnd | OpSet time condition | OpStage "string list" | OpDelete "string list"

fun apply_op :: "cnd_op \<Rightarrow> conditions \<Rightarrow> conditions" where
  "apply_op OpBegin r = BeginStagingConditions r"
| "apply_op OpEnd r = EndStagingConditions r"
| "apply_op (OpSet now cnd) r = SetCondition1 now cnd r"
| "apply_op (OpStage ts) r = StageCondition ts r"
| "apply_op (OpDelete ts) r = DeleteCondition ts r"

lemma wf_BeginStaging: "wf_conditions r \<Longrightarrow> wf_conditions (BeginStagingConditions r)"
  by (simp add: wf_conditions_def BeginStagingConditions_def comp_def)

lemma wf_EndStaging: "wf_conditions r \<Longrightarrow> wf_conditions (EndStagingConditions r)"
  by (simp add: wf_conditions_def EndStagingConditions_def end_loop_eq wf_explain_fold_deleted
      distinct_map_filter)

lemma wf_SetCondition1: "wf_conditions r \<Longrightarrow> wf_conditions (SetCondition1 now cnd r)"
proof -
  assume wf: "wf_conditions r"
  have "wf_explain (cs_explain (SetCondition1 now cnd r))"
    using wf by (simp add: wf_conditions_def SetCondition1_def Let_def case_prod_beta split: option.split)
  moreover have "distinct (map c_Type (cs_List (SetCondition1 now cnd r)))"
    using wf by (simp add: wf_conditions_def SetCondition1_types)
  ultimately show ?thesis by (simp add: wf_conditions_def)
qed

lemma c_Type_staged_if [simp]: "c_Type (if P then c\<lparr>c_staged := b\<rparr> else c) = c_Type c"
  by simp

lemma map_Type_staged_if [simp]:
  "map (\<lambda>c. c_Type (if P c then c\<lparr>c_staged := b\<rparr> else c)) cs = map c_Type cs"
  by simp

lemma wf_StageCondition: "wf_conditions r \<Longrightarrow> wf_conditions (StageCondition ts r)"
  by (simp add: wf_conditions_def StageCondition_def comp_def del: c_Type_staged_if)

lemma wf_DeleteCondition: "wf_conditions r \<Longrightarrow> wf_conditions (DeleteCondition ts r)"
  by (simp add: wf_conditions_def DeleteCondition_def delete_loop_eq comp_def
      wf_explain_fold_deleted distinct_map_filter del: c_Type_staged_if)

lemmas wf_ops = wf_BeginStaging wf_EndStaging wf_SetCondition1 wf_StageCondition wf_DeleteCondition

lemma wf_apply_op: "wf_conditions r \<Longrightarrow> wf_conditions (apply_op oper r)"
  by (cases oper) (simp_all add: wf_ops)

lemma wf_fold_apply_op: "wf_conditions r \<Longrightarrow> wf_conditions (fold apply_op ops r)"
  by (induction ops arbitrary: r) (auto simp: wf_apply_op)

lemma wf_empty [simp]: "wf_conditions empty_conditions"
  by (simp add: wf_conditions_def empty_conditions_def wf_explain_def empty_explain_def)

lemma SetCondition_fold: "SetCondition ncs r = fold (\<lambda>(now, cnd). SetCondition1 now cnd) ncs r"
  by (induction ncs r rule: SetCondition.induct) auto

lemma wf_SetCondition: "wf_conditions r \<Longrightarrow> wf_conditions (SetCondition ncs r)"
  by (induction ncs r rule: SetCondition.induct) (auto simp: wf_SetCondition1)

section \<open>What the collection promises: a board of conditions by type\<close>

text \<open>
  The contract of the staging protocol, over any representation: \<open>look\<close> finds the current
  condition of a type, \<open>put\<close> writes one, \<open>open_stage\<close> hides every non-durable condition and
  \<open>close_stage\<close> makes permanent what is visible.
\<close>

locale condition_board =
  fixes look :: "'s \<Rightarrow> string \<Rightarrow> condition option"
    and put :: "time \<Rightarrow> condition \<Rightarrow> 's \<Rightarrow> 's"
    and open_stage :: "'s \<Rightarrow> 's"
    and close_stage :: "'s \<Rightarrow> 's"
    and staging :: "'s \<Rightarrow> bool"
    and ok :: "'s \<Rightarrow> bool"
  assumes put_same: "ok s \<Longrightarrow> \<exists>c'. look (put now c s) (c_Type c) = Some c' \<and> Equal c' c"
    and put_other: "ok s \<Longrightarrow> t \<noteq> c_Type c \<Longrightarrow> look (put now c s) t = look s t"
    and put_staging: "staging (put now c s) = staging s"
    and open_look: "ok s \<Longrightarrow> \<not> staging s \<Longrightarrow> look (open_stage s) t =
      (case look s t of None \<Rightarrow> None | Some c \<Rightarrow> if c_Durable c then Some (c\<lparr>c_staged := True\<rparr>) else None)"
    and open_staging: "staging (open_stage s)"
    and close_look: "ok s \<Longrightarrow> staging s \<Longrightarrow> look (close_stage s) t = look s t"
    and close_staging: "\<not> staging (close_stage s)"
    and ok_put: "ok s \<Longrightarrow> ok (put now c s)"
    and ok_open: "ok s \<Longrightarrow> ok (open_stage s)"
    and ok_close: "ok s \<Longrightarrow> ok (close_stage s)"
begin

lemma ok_puts: "ok s \<Longrightarrow> ok (fold (\<lambda>(now, c). put now c) ncs s)"
  by (induction ncs arbitrary: s) (auto simp: ok_put)

lemma staging_puts: "staging (fold (\<lambda>(now, c). put now c) ncs s) = staging s"
  by (induction ncs arbitrary: s) (simp_all add: put_staging split: prod.split)

lemma look_puts:
  "ok s \<Longrightarrow>
   (case List.find (\<lambda>c. c_Type c = t) (rev (map snd ncs)) of
      Some c \<Rightarrow> \<exists>c'. look (fold (\<lambda>(now, c). put now c) ncs s) t = Some c' \<and> Equal c' c
    | None \<Rightarrow> look (fold (\<lambda>(now, c). put now c) ncs s) t = look s t)"
proof (induction ncs rule: rev_induct)
  case Nil
  then show ?case by simp
next
  case (snoc nc ncs)
  obtain now c where nc: "nc = (now, c)" by (cases nc)
  show ?case
  proof (cases "c_Type c = t")
    case True
    with nc put_same [OF ok_puts [OF snoc.prems], of now c] show ?thesis by simp
  next
    case False
    have "look (put now c (fold (\<lambda>(now, c). put now c) ncs s)) t =
        look (fold (\<lambda>(now, c). put now c) ncs s) t"
      using False by (intro put_other ok_puts snoc.prems) simp
    with nc False snoc.IH [OF snoc.prems] show ?thesis by (simp split: option.splits)
  qed
qed

text \<open>
  One reconcile round: open, put, close. A type that was put is visible with the last value put;
  any other type survives exactly if it was durable.
\<close>

lemma stage_cycle:
  assumes "ok s" and "\<not> staging s"
  shows "case List.find (\<lambda>c. c_Type c = t) (rev (map snd ncs)) of
      Some c \<Rightarrow> \<exists>c'. look (close_stage (fold (\<lambda>(now, c). put now c) ncs (open_stage s))) t = Some c'
        \<and> Equal c' c
    | None \<Rightarrow> look (close_stage (fold (\<lambda>(now, c). put now c) ncs (open_stage s))) t =
        (case look s t of None \<Rightarrow> None | Some c \<Rightarrow> if c_Durable c then Some (c\<lparr>c_staged := True\<rparr>) else None)"
proof -
  let ?r = "fold (\<lambda>(now, c). put now c) ncs (open_stage s)"
  have "look (close_stage ?r) t = look ?r t"
    using assms by (intro close_look) (simp_all add: ok_puts ok_open staging_puts open_staging)
  then show ?thesis
    using look_puts [OF ok_open [OF assms(1)], where t = t and ncs = ncs] open_look [OF assms, of t]
    by (simp split: option.splits)
qed

end

text \<open>A board whose conditions can also be withdrawn by type.\<close>

locale erasable_board = condition_board look put open_stage close_stage staging ok
  for look :: "'s \<Rightarrow> string \<Rightarrow> condition option" and put open_stage close_stage staging ok +
  fixes erase :: "string list \<Rightarrow> 's \<Rightarrow> 's"
  assumes erase_look: "ok s \<Longrightarrow> look (erase ts s) t = (if t \<in> set ts then None else look s t)"
    and erase_staging: "staging (erase ts s) = staging s"
    and ok_erase: "ok s \<Longrightarrow> ok (erase ts s)"
begin

lemma erase_then_put:
  assumes "ok s"
  shows "\<exists>c'. look (put now c (erase ts s)) (c_Type c) = Some c' \<and> Equal c' c"
    and "t \<noteq> c_Type c \<Longrightarrow> t \<in> set ts \<Longrightarrow> look (put now c (erase ts s)) t = None"
  using assms by (simp_all add: put_same put_other ok_erase erase_look)

end

section \<open>The collection is an erasable board\<close>

lemma option_eq_by_Some: "(\<And>c. a = Some c \<longleftrightarrow> b = Some c) \<Longrightarrow> a = b"
  by (cases a; cases b) auto

lemma FindCondition_Some_iff:
  assumes "distinct (map c_Type (cs_List r))"
  shows "FindCondition r t = Some c \<longleftrightarrow>
    c \<in> set (cs_List r) \<and> c_Type c = t \<and> (cs_staging r \<longrightarrow> c_staged c)"
proof (cases "find_cnd (cs_List r) t")
  case None
  then have "t \<notin> c_Type ` set (cs_List r)" by (simp only: find_cnd_None not_False_eq_True)
  with None show ?thesis by (auto simp: FindCondition_def)
next
  case (Some i)
  from find_cnd_Some [OF Some] have i: "i < length (cs_List r)" "c_Type (cs_List r ! i) = t" by auto
  have "c = cs_List r ! i" if "c \<in> set (cs_List r)" "c_Type c = t"
    using that i assms by (auto simp: in_set_conv_nth distinct_conv_nth)
  with Some i show ?thesis by (auto simp: FindCondition_def)
qed

lemma set_update_other_type:
  assumes "i < length cs" "c_Type (cs ! i) \<noteq> t" "c_Type x \<noteq> t"
  shows "c \<in> set (cs[i := x]) \<and> c_Type c = t \<longleftrightarrow> c \<in> set cs \<and> c_Type c = t"
  using assms by (auto simp: in_set_conv_nth nth_list_update)

lemma SetCondition1_staging [simp]: "cs_staging (SetCondition1 now c r) = cs_staging r"
  by (simp add: SetCondition1_def Let_def case_prod_beta split: option.split)

lemma Begin_staging [simp]: "cs_staging (BeginStagingConditions r)"
  and End_staging [simp]: "\<not> cs_staging (EndStagingConditions r)"
  and Delete_staging [simp]: "cs_staging (DeleteCondition ts r) = cs_staging r"
  by (simp_all add: BeginStagingConditions_def EndStagingConditions_def DeleteCondition_def
      case_prod_beta)

text \<open>Where a condition ends up, and the transition time it gets.\<close>

lemma FindCondition_SetCondition1_same:
  "FindCondition (SetCondition1 now c r) (c_Type c) =
     Some (case find_cnd (cs_List r) (c_Type c) of
         None \<Rightarrow> c\<lparr>c_staged := True, c_LastTransitionTime := now\<rparr>
       | Some i \<Rightarrow> fst (Update now (cs_List r ! i) (c\<lparr>c_staged := True\<rparr>)))"
proof (cases "find_cnd (cs_List r) (c_Type c)")
  case None
  then show ?thesis
    by (simp add: FindCondition_def SetCondition1_def Let_def find_cnd_append)
next
  case (Some i)
  let ?x = "fst (Update now (cs_List r ! i) (c\<lparr>c_staged := True\<rparr>))"
  from find_cnd_Some [OF Some] have i: "i < length (cs_List r)" "c_Type (cs_List r ! i) = c_Type c" by auto
  then have "find_cnd ((cs_List r)[i := ?x]) (c_Type c) = Some i"
    using find_cnd_cong [of "(cs_List r)[i := ?x]" "cs_List r"] Some
    by (simp add: distinct_map_update_same)
  with Some i show ?thesis
    by (simp add: FindCondition_def SetCondition1_def Let_def case_prod_beta)
qed

lemma Equal_staged [simp]: "Equal x (c\<lparr>c_staged := b\<rparr>) = Equal x c"
  and Equal_time [simp]: "Equal (x\<lparr>c_LastTransitionTime := now\<rparr>) c = Equal x c"
  and Equal_staged' [simp]: "Equal (x\<lparr>c_staged := b\<rparr>) c = Equal x c"
  and Equal_refl [simp]: "Equal c c"
  by (simp_all add: Equal_def)

lemma FindCondition_SetCondition1_other:
  assumes wf: "wf_conditions r" and t: "t \<noteq> c_Type c"
  shows "FindCondition (SetCondition1 now c r) t = FindCondition r t"
proof (rule option_eq_by_Some)
  fix x
  have d: "distinct (map c_Type (cs_List r))" "distinct (map c_Type (cs_List (SetCondition1 now c r)))"
    using wf wf_SetCondition1 [OF wf] by (simp_all add: wf_conditions_def)
  have "x \<in> set (cs_List (SetCondition1 now c r)) \<and> c_Type x = t \<longleftrightarrow> x \<in> set (cs_List r) \<and> c_Type x = t"
  proof (cases "find_cnd (cs_List r) (c_Type c)")
    case None
    with t show ?thesis by (auto simp: SetCondition1_def Let_def)
  next
    case (Some i)
    from find_cnd_Some [OF Some] have "i < length (cs_List r)" "c_Type (cs_List r ! i) = c_Type c" by auto
    with Some t show ?thesis
      by (simp add: SetCondition1_def Let_def case_prod_beta set_update_other_type)
  qed
  then show "FindCondition (SetCondition1 now c r) t = Some x \<longleftrightarrow> FindCondition r t = Some x"
    by (auto simp: FindCondition_Some_iff d)
qed

lemma FindCondition_Begin:
  assumes wf: "wf_conditions r" and ns: "\<not> cs_staging r"
  shows "FindCondition (BeginStagingConditions r) t =
    (case FindCondition r t of None \<Rightarrow> None
     | Some c \<Rightarrow> if c_Durable c then Some (c\<lparr>c_staged := True\<rparr>) else None)"
proof -
  have "find_cnd (map (\<lambda>c. c\<lparr>c_staged := c_Durable c\<rparr>) (cs_List r)) t = find_cnd (cs_List r) t"
    by (rule find_cnd_cong) simp
  then show ?thesis using ns
    by (auto simp: FindCondition_def BeginStagingConditions_def split: option.splits dest!: find_cnd_Some)
qed

lemma FindCondition_End:
  assumes wf: "wf_conditions r" and s: "cs_staging r"
  shows "FindCondition (EndStagingConditions r) t = FindCondition r t"
proof (rule option_eq_by_Some)
  fix x
  have d: "distinct (map c_Type (cs_List r))" "distinct (map c_Type (cs_List (EndStagingConditions r)))"
    using wf wf_EndStaging [OF wf] by (simp_all add: wf_conditions_def)
  then show "FindCondition (EndStagingConditions r) t = Some x \<longleftrightarrow> FindCondition r t = Some x"
    using s by (auto simp: FindCondition_Some_iff EndStagingConditions_def end_loop_eq)
qed

lemma FindCondition_Delete:
  assumes wf: "wf_conditions r"
  shows "FindCondition (DeleteCondition ts r) t = (if t \<in> set ts then None else FindCondition r t)"
proof (rule option_eq_by_Some)
  fix x
  have "distinct (map c_Type (cs_List r))" "distinct (map c_Type (cs_List (DeleteCondition ts r)))"
    using wf wf_DeleteCondition [OF wf] by (simp_all add: wf_conditions_def)
  then show "FindCondition (DeleteCondition ts r) t = Some x \<longleftrightarrow>
      (if t \<in> set ts then None else FindCondition r t) = Some x"
    by (auto simp: FindCondition_Some_iff DeleteCondition_def delete_loop_eq split: if_splits)
qed

interpretation board: erasable_board FindCondition SetCondition1 BeginStagingConditions
  EndStagingConditions cs_staging wf_conditions DeleteCondition
proof (unfold_locales, goal_cases)
  case (1 s now c)
  then show ?case
    by (auto simp: FindCondition_SetCondition1_same Update_def Let_def Equal_def split: option.split)
next
  case (2 s t c now)
  then show ?case by (rule FindCondition_SetCondition1_other)
next
  case (4 s t)
  then show ?case by (rule FindCondition_Begin)
next
  case (6 s t)
  then show ?case by (rule FindCondition_End)
next
  case (11 s ts t)
  then show ?case by (rule FindCondition_Delete)
qed (simp_all add: wf_ops)

lemma blocker_visible:
  assumes "wf_conditions r"
  shows "HasBlockerCondition r \<longleftrightarrow>
    (\<exists>t c. FindCondition r t = Some c \<and> c_Status c = StatusTrue \<and>
       (c_Category c = Critical \<or> c_Category c = ErrorCategory))"
proof -
  have "distinct (map c_Type (cs_List r))" using assms by (simp add: wf_conditions_def)
  then show ?thesis
    by (auto simp: HasBlockerCondition_def HasConditionCategory_def FindCondition_Some_iff list_ex_iff)
qed

section \<open>Properties\<close>

text \<open>
  C21. Whatever sequence of operations runs on a fresh collection, no condition type occurs twice
  and the explain report files no type under two headings.
\<close>
theorem conditions_run_wf: "wf_conditions (fold apply_op ops empty_conditions)"
  by (rule wf_fold_apply_op) simp

text \<open>
  C14. One staging round, as \<open>Reconcile\<close> runs it: after \<open>BeginStagingConditions\<close>, any calls of
  \<open>SetCondition\<close> and \<open>EndStagingConditions\<close>, a type that was set carries the fields of the last
  value set, and every other type survives exactly if its condition was durable.
\<close>
theorem staging_round:
  assumes "wf_conditions r" and "\<not> cs_staging r"
  shows "case List.find (\<lambda>c. c_Type c = t) (rev (map snd ncs)) of
      Some c \<Rightarrow> \<exists>c'. FindCondition
          (EndStagingConditions (SetCondition ncs (BeginStagingConditions r))) t = Some c' \<and> Equal c' c
    | None \<Rightarrow> FindCondition (EndStagingConditions (SetCondition ncs (BeginStagingConditions r))) t =
        (case FindCondition r t of None \<Rightarrow> None
         | Some c \<Rightarrow> if c_Durable c then Some (c\<lparr>c_staged := True\<rparr>) else None)"
  unfolding SetCondition_fold by (rule board.stage_cycle [OF assms])

text \<open>A condition of a type, status and category, with the other fields zero.\<close>

definition mk_condition :: "string \<Rightarrow> string \<Rightarrow> string \<Rightarrow> string \<Rightarrow> string \<Rightarrow> condition" where
  "mk_condition ty st re ca me = \<lparr>c_Type = ty, c_Status = st, c_Reason = re, c_Category = ca,
     c_Message = me, c_LastTransitionTime = 0, c_Durable = False, c_Items = None, c_staged = False\<rparr>"

theorem staging_round_witness:
  fixes old new :: condition
  defines "old \<equiv> mk_condition ''InvalidRule'' StatusTrue [] Critical []"
    and "new \<equiv> mk_condition ''Validated'' StatusTrue [] Advisory []"
  shows "FindCondition (EndStagingConditions (SetCondition [(9, new)]
      (BeginStagingConditions (SetCondition1 7 old empty_conditions)))) (c_Type old) = None \<and>
    FindCondition (EndStagingConditions (SetCondition [(9, new)]
      (BeginStagingConditions (SetCondition1 7 old empty_conditions)))) (c_Type new) \<noteq> None"
proof -
  let ?r = "SetCondition1 7 old empty_conditions"
  have r: "wf_conditions ?r" "\<not> cs_staging ?r"
    by (simp_all add: wf_SetCondition1, simp add: empty_conditions_def)
  have "FindCondition ?r (c_Type old) = Some (old\<lparr>c_staged := True, c_LastTransitionTime := 7\<rparr>)"
    by (simp add: FindCondition_SetCondition1_same empty_conditions_def)
  moreover have "c_Type new \<noteq> c_Type old" "\<not> c_Durable old"
    by (simp_all add: old_def new_def mk_condition_def)
  ultimately show ?thesis
    using staging_round [OF r, where ncs = "[(9, new)]" and t = "c_Type old"]
      staging_round [OF r, where ncs = "[(9, new)]" and t = "c_Type new"]
    by auto
qed

text \<open>
  The blocker query that gates \<open>Setup\<close> and \<open>Ready\<close>: it answers true exactly when some
  condition visible to \<open>FindCondition\<close> is true and of category Critical or Error; conditions of a
  previous round that have not been staged again do not block.
\<close>
theorem blocker_iff_visible:
  assumes "wf_conditions r"
  shows "HasBlockerCondition r \<longleftrightarrow>
    (\<exists>t c. FindCondition r t = Some c \<and> c_Status c = StatusTrue \<and>
       (c_Category c = Critical \<or> c_Category c = ErrorCategory))"
  using assms by (rule blocker_visible)

theorem blocker_iff_visible_witness:
  "\<not> HasBlockerCondition (BeginStagingConditions
     (SetCondition1 7 (mk_condition ''InvalidRule'' StatusTrue [] Critical []) empty_conditions))"
proof -
  let ?r = "SetCondition1 7 (mk_condition ''InvalidRule'' StatusTrue [] Critical []) empty_conditions"
  have "wf_conditions (BeginStagingConditions ?r)" by (intro wf_ops wf_empty)
  moreover have "FindCondition (BeginStagingConditions ?r) t = None" for t
    by (simp add: FindCondition_def BeginStagingConditions_def SetCondition1_def empty_conditions_def
        mk_condition_def)
  ultimately show ?thesis using blocker_iff_visible by simp
qed

text \<open>
  Setting a condition moves its transition time only when something changes: it is the clock
  reading for a new or a different condition and the stored one when the visible fields are equal.
\<close>
theorem transition_time:
  "\<exists>c'. FindCondition (SetCondition1 now c r) (c_Type c) = Some c' \<and> c_staged c' \<and> Equal c' c \<and>
     c_LastTransitionTime c' =
       (case find_cnd (cs_List r) (c_Type c) of
          None \<Rightarrow> now
        | Some i \<Rightarrow> if Equal (cs_List r ! i) c then c_LastTransitionTime (cs_List r ! i) else now)"
  by (auto simp: FindCondition_SetCondition1_same Update_def Let_def Equal_def split: option.split)

text \<open>
  The report can contradict the collection: a condition that is deleted and set again unchanged
  within one round is kept, yet stays listed as deleted, because \<open>Update\<close> sees no change.
\<close>

lemma explain_keeps_stale_deletion:
  fixes now :: time
  defines "c \<equiv> mk_condition ''Validated'' StatusTrue [] Advisory []"
  defines "r \<equiv> EndStagingConditions (SetCondition1 now c (DeleteCondition [c_Type c]
     (BeginStagingConditions (EndStagingConditions (SetCondition1 now c empty_conditions)))))"
  shows "FindCondition r (c_Type c) \<noteq> None \<and> Deleted (cs_explain r) (c_Type c) \<noteq> None"
  by (simp add: r_def c_def mk_condition_def empty_conditions_def SetCondition1_def Let_def
      EndStagingConditions_def BeginStagingConditions_def DeleteCondition_def FindCondition_def
      Update_def Equal_def explain_deleted_def)

end
