(* ===== verification/Api_Types.thy ===== *)
theory Api_Types
  imports Settings Conditions
begin

text \<open>
  The API types (\<open>api/v1alpha1\<close>) and what the code reads of a watched object. A subject is an
  \<open>unstructured.Unstructured\<close>: a JSON object, read through the getters of the vendored
  apimachinery package, which answer the zero value when a field is missing or of another type.
  \<open>GroupVersionResource\<close> is a datatype with a linear order, so that finite maps over it have a
  canonical enumeration.
\<close>

section \<open>Labels, reasons and condition types\<close>

definition LabelOwnerUID :: string where "LabelOwnerUID = ''ifo.kubevirt.io/owner-uid''"
definition LabelOwnerName :: string where "LabelOwnerName = ''ifo.kubevirt.io/owner-name''"
definition LabelOwnerKind :: string where "LabelOwnerKind = ''ifo.kubevirt.io/owner-kind''"
definition LabelOwnerGroup :: string where "LabelOwnerGroup = ''ifo.kubevirt.io/owner-group''"
definition LabelOwnerVersion :: string where "LabelOwnerVersion = ''ifo.kubevirt.io/owner-version''"
definition LabelSubjectUID :: string where "LabelSubjectUID = ''ifo.kubevirt.io/subject-uid''"
definition LabelSubjectName :: string where "LabelSubjectName = ''ifo.kubevirt.io/subject-name''"
definition LabelSubjectNamespace :: string where
  "LabelSubjectNamespace = ''ifo.kubevirt.io/subject-namespace''"
definition LabelSubjectKind :: string where "LabelSubjectKind = ''ifo.kubevirt.io/subject-kind''"
definition LabelOperation :: string where "LabelOperation = ''ifo.kubevirt.io/operation''"
definition LabelComponent :: string where "LabelComponent = ''ifo.kubevirt.io/component''"
definition LabelRuleSet :: string where "LabelRuleSet = ''ifo.kubevirt.io/ruleset''"
definition LabelCorrelationGroup :: string where
  "LabelCorrelationGroup = ''ifo.kubevirt.io/correlation-group''"
definition LabelCorrelationRole :: string where
  "LabelCorrelationRole = ''ifo.kubevirt.io/correlation-role''"

lemmas Label_defs = LabelOwnerUID_def LabelOwnerName_def LabelOwnerKind_def LabelOwnerGroup_def
  LabelOwnerVersion_def LabelSubjectUID_def LabelSubjectName_def LabelSubjectNamespace_def
  LabelSubjectKind_def LabelOperation_def LabelComponent_def LabelRuleSet_def
  LabelCorrelationGroup_def LabelCorrelationRole_def

definition CorrelationRoleRoot :: string where "CorrelationRoleRoot = ''root''"
definition OperationRuleSetFinalizer :: string where
  "OperationRuleSetFinalizer = ''ifo.kubevirt.io/finalizer''"

definition ReasonCompleted :: string where "ReasonCompleted = ''Completed''"
definition ReasonGVRNotFound :: string where "ReasonGVRNotFound = ''GVRNotFound''"
definition ReasonInvalidExpression :: string where "ReasonInvalidExpression = ''InvalidExpression''"
definition ReasonWatchSetupFailed :: string where "ReasonWatchSetupFailed = ''WatchSetupFailed''"
definition ReasonWatchActive :: string where "ReasonWatchActive = ''WatchActive''"

definition TypeReady :: string where "TypeReady = ''Ready''"
definition TypeInvalidTarget :: string where "TypeInvalidTarget = ''InvalidTarget''"
definition TypeInvalidRule :: string where "TypeInvalidRule = ''InvalidRule''"
definition TypeWatchFailed :: string where "TypeWatchFailed = ''WatchFailed''"
definition TypeValidated :: string where "TypeValidated = ''Validated''"

lemmas Type_defs = TypeReady_def TypeInvalidTarget_def TypeInvalidRule_def TypeWatchFailed_def
  TypeValidated_def

section \<open>Group, version, resource\<close>

datatype gvr = GVR (gvr_Group: string) (gvr_Version: string) (gvr_Resource: string)

instantiation gvr :: linorder
begin

definition less_eq_gvr :: "gvr \<Rightarrow> gvr \<Rightarrow> bool" where
  "less_eq_gvr a b \<longleftrightarrow>
     gvr_Group a < gvr_Group b \<or> gvr_Group a = gvr_Group b \<and>
       (gvr_Version a < gvr_Version b \<or> gvr_Version a = gvr_Version b \<and>
         gvr_Resource a \<le> gvr_Resource b)"

definition less_gvr :: "gvr \<Rightarrow> gvr \<Rightarrow> bool" where
  "less_gvr a b \<longleftrightarrow> a \<le> b \<and> \<not> b \<le> a"

instance
  by standard (auto simp: less_eq_gvr_def less_gvr_def gvr.expand)

end

lemma enumerates_sorted: "finite (dom m) \<Longrightarrow> enumerates (sorted_list_of_set (dom m)) m"
  by (simp add: enumerates_def)

definition GVR_String :: "gvr \<Rightarrow> string" where
  "GVR_String g =
     strings_Join [gvr_Group g, ''/'', gvr_Version g, '', Resource='', gvr_Resource g] []"

definition GroupVersion_String :: "string \<Rightarrow> string \<Rightarrow> string" where
  "GroupVersion_String g v = (if 0 < length g then g @ ''/'' @ v else v)"

text \<open>\<open>schema.ParseGroupVersion\<close>, with its error as \<open>None\<close>.\<close>

definition ParseGroupVersion :: "string \<Rightarrow> (string \<times> string) option" where
  "ParseGroupVersion gv =
     (if gv = [] \<or> gv = ''/'' then Some ([], [])
      else case split_at (CHR ''/'') gv of
        [v] \<Rightarrow> Some ([], v)
      | [g, v] \<Rightarrow> Some (g, v)
      | _ \<Rightarrow> None)"

lemma ParseGroupVersion_String:
  assumes "CHR ''/'' \<notin> set g" "CHR ''/'' \<notin> set v" "v \<noteq> []"
  shows "ParseGroupVersion (GroupVersion_String g v) = Some (g, v)"
proof (cases g)
  case Nil
  with assms show ?thesis
    by (auto simp: GroupVersion_String_def ParseGroupVersion_def split_at_word)
next
  case (Cons c cs)
  with assms show ?thesis
    using split_at_append [of "CHR ''/''" g v]
    by (auto simp: GroupVersion_String_def ParseGroupVersion_def split_at_word Cons_eq_append_conv)
qed

section \<open>Subjects\<close>

datatype json =
    JNull | JBool bool | JInt int | JFloat string | JStr string | JList "json list"
  | JObj "(string \<times> json) list"

type_synonym subject = json

record owner_ref =
  or_APIVersion :: string
  or_Kind :: string
  or_Name :: string
  or_UID :: string

text \<open>
  \<open>NestedFieldNoCopy\<close>: a missing field and an accessor error both make the getters answer their
  zero value, so both are \<open>None\<close>.
\<close>

fun nested :: "json \<Rightarrow> string list \<Rightarrow> json option" where
  "nested v [] = Some v"
| "nested (JObj m) (f # fs) = (case map_of m f of None \<Rightarrow> None | Some v \<Rightarrow> nested v fs)"
| "nested v (f # fs) = None"

definition getNestedString :: "json \<Rightarrow> string list \<Rightarrow> string" where
  "getNestedString v fs = (case nested v fs of Some (JStr s) \<Rightarrow> s | _ \<Rightarrow> [])"

definition GetAPIVersion :: "subject \<Rightarrow> string" where
  "GetAPIVersion s = getNestedString s [''apiVersion'']"
definition GetKind :: "subject \<Rightarrow> string" where
  "GetKind s = getNestedString s [''kind'']"
definition GetNamespace :: "subject \<Rightarrow> string" where
  "GetNamespace s = getNestedString s [''metadata'', ''namespace'']"
definition GetName :: "subject \<Rightarrow> string" where
  "GetName s = getNestedString s [''metadata'', ''name'']"
definition GetUID :: "subject \<Rightarrow> string" where
  "GetUID s = getNestedString s [''metadata'', ''uid'']"
definition GetGeneration :: "subject \<Rightarrow> int" where
  "GetGeneration s = (case nested s [''metadata'', ''generation''] of Some (JInt n) \<Rightarrow> n | _ \<Rightarrow> 0)"

definition extractOwnerReference :: "json \<Rightarrow> owner_ref" where
  "extractOwnerReference v = \<lparr>
     or_APIVersion = getNestedString v [''apiVersion''],
     or_Kind = getNestedString v [''kind''],
     or_Name = getNestedString v [''name''],
     or_UID = getNestedString v [''uid'']\<rparr>"

definition is_obj :: "json \<Rightarrow> bool" where
  "is_obj v = (case v of JObj _ \<Rightarrow> True | _ \<Rightarrow> False)"

definition GetOwnerReferences :: "subject \<Rightarrow> owner_ref list" where
  "GetOwnerReferences s =
     (case nested s [''metadata'', ''ownerReferences''] of
        Some (JList vs) \<Rightarrow> if list_all is_obj vs then map extractOwnerReference vs else []
      | _ \<Rightarrow> [])"

lemmas getter_defs = GetAPIVersion_def GetKind_def GetNamespace_def GetName_def GetUID_def
  GetGeneration_def GetOwnerReferences_def getNestedString_def extractOwnerReference_def is_obj_def

section \<open>OperationRuleSet\<close>

record rule =
  ru_Operation :: string
  ru_Expression :: string

record label_expression =
  le_Key :: string
  le_Expression :: string

record ors_spec =
  os_Component :: string
  os_Target :: gvr
  os_Rules :: "rule list"
  os_Namespaces :: "string list"
  os_Labels :: labels
  os_LabelExpressions :: "label_expression list"

record ors_status =
  ost_Conditions :: conditions
  ost_WatchActive :: bool
  ost_LastEvaluationTime :: "time option"
  ost_ObservedGeneration :: int

record ors =
  ors_Name :: string
  ors_Finalizers :: "string list"
  ors_DeletionTimestamp :: "time option"
  ors_Spec :: ors_spec
  ors_Status :: ors_status

definition Rules :: "ors \<Rightarrow> rule list" where
  "Rules r = os_Rules (ors_Spec r)"

definition ors_GVR :: "ors \<Rightarrow> gvr" where
  "ors_GVR r = GVR (gvr_Group (os_Target (ors_Spec r))) (gvr_Version (os_Target (ors_Spec r)))
     (gvr_Resource (os_Target (ors_Spec r)))"

lemma ors_GVR_eq: "ors_GVR r = os_Target (ors_Spec r)"
  by (simp add: ors_GVR_def)

definition AppliesTo :: "ors \<Rightarrow> subject \<Rightarrow> bool" where
  "AppliesTo r subj \<longleftrightarrow>
     (if length (os_Namespaces (ors_Spec r)) = 0 then True
      else GetNamespace subj \<in> set (os_Namespaces (ors_Spec r)))"

definition Key :: "ors \<Rightarrow> string" where
  "Key r = GVR_String (ors_GVR r)"

text \<open>A rule set with the given name, target and rules, for the examples.\<close>

definition example_ors :: "string \<Rightarrow> gvr \<Rightarrow> rule list \<Rightarrow> ors" where
  "example_ors nm g rus = \<lparr>ors_Name = nm, ors_Finalizers = [], ors_DeletionTimestamp = None,
     ors_Spec = \<lparr>os_Component = ''kubevirt'', os_Target = g, os_Rules = rus, os_Namespaces = [],
       os_Labels = Map.empty, os_LabelExpressions = []\<rparr>,
     ors_Status = \<lparr>ost_Conditions = empty_conditions, ost_WatchActive = False,
       ost_LastEvaluationTime = None, ost_ObservedGeneration = 0\<rparr>\<rparr>"

section \<open>InFlightOperation\<close>

definition OperationPhaseActive :: string where "OperationPhaseActive = ''Active''"
definition OperationPhaseCompleted :: string where "OperationPhaseCompleted = ''Completed''"

record subject_reference =
  sr_APIVersion :: string
  sr_Kind :: string
  sr_Name :: string
  sr_Namespace :: string
  sr_UID :: string
  sr_OwnerReferences :: "owner_ref list"

record ifo_spec =
  is_Operation :: string
  is_RuleSet :: string
  is_Component :: string
  is_Subject :: subject_reference

record ifo_status =
  st_Phase :: string
  st_Completed :: "time option"
  st_LastDetected :: "time option"
  st_DetectedBy :: "string list"
  st_SubjectGeneration :: int
  st_Conditions :: conditions

record ifo =
  ifo_Name :: string
  ifo_GenerateName :: string
  ifo_Labels :: labels
  ifo_CreationTimestamp :: time
  ifo_Spec :: ifo_spec
  ifo_Status :: ifo_status

definition empty_status :: ifo_status where
  "empty_status = \<lparr>st_Phase = [], st_Completed = None, st_LastDetected = None, st_DetectedBy = [],
     st_SubjectGeneration = 0, st_Conditions = empty_conditions\<rparr>"

definition MarkCompleted :: "time \<Rightarrow> subject \<Rightarrow> ifo \<Rightarrow> ifo" where
  "MarkCompleted now subj r = r\<lparr>ifo_Status := (ifo_Status r)\<lparr>
     st_Phase := OperationPhaseCompleted,
     st_Completed := Some now,
     st_SubjectGeneration := GetGeneration subj\<rparr>\<rparr>"

definition MarkDetection :: "time \<Rightarrow> subject \<Rightarrow> string list \<Rightarrow> ifo \<Rightarrow> ifo" where
  "MarkDetection now subj detectedBy r = r\<lparr>ifo_Status := (ifo_Status r)\<lparr>
     st_Phase := OperationPhaseActive,
     st_LastDetected := Some now,
     st_SubjectGeneration := GetGeneration subj,
     st_DetectedBy := detectedBy,
     st_Completed := None\<rparr>\<rparr>"

text \<open>\<open>metav1.Time.IsZero\<close> is true of nil and of the zero time.\<close>

definition IsZero :: "time option \<Rightarrow> bool" where
  "IsZero t = (case t of None \<Rightarrow> True | Some u \<Rightarrow> u = 0)"

definition Complete :: "ifo \<Rightarrow> bool" where
  "Complete r \<longleftrightarrow> \<not> IsZero (st_Completed (ifo_Status r))"

definition PastDebounceThreshold :: "duration \<Rightarrow> time \<Rightarrow> ifo \<Rightarrow> bool" where
  "PastDebounceThreshold threshold now r \<longleftrightarrow>
     Complete r \<and> \<not> (the (st_Completed (ifo_Status r)) + sint threshold > now)"

lemmas mark_defs = MarkCompleted_def MarkDetection_def

lemma Mark_frame [simp]:
  "ifo_Name (MarkCompleted now s r) = ifo_Name r" "ifo_Labels (MarkCompleted now s r) = ifo_Labels r"
  "ifo_Spec (MarkCompleted now s r) = ifo_Spec r"
  "ifo_CreationTimestamp (MarkCompleted now s r) = ifo_CreationTimestamp r"
  "ifo_Name (MarkDetection now s d r) = ifo_Name r" "ifo_Labels (MarkDetection now s d r) = ifo_Labels r"
  "ifo_Spec (MarkDetection now s d r) = ifo_Spec r"
  "ifo_CreationTimestamp (MarkDetection now s d r) = ifo_CreationTimestamp r"
  by (simp_all add: mark_defs)

lemma Complete_MarkCompleted: "now \<noteq> 0 \<Longrightarrow> Complete (MarkCompleted now s r)"
  by (simp add: Complete_def IsZero_def mark_defs)

lemma not_Complete_MarkDetection [simp]: "\<not> Complete (MarkDetection now s d r)"
  by (simp add: Complete_def IsZero_def mark_defs)

lemma PastDebounce_MarkCompleted:
  "t \<noteq> 0 \<Longrightarrow> PastDebounceThreshold d now (MarkCompleted t s r) \<longleftrightarrow> t + sint d \<le> now"
  by (auto simp: PastDebounceThreshold_def Complete_def IsZero_def mark_defs)

lemma PastDebounce_mono:
  "PastDebounceThreshold d now r \<Longrightarrow> now \<le> now' \<Longrightarrow> PastDebounceThreshold d now' r"
  by (auto simp: PastDebounceThreshold_def)

end
