(* ===== verification/Rule_Cache.thy ===== *)
theory Rule_Cache
  imports Api_Types
begin

text \<open>
  The cache of rule sets by target (\<open>internal/watch/rule_cache.go\<close>). Each operation runs under
  the cache's lock, so it is one atomic step, a function on the state. A slice is removed from by
  moving its last element into the hole; the order of a list is therefore not kept, and the
  contract \<open>rule_store\<close> speaks of multisets. \<open>List\<close> copies, so no caller shares the slices.
\<close>

section \<open>The cache\<close>

record rule_cache =
  rc_cache :: "gvr \<rightharpoonup> ors list"
  rc_ActiveRulesets :: int

definition NewRuleCache :: rule_cache where
  "NewRuleCache = \<lparr>rc_cache = Map.empty, rc_ActiveRulesets = 0\<rparr>"

text \<open>Reading a missing key of the map gives the nil slice.\<close>

definition cached :: "rule_cache \<Rightarrow> gvr \<Rightarrow> ors list" where
  "cached c g = (case rc_cache c g of None \<Rightarrow> [] | Some rs \<Rightarrow> rs)"

definition addRule :: "ors \<Rightarrow> rule_cache \<Rightarrow> rule_cache" where
  "addRule r c = c\<lparr>
     rc_cache := (rc_cache c)(ors_GVR r \<mapsto> cached c (ors_GVR r) @ [r]),
     rc_ActiveRulesets := rc_ActiveRulesets c + 1\<rparr>"

fun find_rule :: "string \<Rightarrow> ors list \<Rightarrow> nat option" where
  "find_rule nm [] = None"
| "find_rule nm (r # rs) = (if ors_Name r = nm then Some 0 else map_option Suc (find_rule nm rs))"

text \<open>\<open>rulesets[i] = rulesets[len-1]; rulesets = rulesets[:len-1]\<close>\<close>

definition swap_out :: "nat \<Rightarrow> 'a list \<Rightarrow> 'a list" where
  "swap_out i xs = take (length xs - 1) (xs[i := xs ! (length xs - 1)])"

definition removeRule :: "ors \<Rightarrow> rule_cache \<Rightarrow> rule_cache" where
  "removeRule r c =
     (let key = ors_GVR r; rulesets = cached c key in
      case find_rule (ors_Name r) rulesets of
        None \<Rightarrow> c
      | Some i \<Rightarrow>
          (let rulesets = swap_out i rulesets in
           c\<lparr>rc_cache := (if length rulesets = 0 then (rc_cache c)(key := None)
                else (rc_cache c)(key \<mapsto> rulesets)),
             rc_ActiveRulesets := rc_ActiveRulesets c - 1\<rparr>))"

definition AddOrUpdateRule :: "ors \<Rightarrow> rule_cache \<Rightarrow> rule_cache" where
  "AddOrUpdateRule r c = addRule r (removeRule r c)"

definition AddRule :: "ors \<Rightarrow> rule_cache \<Rightarrow> rule_cache" where
  "AddRule r c = addRule r c"

definition RemoveRule :: "ors \<Rightarrow> rule_cache \<Rightarrow> rule_cache" where
  "RemoveRule r c = removeRule r c"

definition List_rules :: "rule_cache \<Rightarrow> gvr \<Rightarrow> ors list" where
  "List_rules c g = cached c g"

text \<open>\<open>GVRs\<close> ranges over the map in the order \<open>ks\<close>.\<close>

definition GVRs :: "gvr list \<Rightarrow> rule_cache \<Rightarrow> gvr list" where
  "GVRs ks c = filter (\<lambda>g. 0 < length (cached c g)) ks"

section \<open>Well-formed caches\<close>

definition wf_rules :: "rule_cache \<Rightarrow> bool" where
  "wf_rules c \<longleftrightarrow> finite (dom (rc_cache c)) \<and>
     (\<forall>g rs. rc_cache c g = Some rs \<longrightarrow>
        rs \<noteq> [] \<and> distinct (map ors_Name rs) \<and> (\<forall>r \<in> set rs. ors_GVR r = g)) \<and>
     rc_ActiveRulesets c = (\<Sum>g \<in> dom (rc_cache c). int (length (cached c g)))"

lemma find_rule_None: "find_rule nm rs = None \<longleftrightarrow> nm \<notin> ors_Name ` set rs"
  by (induction rs) auto

lemma find_rule_Some: "find_rule nm rs = Some i \<Longrightarrow> i < length rs \<and> ors_Name (rs ! i) = nm"
  by (induction rs arbitrary: i) (auto split: if_splits)

lemma mset_swap_out: "i < length xs \<Longrightarrow> mset (swap_out i xs) = mset xs - {#xs ! i#}"
proof -
  assume i: "i < length xs"
  then obtain ys y where xs: "xs = ys @ [y]" by (cases xs rule: rev_cases) auto
  show ?thesis
  proof (cases "i = length ys")
    case True
    then show ?thesis by (simp add: swap_out_def xs)
  next
    case False
    with i xs have "i < length ys" by simp
    then show ?thesis
      by (simp add: swap_out_def xs list_update_append mset_update nth_append)
  qed
qed

lemma length_swap_out [simp]: "length (swap_out i xs) = length xs - 1"
  by (simp add: swap_out_def)

lemma mset_remove_named:
  assumes "distinct (map ors_Name rs)" and "i < length rs"
  shows "mset (swap_out i rs) = filter_mset (\<lambda>x. ors_Name x \<noteq> ors_Name (rs ! i)) (mset rs)"
proof -
  from assms(2) have "rs ! i \<in> set rs" by simp
  have "filter (\<lambda>x. ors_Name x = ors_Name (rs ! i)) rs = [rs ! i]"
    using assms
  proof (induction rs arbitrary: i)
    case Nil
    then show ?case by simp
  next
    case (Cons r rs)
    show ?case
    proof (cases i)
      case 0
      with Cons.prems show ?thesis by (auto simp: filter_empty_conv) (metis imageI)
    next
      case (Suc j)
      with Cons show ?thesis by (auto simp: image_iff)
    qed
  qed
  then have "filter_mset (\<lambda>x. ors_Name x = ors_Name (rs ! i)) (mset rs) = {#rs ! i#}"
    by (metis mset_filter mset_single_iff_right)
  moreover have "mset rs = filter_mset (\<lambda>x. ors_Name x = ors_Name (rs ! i)) (mset rs) +
      filter_mset (\<lambda>x. ors_Name x \<noteq> ors_Name (rs ! i)) (mset rs)"
    by (rule multiset_partition)
  ultimately have "mset rs - {#rs ! i#} = filter_mset (\<lambda>x. ors_Name x \<noteq> ors_Name (rs ! i)) (mset rs)"
    by (metis add_mset_add_single add_mset_remove_trivial union_commute)
  then show ?thesis
    using assms(2) by (simp add: mset_swap_out)
qed

lemma cached_NewRuleCache [simp]: "cached NewRuleCache g = []"
  by (simp add: NewRuleCache_def cached_def)

lemma wf_NewRuleCache [simp]: "wf_rules NewRuleCache"
  by (simp add: wf_rules_def NewRuleCache_def)

lemma wf_cached:
  assumes "wf_rules c"
  shows "distinct (map ors_Name (cached c g))" and "r \<in> set (cached c g) \<Longrightarrow> ors_GVR r = g"
    and "cached c g = [] \<longleftrightarrow> rc_cache c g = None"
proof -
  have "distinct (map ors_Name rs) \<and> (\<forall>r \<in> set rs. ors_GVR r = g) \<and> rs \<noteq> []"
    if "rc_cache c g = Some rs" for rs
    using that assms by (simp add: wf_rules_def)
  then show "distinct (map ors_Name (cached c g))" and "r \<in> set (cached c g) \<Longrightarrow> ors_GVR r = g"
    and "cached c g = [] \<longleftrightarrow> rc_cache c g = None"
    by (cases "rc_cache c g"; auto simp: cached_def)+
qed

lemma cached_addRule:
  "cached (addRule r c) g = (if g = ors_GVR r then cached c g @ [r] else cached c g)"
  by (simp add: addRule_def cached_def)

lemma mset_cached_removeRule:
  assumes "wf_rules c"
  shows "mset (cached (removeRule r c) g) =
    (if g = ors_GVR r then filter_mset (\<lambda>x. ors_Name x \<noteq> ors_Name r) (mset (cached c g))
     else mset (cached c g))"
proof (cases "find_rule (ors_Name r) (cached c (ors_GVR r))")
  case None
  then have "ors_Name r \<notin> ors_Name ` set (cached c (ors_GVR r))"
    by (simp only: find_rule_None not_False_eq_True)
  then have "filter_mset (\<lambda>x. ors_Name x \<noteq> ors_Name r) (mset (cached c (ors_GVR r))) = mset (cached c (ors_GVR r))"
    by (auto simp: filter_mset_eq_conv) (metis imageI)
  with None show ?thesis by (simp add: removeRule_def Let_def)
next
  case (Some i)
  from find_rule_Some [OF Some] have i: "i < length (cached c (ors_GVR r))"
    "ors_Name (cached c (ors_GVR r) ! i) = ors_Name r" by auto
  have "cached (removeRule r c) g = (if g = ors_GVR r then swap_out i (cached c g) else cached c g)"
    using Some by (auto simp: removeRule_def Let_def cached_def split: option.splits)
  then show ?thesis
    using mset_remove_named [OF wf_cached(1) [OF assms] i(1)] i(2) by simp
qed

lemma sum_change_one:
  fixes f f' :: "'a \<Rightarrow> int"
  assumes "finite A" "finite B" "\<And>x. x \<noteq> a \<Longrightarrow> f' x = f x" "A - {a} = B - {a}"
    "a \<notin> A \<Longrightarrow> f a = 0" "a \<notin> B \<Longrightarrow> f' a = 0"
  shows "sum f' B = sum f A + (f' a - f a)"
proof -
  have "sum f A = sum f (A - {a}) + f a"
    if "finite A" "a \<notin> A \<Longrightarrow> f a = 0" for f :: "'a \<Rightarrow> int" and A
    using that by (cases "a \<in> A") (simp_all add: sum.remove [of A a f])
  from this [of A f] this [of B f'] assms show ?thesis
    by (simp add: sum.cong [of "B - {a}" "B - {a}" f' f])
qed

lemma wf_removeRule:
  assumes wf: "wf_rules c"
  shows "wf_rules (removeRule r c)"
proof (cases "find_rule (ors_Name r) (cached c (ors_GVR r))")
  case None
  with wf show ?thesis by (simp add: removeRule_def Let_def)
next
  case (Some i)
  let ?g = "ors_GVR r" and ?c' = "removeRule r c"
  let ?rs = "swap_out i (cached c ?g)"
  from find_rule_Some [OF Some] have i: "i < length (cached c ?g)"
    "ors_Name (cached c ?g ! i) = ors_Name r" by auto
  have c': "?c' = c\<lparr>rc_cache := (if length ?rs = 0 then (rc_cache c)(?g := None) else (rc_cache c)(?g \<mapsto> ?rs)),
      rc_ActiveRulesets := rc_ActiveRulesets c - 1\<rparr>"
    using Some by (simp add: removeRule_def Let_def del: length_swap_out length_0_conv)
  have ms: "mset ?rs = mset (filter (\<lambda>x. ors_Name x \<noteq> ors_Name r) (cached c ?g))"
    using mset_remove_named [OF wf_cached(1) [OF wf] i(1)] i(2) by simp
  then have "mset (map ors_Name ?rs) = mset (map ors_Name (filter (\<lambda>x. ors_Name x \<noteq> ors_Name r) (cached c ?g)))"
    by (simp only: mset_map)
  then have dist: "distinct (map ors_Name ?rs)"
    using wf_cached(1) [OF wf, of ?g] mset_eq_imp_distinct_iff distinct_map_filter by blast
  have "set ?rs \<subseteq> set (cached c ?g)"
    using mset_eq_setD [OF ms] by simp
  then have tgt: "\<forall>x \<in> set ?rs. ors_GVR x = ?g"
    using wf_cached(2) [OF wf] by blast
  have fin: "finite (dom (rc_cache c))" using wf by (simp add: wf_rules_def)
  have in_dom: "?g \<in> dom (rc_cache c)" using i(1) by (auto simp: cached_def split: option.splits)
  have "(\<Sum>g \<in> dom (rc_cache ?c'). int (length (cached ?c' g))) =
      (\<Sum>g \<in> dom (rc_cache c). int (length (cached c g))) + (int (length (cached ?c' ?g)) - int (length (cached c ?g)))"
    by (rule sum_change_one) (use fin c' in \<open>auto simp: cached_def split: option.splits if_splits\<close>)
  moreover have one: "cached ?c' ?g = ?rs"
    by (cases "?rs = []") (simp_all add: c' cached_def [of "_\<lparr>rc_ActiveRulesets := _\<rparr>"] del: length_swap_out)
  moreover have "rc_ActiveRulesets ?c' = rc_ActiveRulesets c - 1" by (simp add: c')
  moreover have "int (length ?rs) = int (length (cached c ?g)) - 1" using i(1) by auto
  moreover have "rc_ActiveRulesets c = (\<Sum>g \<in> dom (rc_cache c). int (length (cached c g)))"
    using wf by (simp add: wf_rules_def)
  ultimately have sum: "rc_ActiveRulesets ?c' = (\<Sum>g \<in> dom (rc_cache ?c'). int (length (cached ?c' g)))"
    by presburger
  have "rs \<noteq> [] \<and> distinct (map ors_Name rs) \<and> (\<forall>x \<in> set rs. ors_GVR x = g)"
    if "rc_cache ?c' g = Some rs" for g rs
  proof (cases "g = ?g")
    case True
    have "rs = ?rs" using that True one by (simp add: cached_def)
    moreover have "?rs \<noteq> []" using that True by (auto simp: c' simp del: length_swap_out split: if_splits)
    ultimately show ?thesis using dist tgt True by simp
  next
    case False
    with that wf show ?thesis by (auto simp: c' wf_rules_def split: if_splits)
  qed
  moreover have "finite (dom (rc_cache ?c'))" using fin by (simp add: c')
  ultimately show ?thesis using sum by (simp add: wf_rules_def)
qed

lemma wf_addRule:
  assumes wf: "wf_rules c" and new: "ors_Name r \<notin> ors_Name ` set (cached c (ors_GVR r))"
  shows "wf_rules (addRule r c)"
proof -
  let ?g = "ors_GVR r" and ?c' = "addRule r c"
  have fin: "finite (dom (rc_cache c))" using wf by (simp add: wf_rules_def)
  have active: "rc_ActiveRulesets ?c' = rc_ActiveRulesets c + 1" by (simp add: addRule_def)
  have "(\<Sum>g \<in> dom (rc_cache ?c'). int (length (cached ?c' g))) =
      (\<Sum>g \<in> dom (rc_cache c). int (length (cached c g))) + (int (length (cached ?c' ?g)) - int (length (cached c ?g)))"
    by (rule sum_change_one) (use fin in \<open>auto simp: cached_addRule addRule_def, auto simp: cached_def split: option.splits\<close>)
  then have sum: "(\<Sum>g \<in> dom (rc_cache ?c'). int (length (cached ?c' g))) = rc_ActiveRulesets ?c'"
    using wf by (simp add: cached_addRule wf_rules_def active)
  have "rs \<noteq> [] \<and> distinct (map ors_Name rs) \<and> (\<forall>x \<in> set rs. ors_GVR x = g)"
    if "rc_cache ?c' g = Some rs" for g rs
  proof (cases "g = ?g")
    case True
    with that have "rs = cached c ?g @ [r]" by (simp add: addRule_def)
    then show ?thesis using new wf_cached(1,2) [OF wf] True by auto
  next
    case False
    with that wf show ?thesis by (auto simp: addRule_def wf_rules_def)
  qed
  moreover have "finite (dom (rc_cache ?c'))" using fin by (simp add: addRule_def)
  ultimately show ?thesis using sum by (simp add: wf_rules_def)
qed

lemma removeRule_name_gone:
  assumes "wf_rules c"
  shows "ors_Name r \<notin> ors_Name ` set (cached (removeRule r c) (ors_GVR r))"
proof -
  have "mset (cached (removeRule r c) (ors_GVR r)) =
      mset (filter (\<lambda>x. ors_Name x \<noteq> ors_Name r) (cached c (ors_GVR r)))"
    using mset_cached_removeRule [OF assms, of r "ors_GVR r"] by (simp only: if_True mset_filter refl)
  from mset_eq_setD [OF this]
  have "\<forall>x \<in> set (cached (removeRule r c) (ors_GVR r)). ors_Name x \<noteq> ors_Name r"
    by (simp only: set_filter mem_Collect_eq) blast
  then show ?thesis by (metis imageE)
qed

lemma wf_AddOrUpdateRule: "wf_rules c \<Longrightarrow> wf_rules (AddOrUpdateRule r c)"
  unfolding AddOrUpdateRule_def by (intro wf_addRule wf_removeRule removeRule_name_gone)

lemma wf_RemoveRule: "wf_rules c \<Longrightarrow> wf_rules (RemoveRule r c)"
  by (simp add: RemoveRule_def wf_removeRule)

section \<open>The contract of a rule store\<close>

datatype store_op = Upsert ors | Drop ors

fun op_ors :: "store_op \<Rightarrow> ors" where
  "op_ors (Upsert r) = r"
| "op_ors (Drop r) = r"

fun apply_store_op :: "store_op \<Rightarrow> rule_cache \<Rightarrow> rule_cache" where
  "apply_store_op (Upsert r) c = AddOrUpdateRule r c"
| "apply_store_op (Drop r) c = RemoveRule r c"

definition run_store :: "store_op list \<Rightarrow> rule_cache" where
  "run_store ops = foldl (\<lambda>c op. apply_store_op op c) NewRuleCache ops"

text \<open>
  What a history says of a target and a name: the rule set of the last operation that
  mentioned both, if that operation stored it.
\<close>

definition touches :: "gvr \<Rightarrow> string \<Rightarrow> store_op \<Rightarrow> bool" where
  "touches g nm op \<longleftrightarrow> ors_GVR (op_ors op) = g \<and> ors_Name (op_ors op) = nm"

definition settled :: "store_op list \<Rightarrow> gvr \<Rightarrow> string \<Rightarrow> ors option" where
  "settled ops g nm =
     (case rev (filter (touches g nm) ops) of Upsert r # _ \<Rightarrow> Some r | _ \<Rightarrow> None)"

lemma settled_snoc:
  "settled (ops @ [op]) g nm =
     (if touches g nm op then (case op of Upsert r \<Rightarrow> Some r | Drop r \<Rightarrow> None) else settled ops g nm)"
  by (simp add: settled_def split: store_op.splits)

locale rule_store =
  fixes empty :: 'c
    and upsert :: "ors \<Rightarrow> 'c \<Rightarrow> 'c"
    and drop_rule :: "ors \<Rightarrow> 'c \<Rightarrow> 'c"
    and rules_for :: "'c \<Rightarrow> gvr \<Rightarrow> ors list"
    and ok :: "'c \<Rightarrow> bool"
  assumes ok_empty: "ok empty"
    and empty_rules: "rules_for empty g = []"
    and ok_upsert: "ok c \<Longrightarrow> ok (upsert r c)"
    and ok_drop: "ok c \<Longrightarrow> ok (drop_rule r c)"
    and named: "ok c \<Longrightarrow> distinct (map ors_Name (rules_for c g))"
    and set_upsert: "ok c \<Longrightarrow> set (rules_for (upsert r c) g) =
      (if g = ors_GVR r then insert r {x \<in> set (rules_for c g). ors_Name x \<noteq> ors_Name r}
       else set (rules_for c g))"
    and set_drop: "ok c \<Longrightarrow> set (rules_for (drop_rule r c) g) =
      (if g = ors_GVR r then {x \<in> set (rules_for c g). ors_Name x \<noteq> ors_Name r}
       else set (rules_for c g))"
begin

definition run :: "store_op list \<Rightarrow> 'c" where
  "run ops = foldl (\<lambda>c op. case op of Upsert r \<Rightarrow> upsert r c | Drop r \<Rightarrow> drop_rule r c) empty ops"

lemma run_snoc: "run (ops @ [op]) = (case op of Upsert r \<Rightarrow> upsert r (run ops) | Drop r \<Rightarrow> drop_rule r (run ops))"
  unfolding run_def by (simp split: store_op.split)

lemma ok_run: "ok (run ops)"
proof (induction ops rule: rev_induct)
  case Nil
  then show ?case by (simp add: run_def ok_empty)
next
  case (snoc op ops)
  then show ?case by (cases op) (simp_all add: run_snoc ok_upsert ok_drop)
qed

lemma history: "r \<in> set (rules_for (run ops) g) \<longleftrightarrow> settled ops g (ors_Name r) = Some r"
proof (induction ops rule: rev_induct)
  case Nil
  then show ?case by (simp add: run_def empty_rules settled_def)
next
  case (snoc op ops)
  note upd = set_upsert [OF ok_run] set_drop [OF ok_run]
  show ?case
    by (cases op) (use snoc in \<open>auto simp: run_snoc upd settled_snoc touches_def\<close>)
qed

end

lemma set_cached_removeRule:
  assumes "wf_rules c"
  shows "set (cached (removeRule r c) g) =
    (if g = ors_GVR r then {x \<in> set (cached c g). ors_Name x \<noteq> ors_Name r} else set (cached c g))"
proof -
  have "mset (cached (removeRule r c) g) =
      mset (if g = ors_GVR r then filter (\<lambda>x. ors_Name x \<noteq> ors_Name r) (cached c g) else cached c g)"
    using mset_cached_removeRule [OF assms, of r g] by (simp only: mset_filter split: if_split) blast
  from mset_eq_setD [OF this] show ?thesis by (cases "g = ors_GVR r") (simp_all only: if_True if_False refl set_filter)
qed

interpretation ruleCache: rule_store NewRuleCache AddOrUpdateRule RemoveRule List_rules wf_rules
proof
  show "set (List_rules (AddOrUpdateRule r c) g) =
      (if g = ors_GVR r then insert r {x \<in> set (List_rules c g). ors_Name x \<noteq> ors_Name r}
       else set (List_rules c g))" if "wf_rules c" for c r g
    using set_cached_removeRule [OF that, of r g]
    by (cases "g = ors_GVR r") (simp_all add: AddOrUpdateRule_def cached_addRule List_rules_def)
qed (simp_all add: wf_AddOrUpdateRule wf_removeRule List_rules_def wf_cached RemoveRule_def
       set_cached_removeRule del: set_filter)

lemma run_store_run: "run_store ops = ruleCache.run ops"
proof (induction ops rule: rev_induct)
  case Nil
  then show ?case by (simp add: run_store_def ruleCache.run_def)
next
  case (snoc op ops)
  have "run_store (ops @ [op]) = apply_store_op op (run_store ops)" by (simp add: run_store_def)
  with snoc show ?case by (simp add: ruleCache.run_snoc split: store_op.split)
qed


section \<open>Targets\<close>

text \<open>
  \<open>GVRs\<close> answers exactly the targets that have a rule set, each once, whatever the order
  in which the map is visited.
\<close>

theorem GVRs_exact:
  assumes "enumerates ks (rc_cache (run_store ops))"
  shows "distinct (GVRs ks (run_store ops)) \<and>
    (g \<in> set (GVRs ks (run_store ops)) \<longleftrightarrow> (\<exists>nm r. settled ops g nm = Some r))"
proof -
  let ?c = "run_store ops"
  have wf: "wf_rules ?c" by (simp add: run_store_run ruleCache.ok_run)
  have "g \<in> set (GVRs ks ?c) \<longleftrightarrow> cached ?c g \<noteq> []"
    using assms by (auto simp: GVRs_def enumerates_def cached_def split: option.splits)
  also have "\<dots> \<longleftrightarrow> (\<exists>r. r \<in> set (List_rules ?c g))"
    unfolding List_rules_def by (cases "cached ?c g") auto
  also have "\<dots> \<longleftrightarrow> (\<exists>nm r. settled ops g nm = Some r)"
  proof -
    have "ors_Name r = nm" if "settled ops g nm = Some r" for nm r
      using that by (auto simp: settled_def filter_eq_Cons_iff touches_def rev_filter split: list.splits store_op.splits)
    then show ?thesis by (metis run_store_run ruleCache.history)
  qed
  finally show ?thesis using assms by (simp add: GVRs_def enumerates_def)
qed

lemma dom_one_rule: "rc_cache (run_store [Upsert r]) = [ors_GVR r \<mapsto> [r]]"
  by (simp add: run_store_def NewRuleCache_def AddOrUpdateRule_def removeRule_def cached_def addRule_def)

theorem GVRs_exact_witness:
  "GVR ''kubevirt.io'' ''v1'' ''vms'' \<in>
     set (GVRs [GVR ''kubevirt.io'' ''v1'' ''vms''] (run_store [Upsert (example_ors ''vm'' (GVR ''kubevirt.io'' ''v1'' ''vms'') [])]))"
proof -
  let ?r = "example_ors ''vm'' (GVR ''kubevirt.io'' ''v1'' ''vms'') []"
  have g: "ors_GVR ?r = GVR ''kubevirt.io'' ''v1'' ''vms''" by (simp add: ors_GVR_eq example_ors_def)
  then have "enumerates [GVR ''kubevirt.io'' ''v1'' ''vms''] (rc_cache (run_store [Upsert ?r]))"
    by (simp add: dom_one_rule enumerates_def)
  moreover have "settled [Upsert ?r] (GVR ''kubevirt.io'' ''v1'' ''vms'') (ors_Name ?r) = Some ?r"
    by (simp add: settled_def touches_def g)
  ultimately show ?thesis using GVRs_exact by blast
qed

text \<open>
  A rule set whose target is changed and which is then deleted stays in the cache under its
  first target: \<open>removeRule\<close> looks under the target of the object it is given only.
\<close>

theorem retarget_leaves_stale:
  assumes "ors_Name r' = ors_Name r" and "ors_GVR r' \<noteq> ors_GVR r"
  shows "r \<in> set (List_rules (run_store (ops @ [Upsert r, Upsert r', Drop r'])) (ors_GVR r))"
proof -
  have "settled (((ops @ [Upsert r]) @ [Upsert r']) @ [Drop r']) (ors_GVR r) (ors_Name r) = Some r"
    using assms by (simp only: settled_snoc touches_def) simp
  then show ?thesis by (simp add: run_store_run ruleCache.history)
qed

theorem retarget_leaves_stale_witness:
  "example_ors ''vm'' (GVR [] ''v1'' ''pods'') [] \<in> set (List_rules (run_store ([] @
     [Upsert (example_ors ''vm'' (GVR [] ''v1'' ''pods'') []), Upsert (example_ors ''vm'' (GVR [] ''v1'' ''jobs'') []),
      Drop (example_ors ''vm'' (GVR [] ''v1'' ''jobs'') [])]))
     (ors_GVR (example_ors ''vm'' (GVR [] ''v1'' ''pods'') [])))"
  by (rule retarget_leaves_stale) (simp_all add: ors_GVR_eq example_ors_def)

end
