(* ===== verification/Watch_Cache.thy ===== *)
theory Watch_Cache
  imports Api_Types
begin

text \<open>
  The running watches (\<open>internal/watch/watch_cache.go\<close>) and their registration
  (\<open>makeInformer\<close>, \<open>addHandlers\<close>, \<open>Register\<close> of \<open>internal/watch/watcher.go\<close>), over the part of
  the vendored client-go they rely on: the informer factory, which keeps one informer per GVR for
  ever, and the life of a shared informer, which runs at most once. Channels and informers are
  objects with identity, so both live in an explicit store. \<open>close\<close> on a closed or nil channel
  panics; an operation that may panic returns an option, \<open>None\<close> being the panic. A goroutine
  started by \<open>go informer.Run(stopCh)\<close> waits in \<open>rt_spawned\<close> until the scheduler begins it.
\<close>

section \<open>Channels, informers and the factory\<close>

datatype inf_phase = Idle | Running nat | Stopped

record informer =
  inf_gvr :: gvr
  inf_phase :: inf_phase
  inf_handlers :: nat

record runtime =
  rt_closed :: "bool list"
  rt_informers :: "informer list"
  rt_factory :: "gvr \<rightharpoonup> nat"
  rt_shuttingDown :: bool
  rt_spawned :: "(nat \<times> nat) list"

record Watch =
  w_gvr :: gvr
  w_informer :: nat
  w_stopCh :: "nat option"
  w_running :: bool

record watch_cache =
  wc_watches :: "gvr \<rightharpoonup> Watch"
  wc_ActiveWatches :: int
  wc_rt :: runtime

definition NewWatchCache :: watch_cache where
  "NewWatchCache = \<lparr>wc_watches = Map.empty, wc_ActiveWatches = 0,
     wc_rt = \<lparr>rt_closed = [], rt_informers = [], rt_factory = Map.empty, rt_shuttingDown = False,
       rt_spawned = []\<rparr>\<rparr>"

definition close_chan :: "nat option \<Rightarrow> runtime \<Rightarrow> runtime option" where
  "close_chan ch rt =
     (case ch of None \<Rightarrow> None
      | Some n \<Rightarrow> if rt_closed rt ! n then None else Some (rt\<lparr>rt_closed := (rt_closed rt)[n := True]\<rparr>))"

section \<open>One watch\<close>

definition NewWatch :: "gvr \<Rightarrow> nat \<Rightarrow> Watch" where
  "NewWatch g infm = \<lparr>w_gvr = g, w_informer = infm, w_stopCh = None, w_running = False\<rparr>"

definition Watch_Start :: "Watch \<Rightarrow> runtime \<Rightarrow> Watch \<times> runtime" where
  "Watch_Start w rt =
     (let ch = length (rt_closed rt) in
      (w\<lparr>w_stopCh := Some ch, w_running := True\<rparr>,
       rt\<lparr>rt_closed := rt_closed rt @ [False],
          rt_spawned := rt_spawned rt @ [(w_informer w, ch)]\<rparr>))"

definition Watch_Stop :: "Watch \<Rightarrow> runtime \<Rightarrow> (Watch \<times> runtime) option" where
  "Watch_Stop w rt =
     (if \<not> w_running w then Some (w, rt)
      else case close_chan (w_stopCh w) rt of
        None \<Rightarrow> None
      | Some rt \<Rightarrow> Some (w\<lparr>w_running := False\<rparr>, rt))"

text \<open>\<open>synced\<close> is what \<open>cache.WaitForCacheSync\<close> answers.\<close>

definition Watch_StartWithSync ::
  "bool \<Rightarrow> Watch \<Rightarrow> runtime \<Rightarrow> (goerr option \<times> Watch \<times> runtime) option" where
  "Watch_StartWithSync synced w rt =
     (let (w, rt) = Watch_Start w rt in
      if \<not> synced then
        (case Watch_Stop w rt of None \<Rightarrow> None
         | Some (w, rt) \<Rightarrow>
             Some (Some (Plain (''failed to sync cache for GVR '' @ GVR_String (w_gvr w))), w, rt))
      else Some (None, w, rt))"

section \<open>The cache of watches\<close>

definition StartWithSync ::
  "bool \<Rightarrow> gvr \<Rightarrow> nat \<Rightarrow> watch_cache \<Rightarrow> (goerr option \<times> watch_cache) option" where
  "StartWithSync synced g infm c =
     (case Watch_StartWithSync synced (NewWatch g infm) (wc_rt c) of
        None \<Rightarrow> None
      | Some (Some err, w, rt) \<Rightarrow> Some (Some err, c\<lparr>wc_rt := rt\<rparr>)
      | Some (None, w, rt) \<Rightarrow> Some (None, c\<lparr>wc_watches := (wc_watches c)(g \<mapsto> w), wc_rt := rt\<rparr>))"

definition Start :: "gvr \<Rightarrow> nat \<Rightarrow> watch_cache \<Rightarrow> watch_cache" where
  "Start g infm c =
     (let (w, rt) = Watch_Start (NewWatch g infm) (wc_rt c) in
      c\<lparr>wc_watches := (wc_watches c)(g \<mapsto> w), wc_ActiveWatches := wc_ActiveWatches c + 1,
        wc_rt := rt\<rparr>)"

definition Stop :: "gvr \<Rightarrow> watch_cache \<Rightarrow> watch_cache option" where
  "Stop g c =
     (case wc_watches c g of
        None \<Rightarrow> Some c
      | Some w \<Rightarrow>
          (case Watch_Stop w (wc_rt c) of
             None \<Rightarrow> None
           | Some (w, rt) \<Rightarrow> Some (c\<lparr>wc_watches := (wc_watches c)(g := None),
               wc_ActiveWatches := wc_ActiveWatches c - 1, wc_rt := rt\<rparr>)))"

definition Exists :: "gvr \<Rightarrow> watch_cache \<Rightarrow> bool" where
  "Exists g c \<longleftrightarrow> wc_watches c g \<noteq> None"

text \<open>
  \<open>StopAll\<close> and \<open>Prune\<close> range over the map of watches, deleting only the entry they visit; \<open>ks\<close>
  is the order of the visit.
\<close>

fun StopAll :: "gvr list \<Rightarrow> watch_cache \<Rightarrow> watch_cache option" where
  "StopAll [] c = Some c"
| "StopAll (g # ks) c = (case Stop g c of None \<Rightarrow> None | Some c \<Rightarrow> StopAll ks c)"

fun prune_loop :: "(gvr \<rightharpoonup> bool) \<Rightarrow> gvr list \<Rightarrow> watch_cache \<Rightarrow> watch_cache option" where
  "prune_loop keep [] c = Some c"
| "prune_loop keep (g # ks) c =
     (if keep g \<noteq> Some True
      then (case Stop g c of None \<Rightarrow> None | Some c \<Rightarrow> prune_loop keep ks c)
      else prune_loop keep ks c)"

definition Prune :: "gvr list \<Rightarrow> gvr list \<Rightarrow> watch_cache \<Rightarrow> watch_cache option" where
  "Prune ks gvrs c = prune_loop (foldl (\<lambda>keep g. keep(g \<mapsto> True)) Map.empty gvrs) ks c"

section \<open>Registration\<close>

text \<open>\<open>informerFactory.ForResource(gvr).Informer()\<close> makes an informer for a new GVR only.\<close>

definition makeInformer :: "gvr \<Rightarrow> runtime \<Rightarrow> nat \<times> runtime" where
  "makeInformer g rt =
     (case rt_factory rt g of
        Some i \<Rightarrow> (i, rt)
      | None \<Rightarrow>
          (let i = length (rt_informers rt) in
           (i, rt\<lparr>rt_informers := rt_informers rt @ [\<lparr>inf_gvr = g, inf_phase = Idle, inf_handlers = 0\<rparr>],
                  rt_factory := (rt_factory rt)(g \<mapsto> i)\<rparr>)))"

definition stopped_err :: string where
  "stopped_err = ''handler was not added to shared informer because it has stopped already''"

definition AddEventHandler :: "nat \<Rightarrow> runtime \<Rightarrow> goerr option \<times> runtime" where
  "AddEventHandler i rt =
     (let infm = rt_informers rt ! i in
      if inf_phase infm = Stopped then (Some (Plain stopped_err), rt)
      else (None, rt\<lparr>rt_informers := (rt_informers rt)[i := infm\<lparr>inf_handlers := inf_handlers infm + 1\<rparr>]\<rparr>))"

definition addHandlers :: "string list \<Rightarrow> nat \<Rightarrow> runtime \<Rightarrow> goerr option \<times> runtime" where
  "addHandlers frames i rt =
     (case AddEventHandler i rt of
        (Some err, rt) \<Rightarrow> (Wrap frames (Some err) [], rt)
      | (None, rt) \<Rightarrow> (None, rt))"

definition Register :: "string list \<Rightarrow> gvr \<Rightarrow> watch_cache \<Rightarrow> goerr option \<times> watch_cache" where
  "Register frames g c =
     (if Exists g c then (None, c)
      else
        (let (infm, rt) = makeInformer g (wc_rt c) in
         case addHandlers frames infm rt of
           (Some err, rt) \<Rightarrow> (Some err, c\<lparr>wc_rt := rt\<rparr>)
         | (None, rt) \<Rightarrow> (None, Start g infm (c\<lparr>wc_rt := rt\<rparr>))))"

text \<open>
  \<open>Shutdown\<close>: the factory's own \<open>Shutdown\<close> only sets a flag and waits for goroutines it has
  started, of which there are none.
\<close>

definition Shutdown :: "gvr list \<Rightarrow> watch_cache \<Rightarrow> watch_cache option" where
  "Shutdown ks c =
     (case StopAll ks c of
        None \<Rightarrow> None
      | Some c \<Rightarrow> Some (c\<lparr>wc_rt := (wc_rt c)\<lparr>rt_shuttingDown := True\<rparr>\<rparr>))"

section \<open>The scheduler\<close>

text \<open>
  \<open>Run\<close> returns at once when the informer has been started before; otherwise it runs until its
  stop channel is closed and then marks the informer stopped.
\<close>

definition run_begin :: "nat \<times> nat \<Rightarrow> runtime \<Rightarrow> runtime" where
  "run_begin p rt =
     (let infm = rt_informers rt ! fst p; rt = rt\<lparr>rt_spawned := remove1 p (rt_spawned rt)\<rparr> in
      if inf_phase infm \<noteq> Idle then rt
      else rt\<lparr>rt_informers := (rt_informers rt)[fst p := infm\<lparr>inf_phase := Running (snd p)\<rparr>]\<rparr>)"

definition run_end :: "nat \<Rightarrow> runtime \<Rightarrow> runtime" where
  "run_end i rt = rt\<lparr>rt_informers := (rt_informers rt)[i := (rt_informers rt ! i)\<lparr>inf_phase := Stopped\<rparr>]\<rparr>"

inductive sched_step :: "runtime \<Rightarrow> runtime \<Rightarrow> bool" where
  begins: "p \<in> set (rt_spawned rt) \<Longrightarrow> sched_step rt (run_begin p rt)"
| ends: "i < length (rt_informers rt) \<Longrightarrow> inf_phase (rt_informers rt ! i) = Running ch \<Longrightarrow>
    rt_closed rt ! ch \<Longrightarrow> sched_step rt (run_end i rt)"

inductive watch_step :: "watch_cache \<Rightarrow> watch_cache \<Rightarrow> bool" where
  register: "watch_step c (snd (Register frames g c))"
| prune: "enumerates ks (wc_watches c) \<Longrightarrow> Prune ks gvrs c = Some c' \<Longrightarrow> watch_step c c'"
| shutdown: "enumerates ks (wc_watches c) \<Longrightarrow> Shutdown ks c = Some c' \<Longrightarrow> watch_step c c'"
| sched: "sched_step (wc_rt c) rt \<Longrightarrow> watch_step c (c\<lparr>wc_rt := rt\<rparr>)"

inductive watch_reach :: "watch_cache \<Rightarrow> bool" where
  init: "watch_reach NewWatchCache"
| step: "watch_reach c \<Longrightarrow> watch_step c c' \<Longrightarrow> watch_reach c'"

inductive_cases sched_stepE: "sched_step rt rt'"
inductive_cases watch_stepE: "watch_step c c'"

section \<open>The contract of a registry of watches\<close>

locale watch_registry =
  fixes watch_of :: "'c \<Rightarrow> 'k \<Rightarrow> 'w option"
    and stop :: "'k \<Rightarrow> 'c \<Rightarrow> 'c option"
    and ok :: "'c \<Rightarrow> bool"
  assumes stop_ok: "ok c \<Longrightarrow> \<exists>c'. stop g c = Some c' \<and> ok c' \<and> watch_of c' = (watch_of c)(g := None)"
    and stop_commute: "ok c \<Longrightarrow> Option.bind (stop g c) (stop h) = Option.bind (stop h c) (stop g)"
begin

fun stop_list :: "'k list \<Rightarrow> 'c \<Rightarrow> 'c option" where
  "stop_list [] c = Some c"
| "stop_list (g # gs) c = Option.bind (stop g c) (stop_list gs)"

lemma stop_list_ok:
  "ok c \<Longrightarrow> \<exists>c'. stop_list gs c = Some c' \<and> ok c' \<and> watch_of c' = watch_of c |` (- set gs)"
proof (induction gs arbitrary: c)
  case Nil
  then show ?case by (simp add: restrict_map_def)
next
  case (Cons g gs)
  from stop_ok [OF Cons.prems, of g] obtain c1
    where "stop g c = Some c1" "ok c1" "watch_of c1 = (watch_of c)(g := None)" by blast
  with Cons.IH [of c1] show ?case by (auto simp: restrict_map_def fun_eq_iff)
qed

lemma stop_list_append: "stop_list (xs @ ys) c = Option.bind (stop_list xs c) (stop_list ys)"
  by (induction xs arbitrary: c) (auto simp: Option.bind_assoc split: bind_split)

lemma stop_list_swap:
  assumes "ok c"
  shows "stop_list (g # gs) c = stop_list (gs @ [g]) c"
  using assms
proof (induction gs arbitrary: c)
  case Nil
  then show ?case by simp
next
  case (Cons h gs)
  have "stop_list (g # h # gs) c = Option.bind (Option.bind (stop g c) (stop h)) (stop_list gs)"
    by (cases "stop g c") simp_all
  also have "\<dots> = Option.bind (Option.bind (stop h c) (stop g)) (stop_list gs)"
    by (simp only: stop_commute [OF Cons.prems])
  also have "\<dots> = Option.bind (stop h c) (stop_list (g # gs))"
    by (cases "stop h c") simp_all
  also have "\<dots> = stop_list ((h # gs) @ [g]) c"
  proof -
    from stop_ok [OF Cons.prems, of h] obtain c1 where c1: "stop h c = Some c1" "ok c1" by blast
    show ?thesis using Cons.IH [OF c1(2)] c1(1) by simp
  qed
  finally show ?case .
qed

lemma stop_list_perm: "ok c \<Longrightarrow> mset gs = mset hs \<Longrightarrow> stop_list gs c = stop_list hs c"
proof (induction gs arbitrary: c hs)
  case Nil
  then show ?case by simp
next
  case (Cons g gs)
  then have "g \<in> set hs" by (metis list.set_intros(1) mset_eq_setD)
  then obtain us vs where hs: "hs = us @ g # vs" by (meson split_list)
  have "mset gs = mset (us @ vs)" using Cons.prems(2) hs by simp
  moreover from stop_ok [OF Cons.prems(1), of g] obtain c1 where "stop g c = Some c1" "ok c1" by blast
  ultimately have "stop_list (g # gs) c = stop_list (g # us @ vs) c"
    using Cons.IH [of c1 "us @ vs"] by simp
  also have "\<dots> = Option.bind (stop_list (g # us) c) (stop_list vs)"
    using stop_list_append [of "g # us" vs c] by simp
  also have "\<dots> = stop_list hs c"
    using stop_list_append [of "us @ [g]" vs c] by (simp only: stop_list_swap [OF Cons.prems(1)] hs) simp
  finally show ?case .
qed

end

section \<open>The invariant\<close>

text \<open>
  Every watch of the map runs on an open channel of its own and on the informer the factory keeps
  for its GVR; the gauge counts the watches; no index dangles.
\<close>

definition watch_wf :: "runtime \<Rightarrow> gvr \<Rightarrow> Watch \<Rightarrow> bool" where
  "watch_wf rt g w \<longleftrightarrow> w_gvr w = g \<and> w_running w \<and> rt_factory rt g = Some (w_informer w) \<and>
     (case w_stopCh w of None \<Rightarrow> False | Some ch \<Rightarrow> ch < length (rt_closed rt) \<and> \<not> rt_closed rt ! ch)"

definition runtime_wf :: "runtime \<Rightarrow> bool" where
  "runtime_wf rt \<longleftrightarrow>
     (\<forall>g i. rt_factory rt g = Some i \<longrightarrow> i < length (rt_informers rt) \<and> inf_gvr (rt_informers rt ! i) = g) \<and>
     (\<forall>(i, ch) \<in> set (rt_spawned rt). i < length (rt_informers rt) \<and> ch < length (rt_closed rt)) \<and>
     (\<forall>i < length (rt_informers rt). \<forall>ch. inf_phase (rt_informers rt ! i) = Running ch \<longrightarrow>
        ch < length (rt_closed rt))"

definition watches_wf :: "(gvr \<rightharpoonup> Watch) \<Rightarrow> runtime \<Rightarrow> bool" where
  "watches_wf m rt \<longleftrightarrow> (\<forall>g w. m g = Some w \<longrightarrow> watch_wf rt g w) \<and>
     (\<forall>g h w v. m g = Some w \<and> m h = Some v \<and> w_stopCh w = w_stopCh v \<longrightarrow> g = h)"

definition watch_inv :: "watch_cache \<Rightarrow> bool" where
  "watch_inv c \<longleftrightarrow> finite (dom (wc_watches c)) \<and>
     wc_ActiveWatches c = int (card (dom (wc_watches c))) \<and>
     watches_wf (wc_watches c) (wc_rt c) \<and> runtime_wf (wc_rt c)"

lemma watch_invD: "watch_inv c \<Longrightarrow> wc_watches c g = Some w \<Longrightarrow> watch_wf (wc_rt c) g w"
  by (simp add: watch_inv_def watches_wf_def)

lemma Stop_watching:
  assumes "watch_inv c" and "wc_watches c g = Some w" and "w_stopCh w = Some ch"
  shows "Stop g c = Some (c\<lparr>wc_watches := (wc_watches c)(g := None),
      wc_ActiveWatches := wc_ActiveWatches c - 1,
      wc_rt := (wc_rt c)\<lparr>rt_closed := (rt_closed (wc_rt c))[ch := True]\<rparr>\<rparr>)"
  using watch_invD [OF assms(1,2)] assms(2,3)
  by (simp add: watch_wf_def Stop_def Watch_Stop_def close_chan_def)

lemma watching_chan:
  assumes "watch_inv c" and "wc_watches c g = Some w"
  obtains ch where "w_stopCh w = Some ch" "ch < length (rt_closed (wc_rt c))" "\<not> rt_closed (wc_rt c) ! ch"
  using watch_invD [OF assms] by (cases "w_stopCh w") (simp_all add: watch_wf_def)

lemma watch_wf_close:
  "watch_wf rt h v \<Longrightarrow> w_stopCh v \<noteq> Some ch \<Longrightarrow>
   watch_wf (rt\<lparr>rt_closed := (rt_closed rt)[ch := True]\<rparr>) h v"
  by (simp add: watch_wf_def split: option.splits)

lemma Stop_inv:
  assumes inv: "watch_inv c"
  shows "\<exists>c'. Stop g c = Some c' \<and> watch_inv c' \<and> wc_watches c' = (wc_watches c)(g := None)"
proof (cases "wc_watches c g")
  case None
  then have "(wc_watches c)(g := None) = wc_watches c" by auto
  with None inv show ?thesis by (simp add: Stop_def)
next
  case (Some w)
  from inv Some obtain ch where ch: "w_stopCh w = Some ch" "ch < length (rt_closed (wc_rt c))"
    by (rule watching_chan)
  let ?rt = "(wc_rt c)\<lparr>rt_closed := (rt_closed (wc_rt c))[ch := True]\<rparr>"
  have "runtime_wf ?rt" using inv by (simp add: watch_inv_def runtime_wf_def)
  moreover have "watches_wf ((wc_watches c)(g := None)) ?rt"
  proof -
    have "w_stopCh v \<noteq> Some ch" if "wc_watches c h = Some v" "h \<noteq> g" for h v
      using inv Some ch(1) that unfolding watch_inv_def watches_wf_def by metis
    then have "watch_wf ?rt h v" if "wc_watches c h = Some v" "h \<noteq> g" for h v
      using watch_wf_close [OF watch_invD [OF inv that(1)]] that by blast
    then show ?thesis
      using inv unfolding watch_inv_def watches_wf_def by (simp add: fun_upd_apply)
  qed
  moreover have "card (dom (wc_watches c) - {g}) = card (dom (wc_watches c)) - 1" "0 < card (dom (wc_watches c))"
    using inv Some by (auto simp: watch_inv_def card_gt_0_iff card_Diff_singleton domI)
  ultimately show ?thesis
    using inv unfolding Stop_watching [OF inv Some ch(1)] by (auto simp: watch_inv_def)
qed

lemma Stop_other:
  assumes "Stop g c = Some c'" and "h \<noteq> g"
  shows "wc_watches c' h = wc_watches c h"
  using assms by (auto simp: Stop_def split: option.splits)

lemma Stop_commute:
  assumes inv: "watch_inv c"
  shows "Option.bind (Stop g c) (Stop h) = Option.bind (Stop h c) (Stop g)"
proof (cases "g = h \<or> wc_watches c g = None \<or> wc_watches c h = None")
  case True
  moreover have "Option.bind (Stop x c) (Stop y) = Stop x c"
    "Option.bind (Stop y c) (Stop x) = Stop x c" if "wc_watches c y = None" "x \<noteq> y" for x y
  proof -
    show "Option.bind (Stop y c) (Stop x) = Stop x c" using that by (simp add: Stop_def)
    from Stop_inv [OF inv, of x] that show "Option.bind (Stop x c) (Stop y) = Stop x c"
      by (auto simp: Stop_def [of y])
  qed
  ultimately show ?thesis by metis
next
  case False
  then obtain w v where w: "wc_watches c g = Some w" and v: "wc_watches c h = Some v" and gh: "g \<noteq> h" by auto
  obtain ch where ch: "w_stopCh w = Some ch" by (rule watching_chan [OF inv w])
  obtain dh where dh: "w_stopCh v = Some dh" by (rule watching_chan [OF inv v])
  note sg = Stop_watching [OF inv w ch] and sh = Stop_watching [OF inv v dh]
  obtain c1 where c1: "Stop g c = Some c1" "watch_inv c1" "wc_watches c1 = (wc_watches c)(g := None)"
    using Stop_inv [OF inv, of g] by blast
  obtain c2 where c2: "Stop h c = Some c2" "watch_inv c2" "wc_watches c2 = (wc_watches c)(h := None)"
    using Stop_inv [OF inv, of h] by blast
  have "wc_watches c1 h = Some v" "wc_watches c2 g = Some w" using c1(3) c2(3) gh w v by auto
  then have "Stop h c1 = Some (c1\<lparr>wc_watches := (wc_watches c1)(h := None),
      wc_ActiveWatches := wc_ActiveWatches c1 - 1,
      wc_rt := (wc_rt c1)\<lparr>rt_closed := (rt_closed (wc_rt c1))[dh := True]\<rparr>\<rparr>)"
    and "Stop g c2 = Some (c2\<lparr>wc_watches := (wc_watches c2)(g := None),
      wc_ActiveWatches := wc_ActiveWatches c2 - 1,
      wc_rt := (wc_rt c2)\<lparr>rt_closed := (rt_closed (wc_rt c2))[ch := True]\<rparr>\<rparr>)"
    using Stop_watching c1(2) c2(2) ch dh by blast+
  moreover have "ch \<noteq> dh" using inv w v gh ch dh by (auto simp: watch_inv_def watches_wf_def)
  then have "(rt_closed (wc_rt c))[ch := True, dh := True] = (rt_closed (wc_rt c))[dh := True, ch := True]"
    by (rule list_update_swap)
  moreover have "(wc_watches c)(g := None, h := None) = (wc_watches c)(h := None, g := None)"
    using gh by (rule fun_upd_twist)
  ultimately show ?thesis
    using sg sh c1(1) c2(1) by simp
qed

interpretation watches: watch_registry wc_watches Stop watch_inv
  by unfold_locales (simp_all add: Stop_inv Stop_commute)

lemma StopAll_list: "StopAll ks c = watches.stop_list ks c"
  by (induction ks arbitrary: c) (auto split: option.splits bind_split)

lemma prune_loop_list:
  "prune_loop keep ks c = watches.stop_list (filter (\<lambda>g. keep g \<noteq> Some True) ks) c"
  by (induction ks arbitrary: c) (auto split: option.splits bind_split)

lemma keep_set: "foldl (\<lambda>keep g. keep(g \<mapsto> True)) m gvrs g = Some True \<longleftrightarrow> g \<in> set gvrs \<or> m g = Some True"
  by (induction gvrs arbitrary: m) auto

lemma Prune_list: "Prune ks gvrs c = watches.stop_list (filter (\<lambda>g. g \<notin> set gvrs) ks) c"
  by (simp add: Prune_def prune_loop_list keep_set)

lemma Prune_inv:
  assumes "watch_inv c" and "enumerates ks (wc_watches c)"
  shows "\<exists>c'. Prune ks gvrs c = Some c' \<and> watch_inv c' \<and> wc_watches c' = wc_watches c |` set gvrs"
proof -
  have "wc_watches c |` (- set (filter (\<lambda>g. g \<notin> set gvrs) ks)) = wc_watches c |` set gvrs"
    using assms(2) by (fastforce simp: enumerates_def restrict_map_def fun_eq_iff)
  with watches.stop_list_ok [OF assms(1)] show ?thesis by (metis Prune_list)
qed

lemma Shutdown_inv:
  assumes "watch_inv c" and "enumerates ks (wc_watches c)"
  shows "\<exists>c'. Shutdown ks c = Some c' \<and> watch_inv c' \<and> wc_watches c' = Map.empty"
proof -
  have "wc_watches c |` (- set ks) = Map.empty"
    using assms(2) by (fastforce simp: enumerates_def restrict_map_def fun_eq_iff)
  with watches.stop_list_ok [OF assms(1), of ks] obtain c'
    where "StopAll ks c = Some c'" "watch_inv c'" "wc_watches c' = Map.empty"
    by (auto simp: StopAll_list)
  then show ?thesis
    by (auto simp: Shutdown_def watch_inv_def watches_wf_def runtime_wf_def)
qed

section \<open>Registration and the scheduler keep the invariant\<close>

text \<open>What a change of the runtime may not do to the watches that exist.\<close>

definition rt_extends :: "runtime \<Rightarrow> runtime \<Rightarrow> bool" where
  "rt_extends rt rt' \<longleftrightarrow> runtime_wf rt' \<and> (\<exists>cs. rt_closed rt' = rt_closed rt @ cs) \<and>
     (\<forall>g i. rt_factory rt g = Some i \<longrightarrow> rt_factory rt' g = Some i)"

lemma watch_wf_extends: "rt_extends rt rt' \<Longrightarrow> watch_wf rt g w \<Longrightarrow> watch_wf rt' g w"
  by (auto simp: rt_extends_def watch_wf_def nth_append split: option.splits)

lemma watch_inv_extends:
  assumes "watch_inv c" "rt_extends (wc_rt c) rt"
  shows "watch_inv (c\<lparr>wc_rt := rt\<rparr>)"
  using assms watch_wf_extends [OF assms(2)] unfolding watch_inv_def watches_wf_def
  by (simp add: rt_extends_def)

lemma makeInformer_extends:
  assumes "runtime_wf rt" "makeInformer g rt = (i, rt')"
  shows "rt_extends rt rt' \<and> rt_factory rt' g = Some i"
proof (cases "rt_factory rt g")
  case None
  let ?new = "\<lparr>inf_gvr = g, inf_phase = Idle, inf_handlers = 0\<rparr>"
  from None assms(2) have i: "i = length (rt_informers rt)"
    and rt': "rt' = rt\<lparr>rt_informers := rt_informers rt @ [?new], rt_factory := (rt_factory rt)(g \<mapsto> i)\<rparr>"
    by (auto simp: makeInformer_def Let_def)
  have "j < length (rt_informers rt') \<and> inf_gvr (rt_informers rt' ! j) = h"
    if "rt_factory rt' h = Some j" for h j
    using that assms(1) i rt' by (auto simp: runtime_wf_def nth_append less_SucI split: if_splits)
  moreover have "j < length (rt_informers rt') \<and> ch < length (rt_closed rt')"
    if "(j, ch) \<in> set (rt_spawned rt')" for j ch
    using that assms(1) i rt' by (auto simp: runtime_wf_def less_SucI)
  moreover have "ch < length (rt_closed rt')"
    if "j < length (rt_informers rt')" "inf_phase (rt_informers rt' ! j) = Running ch" for j ch
    using that assms(1) i rt' by (auto simp: runtime_wf_def nth_append less_Suc_eq split: if_splits)
  ultimately have "runtime_wf rt'"
    by (auto simp: runtime_wf_def)
  with None i rt' show ?thesis by (auto simp: rt_extends_def)
next
  case (Some j)
  with assms show ?thesis by (simp add: makeInformer_def rt_extends_def)
qed

lemma addHandlers_extends:
  assumes "runtime_wf rt" "addHandlers frames i rt = (e, rt')"
  shows "rt_extends rt rt' \<and> rt_factory rt' = rt_factory rt"
proof -
  have "rt' = rt \<or>
    rt' = rt\<lparr>rt_informers := (rt_informers rt)[i := (rt_informers rt ! i)\<lparr>inf_handlers := inf_handlers (rt_informers rt ! i) + 1\<rparr>]\<rparr>"
    using assms(2) by (auto simp: addHandlers_def AddEventHandler_def Let_def split: if_splits)
  then show ?thesis
    using assms(1)
    by (cases "i < length (rt_informers rt)") (auto simp: rt_extends_def runtime_wf_def nth_list_update list_update_beyond split: if_splits)
qed

lemma rt_extends_trans: "rt_extends r1 r2 \<Longrightarrow> rt_extends r2 r3 \<Longrightarrow> rt_extends r1 r3"
  by (auto simp: rt_extends_def)

lemma Start_inv:
  assumes inv: "watch_inv c" and new: "wc_watches c g = None" and fac: "rt_factory (wc_rt c) g = Some i"
  shows "watch_inv (Start g i c)"
proof -
  let ?ch = "length (rt_closed (wc_rt c))"
  let ?w = "NewWatch g i\<lparr>w_stopCh := Some ?ch, w_running := True\<rparr>"
  let ?rt = "(wc_rt c)\<lparr>rt_closed := rt_closed (wc_rt c) @ [False], rt_spawned := rt_spawned (wc_rt c) @ [(i, ?ch)]\<rparr>"
  have c': "Start g i c = c\<lparr>wc_watches := (wc_watches c)(g \<mapsto> ?w), wc_ActiveWatches := wc_ActiveWatches c + 1, wc_rt := ?rt\<rparr>"
    by (simp add: Start_def Watch_Start_def NewWatch_def Let_def)
  have wf: "runtime_wf (wc_rt c)" using inv by (simp add: watch_inv_def)
  then have "runtime_wf ?rt" using fac by (auto simp: runtime_wf_def less_SucI)
  then have ext: "rt_extends (wc_rt c) ?rt" by (simp add: rt_extends_def)
  have old: "watch_wf ?rt h v" "w_stopCh v \<noteq> Some ?ch" if "wc_watches c h = Some v" for h v
    using watch_wf_extends [OF ext watch_invD [OF inv that]] watch_invD [OF inv that]
    by (auto simp: watch_wf_def)
  have "watch_wf ?rt g ?w" using fac by (simp add: watch_wf_def NewWatch_def)
  then have "watches_wf ((wc_watches c)(g \<mapsto> ?w)) ?rt"
    using old inv unfolding watches_wf_def watch_inv_def by (auto simp: fun_upd_apply split: if_splits) metis
  then show ?thesis
    using inv new \<open>runtime_wf ?rt\<close> unfolding c' by (auto simp: watch_inv_def domIff)
qed

lemma Register_inv:
  assumes inv: "watch_inv c"
  shows "watch_inv (snd (Register frames g c))"
proof (cases "Exists g c")
  case True
  with inv show ?thesis by (simp add: Register_def)
next
  case False
  obtain i rt where mk: "makeInformer g (wc_rt c) = (i, rt)" by force
  obtain e rt' where ah: "addHandlers frames i rt = (e, rt')" by force
  have wf: "runtime_wf (wc_rt c)" using inv by (simp add: watch_inv_def)
  from makeInformer_extends [OF wf mk] have ext: "rt_extends (wc_rt c) rt" "rt_factory rt g = Some i" by auto
  with addHandlers_extends [OF _ ah] have "rt_extends rt rt'" "rt_factory rt' g = Some i" by (auto simp: rt_extends_def)
  moreover from this have "watch_inv (c\<lparr>wc_rt := rt'\<rparr>)"
    using watch_inv_extends [OF inv] rt_extends_trans [OF ext(1)] by blast
  ultimately show ?thesis
    using False mk ah Start_inv [of "c\<lparr>wc_rt := rt'\<rparr>" g i]
    by (auto simp: Register_def Exists_def split: option.split)
qed

lemma sched_extends: "sched_step rt rt' \<Longrightarrow> runtime_wf rt \<Longrightarrow> rt_extends rt rt' \<and> rt_closed rt' = rt_closed rt"
proof (induction rule: sched_step.induct)
  case (begins p rt)
  then have "fst p < length (rt_informers rt)" "snd p < length (rt_closed rt)"
    by (auto simp: runtime_wf_def split_def)
  with begins show ?case
    using set_remove1_subset [of p "rt_spawned rt"]
    by (auto simp: run_begin_def Let_def rt_extends_def runtime_wf_def nth_list_update split: if_splits)
next
  case (ends i rt ch)
  then show ?case by (auto simp: run_end_def rt_extends_def runtime_wf_def nth_list_update)
qed

lemma watch_step_inv: "watch_step c c' \<Longrightarrow> watch_inv c \<Longrightarrow> watch_inv c'"
proof (induction rule: watch_step.induct)
  case (register c frames g)
  then show ?case by (rule Register_inv)
next
  case (prune ks c gvrs c')
  from Prune_inv [OF prune.prems prune.hyps(1)] prune.hyps(2) show ?case by (metis option.inject)
next
  case (shutdown ks c c')
  from Shutdown_inv [OF shutdown.prems shutdown.hyps(1)] shutdown.hyps(2) show ?case by (metis option.inject)
next
  case (sched c rt)
  then show ?case using sched_extends watch_inv_extends by (metis watch_inv_def)
qed

lemma watch_reach_inv: "watch_reach c \<Longrightarrow> watch_inv c"
proof (induction rule: watch_reach.induct)
  case init
  then show ?case by (simp add: NewWatchCache_def watch_inv_def watches_wf_def runtime_wf_def)
next
  case (step c c')
  then show ?case by (blast intro: watch_step_inv)
qed

section \<open>What never comes back\<close>

text \<open>
  The runtime only ever moves forward: a closed channel stays closed, an informer that runs goes
  on running on the same channel or stops, a stopped one stays stopped, and the factory never
  forgets an informer.
\<close>

fun phase_le :: "inf_phase \<Rightarrow> inf_phase \<Rightarrow> bool" where
  "phase_le Idle p = True"
| "phase_le (Running ch) p = (p = Running ch \<or> p = Stopped)"
| "phase_le Stopped p = (p = Stopped)"

lemma phase_le_refl [simp]: "phase_le p p"
  by (cases p) auto

lemma phase_le_trans: "phase_le p q \<Longrightarrow> phase_le q r \<Longrightarrow> phase_le p r"
  by (cases p; cases q; cases r) auto

definition rt_mono :: "runtime \<Rightarrow> runtime \<Rightarrow> bool" where
  "rt_mono rt rt' \<longleftrightarrow>
     length (rt_closed rt) \<le> length (rt_closed rt') \<and>
     (\<forall>n < length (rt_closed rt). rt_closed rt ! n \<longrightarrow> rt_closed rt' ! n) \<and>
     length (rt_informers rt) \<le> length (rt_informers rt') \<and>
     (\<forall>i < length (rt_informers rt). phase_le (inf_phase (rt_informers rt ! i)) (inf_phase (rt_informers rt' ! i))) \<and>
     (\<forall>g i. rt_factory rt g = Some i \<longrightarrow> rt_factory rt' g = Some i)"

lemma rt_mono_refl [simp]: "rt_mono rt rt"
  by (simp add: rt_mono_def)

lemma rt_mono_trans: "rt_mono a b \<Longrightarrow> rt_mono b c \<Longrightarrow> rt_mono a c"
  unfolding rt_mono_def by (meson order_trans phase_le_trans less_le_trans)

lemma nth_set_True: "n < length xs \<Longrightarrow> xs ! n \<Longrightarrow> (xs[k := True]) ! n"
  by (cases "k = n") auto

lemma Stop_mono: "Stop g c = Some c' \<Longrightarrow> rt_mono (wc_rt c) (wc_rt c')"
  by (auto simp: Stop_def Watch_Stop_def close_chan_def rt_mono_def nth_set_True
      split: option.splits if_splits)

lemma stop_list_mono: "watches.stop_list gs c = Some c' \<Longrightarrow> rt_mono (wc_rt c) (wc_rt c')"
proof (induction gs arbitrary: c)
  case Nil
  then show ?case by simp
next
  case (Cons g gs)
  then show ?case by (auto split: bind_splits dest: Stop_mono intro: rt_mono_trans)
qed

lemma Stop_frame:
  "Stop g c = Some c' \<Longrightarrow> rt_factory (wc_rt c') = rt_factory (wc_rt c) \<and> rt_informers (wc_rt c') = rt_informers (wc_rt c)"
  by (auto simp: Stop_def Watch_Stop_def close_chan_def split: option.splits if_splits)

lemma stop_list_frame:
  "watches.stop_list gs c = Some c' \<Longrightarrow>
   rt_factory (wc_rt c') = rt_factory (wc_rt c) \<and> rt_informers (wc_rt c') = rt_informers (wc_rt c)"
proof (induction gs arbitrary: c)
  case Nil
  then show ?case by simp
next
  case (Cons g gs)
  from Cons.prems obtain c1 where "Stop g c = Some c1" "watches.stop_list gs c1 = Some c'"
    by (auto split: bind_splits)
  with Cons.IH Stop_frame show ?case by metis
qed

lemma makeInformer_mono: "makeInformer g rt = (i, rt') \<Longrightarrow> rt_mono rt rt'"
  by (auto simp: makeInformer_def Let_def rt_mono_def nth_append split: option.splits)

lemma addHandlers_mono: "addHandlers frames i rt = (e, rt') \<Longrightarrow> rt_mono rt rt'"
  by (cases "i < length (rt_informers rt)")
    (auto simp: addHandlers_def AddEventHandler_def Let_def rt_mono_def nth_list_update
      list_update_beyond split: if_splits)

lemma Start_mono: "rt_mono (wc_rt c) (wc_rt (Start g i c))"
  by (simp add: Start_def Watch_Start_def Let_def rt_mono_def nth_append)

lemma Register_mono: "rt_mono (wc_rt c) (wc_rt (snd (Register frames g c)))"
proof -
  obtain i rt where mk: "makeInformer g (wc_rt c) = (i, rt)" by force
  obtain e rt' where ah: "addHandlers frames i rt = (e, rt')" by force
  have "rt_mono (wc_rt c) rt'" using makeInformer_mono [OF mk] addHandlers_mono [OF ah] by (rule rt_mono_trans)
  moreover have "rt_mono rt' (wc_rt (Start g i (c\<lparr>wc_rt := rt'\<rparr>)))"
    using Start_mono [of "c\<lparr>wc_rt := rt'\<rparr>"] by simp
  ultimately show ?thesis
    using mk ah by (auto simp: Register_def split: option.split intro: rt_mono_trans)
qed

lemma sched_mono: "sched_step rt rt' \<Longrightarrow> rt_mono rt rt'"
proof (induction rule: sched_step.induct)
  case (begins p rt)
  then show ?case
    by (cases "fst p < length (rt_informers rt)")
      (auto simp: run_begin_def Let_def rt_mono_def nth_list_update list_update_beyond)
next
  case (ends i rt ch)
  then show ?case by (auto simp: run_end_def rt_mono_def nth_list_update)
qed

lemma watch_step_mono: "watch_step c c' \<Longrightarrow> rt_mono (wc_rt c) (wc_rt c')"
proof (induction rule: watch_step.induct)
  case (register c frames g)
  show ?case by (rule Register_mono)
next
  case (prune ks c gvrs c')
  then show ?case by (auto simp: Prune_list dest: stop_list_mono)
next
  case (shutdown ks c c')
  from shutdown(2) obtain c1 where "StopAll ks c = Some c1" "c' = c1\<lparr>wc_rt := (wc_rt c1)\<lparr>rt_shuttingDown := True\<rparr>\<rparr>"
    by (auto simp: Shutdown_def split: option.splits)
  with stop_list_mono show ?case by (simp add: StopAll_list rt_mono_def)
next
  case (sched c rt)
  then show ?case by (simp add: sched_mono)
qed

definition live :: "gvr \<Rightarrow> watch_cache \<Rightarrow> bool" where
  "live g c \<longleftrightarrow> (case wc_watches c g of None \<Rightarrow> False
     | Some w \<Rightarrow> (case w_stopCh w of None \<Rightarrow> False
         | Some ch \<Rightarrow> inf_phase (rt_informers (wc_rt c) ! w_informer w) = Running ch))"

definition burnt :: "gvr \<Rightarrow> watch_cache \<Rightarrow> bool" where
  "burnt g c \<longleftrightarrow> (case rt_factory (wc_rt c) g of None \<Rightarrow> False
     | Some i \<Rightarrow> (case inf_phase (rt_informers (wc_rt c) ! i) of
           Idle \<Rightarrow> False | Running ch \<Rightarrow> rt_closed (wc_rt c) ! ch | Stopped \<Rightarrow> True))"

lemma burnt_not_live: "watch_inv c \<Longrightarrow> burnt g c \<Longrightarrow> \<not> live g c"
  using watch_invD [of c g]
  by (auto simp: burnt_def live_def watch_wf_def split: option.splits inf_phase.splits)

lemma burnt_mono:
  assumes "runtime_wf (wc_rt c)" "rt_mono (wc_rt c) (wc_rt c')" "burnt g c"
  shows "burnt g c'"
proof -
  from assms(3) obtain i where i: "rt_factory (wc_rt c) g = Some i" by (auto simp: burnt_def split: option.splits)
  with assms(1,2) have "i < length (rt_informers (wc_rt c))" "rt_factory (wc_rt c') g = Some i"
    by (auto simp: runtime_wf_def rt_mono_def)
  with assms(1,2) have "phase_le (inf_phase (rt_informers (wc_rt c) ! i)) (inf_phase (rt_informers (wc_rt c') ! i))"
    "inf_phase (rt_informers (wc_rt c) ! i) = Running ch \<Longrightarrow> rt_closed (wc_rt c) ! ch \<Longrightarrow> rt_closed (wc_rt c') ! ch" for ch
    by (auto simp: runtime_wf_def rt_mono_def)
  with assms(3) i \<open>rt_factory (wc_rt c') g = Some i\<close> show ?thesis
    by (auto simp: burnt_def split: inf_phase.splits)
qed

lemma burnt_steps:
  "watch_step\<^sup>*\<^sup>* c c' \<Longrightarrow> watch_inv c \<Longrightarrow> burnt g c \<Longrightarrow> watch_inv c' \<and> burnt g c'"
proof (induction rule: rtranclp_induct)
  case base
  then show ?case by simp
next
  case (step y z)
  then show ?case
    by (metis burnt_mono watch_inv_def watch_step_inv watch_step_mono)
qed

section \<open>Properties\<close>

lemma stop_list_closed:
  assumes "watch_inv c" "watches.stop_list gs c = Some c'" "wc_watches c g = Some w" "w_stopCh w = Some ch"
  shows "rt_closed (wc_rt c') ! ch \<longleftrightarrow> g \<in> set gs"
  using assms
proof (induction gs arbitrary: c)
  case Nil
  then show ?case using watch_invD [of c g w] by (simp add: watch_wf_def)
next
  case (Cons h gs)
  note inv = Cons.prems(1)
  obtain c1 where c1: "Stop h c = Some c1" "watch_inv c1" "wc_watches c1 = (wc_watches c)(h := None)"
    using Stop_inv [OF inv, of h] by blast
  with Cons.prems(2) have rest: "watches.stop_list gs c1 = Some c'" by simp
  show ?case
  proof (cases "g = h")
    case True
    have "ch < length (rt_closed (wc_rt c))" using watch_invD [OF inv Cons.prems(3)] Cons.prems(4) by (simp add: watch_wf_def)
    moreover from this have "rt_closed (wc_rt c1) ! ch" "length (rt_closed (wc_rt c1)) = length (rt_closed (wc_rt c))"
      using c1(1) Stop_watching [OF inv Cons.prems(3,4)] True by auto
    ultimately have "rt_closed (wc_rt c') ! ch" using stop_list_mono [OF rest] by (simp add: rt_mono_def)
    with True show ?thesis by simp
  next
    case False
    with c1(3) Cons.prems(3) have "wc_watches c1 g = Some w" by simp
    from Cons.IH [OF c1(2) rest this Cons.prems(4)] False show ?thesis by simp
  qed
qed

text \<open>
  C11. The watch cache in every reachable state: the gauge is the number of watches, each watch runs
  under its own GVR on an open channel that no other watch uses, and on the factory's informer.
\<close>

theorem watch_cache_sound:
  assumes "watch_reach c"
  shows "wc_ActiveWatches c = int (card (dom (wc_watches c))) \<and>
    (\<forall>g w. wc_watches c g = Some w \<longrightarrow>
       w_gvr w = g \<and> w_running w \<and> rt_factory (wc_rt c) g = Some (w_informer w) \<and>
       (\<exists>ch. w_stopCh w = Some ch \<and> \<not> rt_closed (wc_rt c) ! ch)) \<and>
    (\<forall>g h w v. wc_watches c g = Some w \<and> wc_watches c h = Some v \<and> w_stopCh w = w_stopCh v \<longrightarrow> g = h)"
proof -
  have inv: "watch_inv c" using assms by (rule watch_reach_inv)
  have "w_gvr w = g \<and> w_running w \<and> rt_factory (wc_rt c) g = Some (w_informer w) \<and>
      (\<exists>ch. w_stopCh w = Some ch \<and> \<not> rt_closed (wc_rt c) ! ch)" if "wc_watches c g = Some w" for g w
    using watch_invD [OF inv that] by (cases "w_stopCh w") (simp_all add: watch_wf_def)
  then show ?thesis
    using inv unfolding watch_inv_def watches_wf_def by blast
qed

text \<open>
  C20. \<open>Prune\<close> keeps exactly the watches it is asked for, closes the channels of the others and of
  no other, never panics, keeps the gauge right, and does not depend on the order in which the
  map is visited.
\<close>

theorem Prune_exact:
  assumes "watch_reach c" and "enumerates ks (wc_watches c)"
  shows "\<exists>c'. Prune ks gvrs c = Some c' \<and>
    wc_watches c' = wc_watches c |` set gvrs \<and>
    wc_ActiveWatches c' = int (card (dom (wc_watches c) \<inter> set gvrs)) \<and>
    (\<forall>g w ch. wc_watches c g = Some w \<and> w_stopCh w = Some ch \<longrightarrow>
       (rt_closed (wc_rt c') ! ch \<longleftrightarrow> g \<notin> set gvrs)) \<and>
    (\<forall>ks'. enumerates ks' (wc_watches c) \<longrightarrow> Prune ks' gvrs c = Some c')"
proof -
  have inv: "watch_inv c" using assms(1) by (rule watch_reach_inv)
  obtain c' where c': "Prune ks gvrs c = Some c'" "watch_inv c'" "wc_watches c' = wc_watches c |` set gvrs"
    using Prune_inv [OF inv assms(2)] by blast
  moreover have "rt_closed (wc_rt c') ! ch \<longleftrightarrow> g \<notin> set gvrs"
    if "wc_watches c g = Some w" "w_stopCh w = Some ch" for g w ch
    using stop_list_closed [OF inv c'(1) [unfolded Prune_list] that] assms(2) that(1)
    by (auto simp: enumerates_def)
  moreover have "Prune ks' gvrs c = Some c'" if "enumerates ks' (wc_watches c)" for ks'
  proof -
    have "mset ks' = mset ks"
      using that assms(2) by (metis enumerates_def set_eq_iff_mset_eq_distinct)
    then have "mset (filter (\<lambda>g. g \<notin> set gvrs) ks') = mset (filter (\<lambda>g. g \<notin> set gvrs) ks)"
      by (metis mset_filter)
    from watches.stop_list_perm [OF inv this] c'(1) show ?thesis by (simp add: Prune_list)
  qed
  ultimately show ?thesis by (auto simp: watch_inv_def)
qed

lemma Register_fails_iff:
  "fst (Register frames g c) \<noteq> None \<longleftrightarrow> \<not> Exists g c \<and>
      (\<exists>i. rt_factory (wc_rt c) g = Some i \<and> inf_phase (rt_informers (wc_rt c) ! i) = Stopped)"
  by (auto simp: Register_def Exists_def makeInformer_def addHandlers_def AddEventHandler_def
      Let_def nth_append split: option.splits if_splits)

text \<open>
  \<open>Register\<close> fails exactly for a GVR that has no watch but whose informer has stopped; on
  success the GVR is watched. No other watch changes.
\<close>

theorem Register_outcome:
  "(fst (Register frames g c) \<noteq> None \<longleftrightarrow> \<not> Exists g c \<and>
      (\<exists>i. rt_factory (wc_rt c) g = Some i \<and> inf_phase (rt_informers (wc_rt c) ! i) = Stopped)) \<and>
   (Exists g (snd (Register frames g c)) \<longleftrightarrow> fst (Register frames g c) = None) \<and>
   (h = g \<or> wc_watches (snd (Register frames g c)) h = wc_watches c h)"
  by (auto simp: Register_def Exists_def makeInformer_def addHandlers_def AddEventHandler_def
      Start_def Watch_Start_def Let_def nth_append split: option.splits if_splits)

text \<open>
  Registering a GVR for the first time puts one handler on a new informer, whose \<open>Run\<close> the
  scheduler then starts on the watch's open channel: the watch is live.
\<close>

theorem Register_first_time:
  assumes "watch_reach c" and "rt_factory (wc_rt c) g = None"
  shows "\<exists>c' w ch. Register frames g c = (None, c') \<and> wc_watches c' g = Some w \<and> w_stopCh w = Some ch \<and>
    inf_handlers (rt_informers (wc_rt c') ! w_informer w) = 1 \<and>
    sched_step (wc_rt c') (run_begin (w_informer w, ch) (wc_rt c')) \<and>
    live g (c'\<lparr>wc_rt := run_begin (w_informer w, ch) (wc_rt c')\<rparr>)"
proof -
  have "wc_watches c g = None"
    using watch_invD [OF watch_reach_inv [OF assms(1)], of g] assms(2)
    by (cases "wc_watches c g") (auto simp: watch_wf_def)
  with assms(2) have "\<exists>c' w ch. Register frames g c = (None, c') \<and> wc_watches c' g = Some w \<and> w_stopCh w = Some ch \<and>
    inf_handlers (rt_informers (wc_rt c') ! w_informer w) = 1 \<and> (w_informer w, ch) \<in> set (rt_spawned (wc_rt c')) \<and>
    live g (c'\<lparr>wc_rt := run_begin (w_informer w, ch) (wc_rt c')\<rparr>)"
    by (auto simp: Register_def Exists_def makeInformer_def addHandlers_def AddEventHandler_def
      Start_def Watch_Start_def Let_def run_begin_def live_def NewWatch_def)
  then show ?thesis by (blast intro: sched_step.begins)
qed

text \<open>
  C22. A watch that was running and is pruned never runs again: whatever registrations, prunings
  and scheduling follow, no watch of that GVR is ever live, since the factory hands out the old
  informer, which runs at most once.
\<close>

theorem pruned_never_live_again:
  assumes "watch_reach c" and "live g c" and "enumerates ks (wc_watches c)"
    and "g \<notin> set gvrs" and "Prune ks gvrs c = Some c'" and "watch_step\<^sup>*\<^sup>* c' c''"
  shows "\<not> live g c''"
proof -
  have inv: "watch_inv c" using assms(1) by (rule watch_reach_inv)
  from assms(2) obtain w ch where w: "wc_watches c g = Some w" "w_stopCh w = Some ch"
    and run: "inf_phase (rt_informers (wc_rt c) ! w_informer w) = Running ch"
    by (auto simp: live_def split: option.splits)
  have fac: "rt_factory (wc_rt c) g = Some (w_informer w)" using watch_invD [OF inv w(1)] by (simp add: watch_wf_def)
  then have len: "w_informer w < length (rt_informers (wc_rt c))"
    using inv by (auto simp: watch_inv_def runtime_wf_def)
  have step: "watch_step c c'" using assms(3,5) by (rule watch_step.prune)
  have mono: "rt_mono (wc_rt c) (wc_rt c')" using step by (rule watch_step_mono)
  have "g \<in> set ks" using assms(3) w(1) by (auto simp: enumerates_def)
  then have "rt_closed (wc_rt c') ! ch"
    using stop_list_closed [OF inv assms(5) [unfolded Prune_list] w] assms(4) by simp
  moreover have "phase_le (Running ch) (inf_phase (rt_informers (wc_rt c') ! w_informer w))"
    "rt_factory (wc_rt c') g = Some (w_informer w)"
    using mono len run fac by (force simp: rt_mono_def)+
  ultimately have "burnt g c'" by (auto simp: burnt_def)
  with burnt_steps [OF assms(6)] watch_step_inv [OF step inv] burnt_not_live show ?thesis by blast
qed

text \<open>
  \<open>StartWithSync\<close> does not count the watch it adds, while \<open>Stop\<close> uncounts it: after the two
  the cache holds what it held and the gauge is one too low.
\<close>

theorem StartWithSync_uncounted:
  "\<exists>c' c''. StartWithSync True g i c = Some (None, c') \<and> Exists g c' \<and> Stop g c' = Some c'' \<and>
     wc_watches c'' = (wc_watches c)(g := None) \<and> wc_ActiveWatches c'' = wc_ActiveWatches c - 1"
  by (auto simp: StartWithSync_def Watch_StartWithSync_def Watch_Start_def NewWatch_def Exists_def
      Stop_def Watch_Stop_def close_chan_def Let_def)


section \<open>Witnesses\<close>

lemma reach_one: "watch_reach (snd (Register [] g NewWatchCache))"
  by (rule watch_reach.step [OF watch_reach.init watch_step.register])

definition pods :: gvr where
  "pods = GVR [] ''v1'' ''pods''"

definition pod_watch :: watch_cache where
  "pod_watch = snd (Register [] pods NewWatchCache)"

lemma pod_watch_eq: "pod_watch = \<lparr>
    wc_watches = [pods \<mapsto> \<lparr>w_gvr = pods, w_informer = 0, w_stopCh = Some 0, w_running = True\<rparr>],
    wc_ActiveWatches = 1,
    wc_rt = \<lparr>rt_closed = [False], rt_informers = [\<lparr>inf_gvr = pods, inf_phase = Idle, inf_handlers = 1\<rparr>],
      rt_factory = [pods \<mapsto> 0], rt_shuttingDown = False, rt_spawned = [(0, 0)]\<rparr>\<rparr>"
  by (simp add: pod_watch_def Register_def Exists_def NewWatchCache_def makeInformer_def addHandlers_def
      AddEventHandler_def Start_def Watch_Start_def NewWatch_def Let_def)

definition pod_running :: watch_cache where
  "pod_running = pod_watch\<lparr>wc_rt := run_begin (0, 0) (wc_rt pod_watch)\<rparr>"

lemma pod_running_reach: "watch_reach pod_running"
proof -
  have "sched_step (wc_rt pod_watch) (run_begin (0, 0) (wc_rt pod_watch))"
    by (rule sched_step.begins) (simp add: pod_watch_eq)
  from watch_reach.step [OF reach_one watch_step.sched] this show ?thesis
    unfolding pod_running_def pod_watch_def by blast
qed

theorem watch_cache_sound_witness: "wc_ActiveWatches pod_watch = int (card (dom (wc_watches pod_watch)))"
  using watch_cache_sound [OF reach_one [of pods]] by (simp add: pod_watch_def)

theorem Prune_exact_witness: "\<exists>c'. Prune [pods] [] pod_watch = Some c' \<and> wc_watches c' = Map.empty"
proof -
  have "enumerates [pods] (wc_watches pod_watch)" by (simp add: pod_watch_eq enumerates_def)
  then show ?thesis
    using Prune_exact [of pod_watch "[pods]" "[]"] reach_one by (auto simp: pod_watch_def restrict_map_def)
qed

theorem Register_first_time_witness: "fst (Register [] pods NewWatchCache) = None"
  using Register_first_time [OF watch_reach.init, of pods "[]"] by (auto simp: NewWatchCache_def)

theorem pruned_never_live_again_witness:
  "live pods pod_running \<and>
   (\<exists>c'. Prune [pods] [] pod_running = Some c' \<and> \<not> live pods (snd (Register [] pods c')))"
proof -
  have l: "live pods pod_running"
    by (simp add: live_def pod_running_def pod_watch_eq run_begin_def Let_def)
  have e: "enumerates [pods] (wc_watches pod_running)"
    by (simp add: pod_running_def pod_watch_eq enumerates_def)
  obtain c' where c': "Prune [pods] [] pod_running = Some c'"
    using Prune_inv [OF watch_reach_inv [OF pod_running_reach] e] by blast
  have "\<not> live pods (snd (Register [] pods c'))"
    by (rule pruned_never_live_again [OF pod_running_reach l e _ c'
          r_into_rtranclp [of watch_step, OF watch_step.register]]) simp
  with l c' show ?thesis by blast
qed

end
