(* ===== verification/Operations.thy ===== *)
theory Operations
  imports Api_Types
begin

text \<open>
  The operations on InFlightOperations (\<open>internal/watch/operations.go\<close>). The Kubernetes client and
  the system clock are parameters, gathered in \<open>sys\<close>: each client call is a function of its
  arguments and of the state of the API server, of an arbitrary type \<open>'w\<close>, and may fail in any
  way; the clock gives each reading its own instant. The environment \<open>env\<close> threads the server's
  state and records, in order, the calls the code makes and the metrics it observes, so that a
  property can speak of the calls whatever the server answers. What a server promises is
  \<open>server_ok\<close>, a hypothesis of the end-to-end properties only. Log lines are not modelled.
\<close>

section \<open>The API server and the clock\<close>

datatype api_call =
    CList labels | CCreate ifo | CUpdateStatus ifo | CDelete string | CDeleteAllOf labels

datatype metric =
    IncCreated string string | IncCompleted string string | ObsDuration string string int
  | IncEvalErrors string | ObsEvalDuration string int

record 'w sys =
  cl_List :: "labels \<Rightarrow> 'w \<Rightarrow> (goerr + ifo list) \<times> 'w"
  cl_Create :: "ifo \<Rightarrow> 'w \<Rightarrow> (goerr + ifo) \<times> 'w"
  cl_UpdateStatus :: "ifo \<Rightarrow> 'w \<Rightarrow> goerr option \<times> 'w"
  cl_Delete :: "string \<Rightarrow> 'w \<Rightarrow> goerr option \<times> 'w"
  cl_DeleteAllOf :: "labels \<Rightarrow> 'w \<Rightarrow> goerr option \<times> 'w"
  sys_clock :: "nat \<Rightarrow> time"
  sys_frames :: "string list"

record 'w env =
  en_world :: 'w
  en_calls :: "api_call list"
  en_ticks :: nat
  en_metrics :: "metric list"

definition call :: "api_call \<Rightarrow> ('w \<Rightarrow> 'r \<times> 'w) \<Rightarrow> 'w env \<Rightarrow> 'r \<times> 'w env" where
  "call c f e = (let (r, w) = f (en_world e) in (r, e\<lparr>en_world := w, en_calls := en_calls e @ [c]\<rparr>))"

definition client_List where "client_List sys sel = call (CList sel) (cl_List sys sel)"
definition client_Create where "client_Create sys op = call (CCreate op) (cl_Create sys op)"
definition client_UpdateStatus where
  "client_UpdateStatus sys op = call (CUpdateStatus op) (cl_UpdateStatus sys op)"
definition client_Delete where
  "client_Delete sys op = call (CDelete (ifo_Name op)) (cl_Delete sys (ifo_Name op))"
definition client_DeleteAllOf where
  "client_DeleteAllOf sys sel = call (CDeleteAllOf sel) (cl_DeleteAllOf sys sel)"

lemmas client_defs = client_List_def client_Create_def client_UpdateStatus_def client_Delete_def
  client_DeleteAllOf_def call_def

text \<open>\<open>time.Now()\<close> and a metric.\<close>

definition Now :: "'w sys \<Rightarrow> 'w env \<Rightarrow> time \<times> 'w env" where
  "Now sys e = (sys_clock sys (en_ticks e), e\<lparr>en_ticks := en_ticks e + 1\<rparr>)"

definition observe :: "metric \<Rightarrow> 'w env \<Rightarrow> 'w env" where
  "observe m e = e\<lparr>en_metrics := en_metrics e @ [m]\<rparr>"

text \<open>\<open>PastDebounceThreshold\<close> reads the clock only when the operation is complete.\<close>

definition past_debounce :: "'w sys \<Rightarrow> duration \<Rightarrow> ifo \<Rightarrow> 'w env \<Rightarrow> bool \<times> 'w env" where
  "past_debounce sys threshold op e =
     (if Complete op then (let (now, e) = Now sys e in (PastDebounceThreshold threshold now op, e))
      else (False, e))"

section \<open>Labels\<close>

definition subjectLabels :: "subject \<Rightarrow> labels" where
  "subjectLabels subj = [
     LabelSubjectUID \<mapsto> GetUID subj,
     LabelSubjectName \<mapsto> GetName subj,
     LabelSubjectNamespace \<mapsto> GetNamespace subj,
     LabelSubjectKind \<mapsto> GetKind subj]"

definition operationLabels :: "subject \<Rightarrow> string \<Rightarrow> ors \<Rightarrow> labels \<Rightarrow> labels" where
  "operationLabels subj operation ruleset dynamicLabels =
     (let ls = maps_Copy Map.empty dynamicLabels;
          ls = maps_Copy ls (os_Labels (ors_Spec ruleset));
          ls = maps_Copy ls (subjectLabels subj);
          ls = ls(LabelOperation \<mapsto> operation);
          ls = ls(LabelRuleSet \<mapsto> ors_Name ruleset);
          ls = ls(LabelComponent \<mapsto> os_Component (ors_Spec ruleset)) in
      case GetOwnerReferences subj of
        [] \<Rightarrow> ls
      | own # _ \<Rightarrow>
          (let gv = (case ParseGroupVersion (or_APIVersion own) of None \<Rightarrow> ([], []) | Some gv \<Rightarrow> gv) in
           ls(LabelOwnerUID \<mapsto> or_UID own, LabelOwnerName \<mapsto> or_Name own,
              LabelOwnerKind \<mapsto> or_Kind own, LabelOwnerGroup \<mapsto> fst gv,
              LabelOwnerVersion \<mapsto> snd gv)))"

text \<open>A \<open>SelectorFromSet\<close> requires each of its labels, with its value.\<close>

definition selects :: "labels \<Rightarrow> labels \<Rightarrow> bool" where
  "selects sel ls \<longleftrightarrow> sel \<subseteq>\<^sub>m ls"

section \<open>The operations\<close>

definition DeleteAll :: "'w sys \<Rightarrow> subject \<Rightarrow> 'w env \<Rightarrow> goerr option \<times> 'w env" where
  "DeleteAll sys subj e = client_DeleteAllOf sys (subjectLabels subj) e"

definition List_ops :: "'w sys \<Rightarrow> subject \<Rightarrow> 'w env \<Rightarrow> (goerr + ifo list) \<times> 'w env" where
  "List_ops sys subj e = client_List sys (subjectLabels subj) e"

definition Build :: "subject \<Rightarrow> string \<Rightarrow> ors \<Rightarrow> labels \<Rightarrow> ifo" where
  "Build subj operation ruleset dynamicLabels = \<lparr>
     ifo_Name = [],
     ifo_GenerateName = GetName subj @ ''-'',
     ifo_Labels = operationLabels subj operation ruleset dynamicLabels,
     ifo_CreationTimestamp = 0,
     ifo_Spec = \<lparr>
       is_Operation = operation,
       is_RuleSet = ors_Name ruleset,
       is_Component = os_Component (ors_Spec ruleset),
       is_Subject = \<lparr>
         sr_APIVersion = GetAPIVersion subj,
         sr_Kind = GetKind subj,
         sr_Name = GetName subj,
         sr_Namespace = GetNamespace subj,
         sr_UID = GetUID subj,
         sr_OwnerReferences = GetOwnerReferences subj\<rparr>\<rparr>,
     ifo_Status = empty_status\<rparr>"

definition newest_first :: "ifo \<Rightarrow> ifo \<Rightarrow> int" where
  "newest_first i j = time_Compare (ifo_CreationTimestamp i) (ifo_CreationTimestamp j) * - 1"

definition Ensure :: "'w sys \<Rightarrow> duration \<Rightarrow> ifo \<Rightarrow> 'w env \<Rightarrow> (goerr option + ifo) \<times> 'w env" where
  "Ensure sys threshold op e =
     (case client_List sys (ifo_Labels op) e of
        (Inl err, e) \<Rightarrow> (Inl (Wrap (sys_frames sys) (Some err) []), e)
      | (Inr items, e) \<Rightarrow>
          (let items = SortFunc newest_first items;
               (create, e) = (case items of [] \<Rightarrow> (True, e) | newest # _ \<Rightarrow> past_debounce sys threshold newest e) in
           if create then
             (case client_Create sys op e of
                (Inl err, e) \<Rightarrow> (Inl (Wrap (sys_frames sys) (Some err) []), e)
              | (Inr op, e) \<Rightarrow>
                  (Inr op, observe (IncCreated (sr_Kind (is_Subject (ifo_Spec op))) (is_Operation (ifo_Spec op))) e))
           else (Inr (hd items), e)))"

section \<open>What a server promises\<close>

text \<open>
  The documented behaviour of the API server on one resource type, on \<open>view w\<close>, the objects it
  stores: a list answers the objects the selector requires; a created object has a new name, the
  labels and spec of the request, and no status (it is a subresource); a status update replaces
  the status of the object of that name; the deletions remove what they name. A call that fails
  changes nothing.
\<close>

definition set_status :: "ifo \<Rightarrow> ifo \<Rightarrow> ifo" where
  "set_status op x = (if ifo_Name x = ifo_Name op then x\<lparr>ifo_Status := ifo_Status op\<rparr> else x)"

definition server_ok :: "'w sys \<Rightarrow> ('w \<Rightarrow> ifo set) \<Rightarrow> bool" where
  "server_ok sys view \<longleftrightarrow>
     (\<forall>w. inj_on ifo_Name (view w)) \<and>
     (\<forall>sel w. case cl_List sys sel w of
        (Inl _, w') \<Rightarrow> view w' = view w
      | (Inr items, w') \<Rightarrow> view w' = view w \<and> set items = {x \<in> view w. selects sel (ifo_Labels x)}) \<and>
     (\<forall>op w. case cl_Create sys op w of
        (Inl _, w') \<Rightarrow> view w' = view w
      | (Inr out, w') \<Rightarrow> view w' = insert out (view w) \<and> ifo_Name out \<notin> ifo_Name ` view w \<and>
          ifo_Labels out = ifo_Labels op \<and> ifo_Spec out = ifo_Spec op \<and> ifo_Status out = empty_status) \<and>
     (\<forall>op w. case cl_UpdateStatus sys op w of
        (Some _, w') \<Rightarrow> view w' = view w | (None, w') \<Rightarrow> view w' = set_status op ` view w) \<and>
     (\<forall>n w. case cl_Delete sys n w of
        (Some _, w') \<Rightarrow> view w' = view w | (None, w') \<Rightarrow> view w' = {x \<in> view w. ifo_Name x \<noteq> n}) \<and>
     (\<forall>sel w. case cl_DeleteAllOf sys sel w of
        (Some _, w') \<Rightarrow> view w' = view w
      | (None, w') \<Rightarrow> view w' = {x \<in> view w. \<not> selects sel (ifo_Labels x)})"

text \<open>No call fails.\<close>

definition never_fails :: "'w sys \<Rightarrow> bool" where
  "never_fails sys \<longleftrightarrow>
     (\<forall>sel w. \<exists>items w'. cl_List sys sel w = (Inr items, w')) \<and>
     (\<forall>op w. \<exists>out w'. cl_Create sys op w = (Inr out, w')) \<and>
     (\<forall>op w. \<exists>w'. cl_UpdateStatus sys op w = (None, w')) \<and>
     (\<forall>n w. \<exists>w'. cl_Delete sys n w = (None, w'))"

lemma server_names: "server_ok sys view \<Longrightarrow> inj_on ifo_Name (view w)"
  by (simp add: server_ok_def)

lemma server_List: "server_ok sys view \<Longrightarrow> cl_List sys sel w = (r, w') \<Longrightarrow> view w' = view w \<and>
    (case r of Inl _ \<Rightarrow> True | Inr items \<Rightarrow> set items = {x \<in> view w. selects sel (ifo_Labels x)})"
  unfolding server_ok_def by (drule conjunct2, drule conjunct1, drule spec [of _ sel], drule spec [of _ w])
    (simp split: sum.splits)

lemma server_Create: "server_ok sys view \<Longrightarrow> cl_Create sys op w = (r, w') \<Longrightarrow>
    (case r of Inl _ \<Rightarrow> view w' = view w
     | Inr out \<Rightarrow> view w' = insert out (view w) \<and> ifo_Name out \<notin> ifo_Name ` view w \<and>
          ifo_Labels out = ifo_Labels op \<and> ifo_Spec out = ifo_Spec op \<and> ifo_Status out = empty_status)"
  unfolding server_ok_def by (drule conjunct2, drule conjunct2, drule conjunct1, drule spec [of _ op], drule spec [of _ w])
    (simp split: sum.splits)

lemma server_UpdateStatus: "server_ok sys view \<Longrightarrow> cl_UpdateStatus sys op w = (r, w') \<Longrightarrow>
    view w' = (if r = None then set_status op ` view w else view w)"
  unfolding server_ok_def by (drule conjunct2, drule conjunct2, drule conjunct2, drule conjunct1,
    drule spec [of _ op], drule spec [of _ w]) (simp split: option.splits)

lemma server_Delete: "server_ok sys view \<Longrightarrow> cl_Delete sys n w = (r, w') \<Longrightarrow>
    view w' = (if r = None then {x \<in> view w. ifo_Name x \<noteq> n} else view w)"
  unfolding server_ok_def by (drule conjunct2, drule conjunct2, drule conjunct2, drule conjunct2, drule conjunct1,
    drule spec [of _ n], drule spec [of _ w]) (simp split: option.splits)

lemma server_DeleteAllOf: "server_ok sys view \<Longrightarrow> cl_DeleteAllOf sys sel w = (r, w') \<Longrightarrow>
    view w' = (if r = None then {x \<in> view w. \<not> selects sel (ifo_Labels x)} else view w)"
  unfolding server_ok_def by (drule conjunct2, drule conjunct2, drule conjunct2, drule conjunct2, drule conjunct2,
    drule spec [of _ sel], drule spec [of _ w]) (simp split: option.splits)

lemma set_status_name [simp]: "ifo_Name (set_status op x) = ifo_Name x"
  by (simp add: set_status_def)

lemma set_status_frame [simp]:
  "ifo_Labels (set_status op x) = ifo_Labels x" "ifo_Spec (set_status op x) = ifo_Spec x"
  by (simp_all add: set_status_def)

lemma fresh_long: "length n > sum_list (map (length \<circ> ifo_Name) w) \<Longrightarrow> n \<notin> ifo_Name ` set w"
proof
  assume long: "length n > sum_list (map (length \<circ> ifo_Name) w)" and "n \<in> ifo_Name ` set w"
  then obtain x where "x \<in> set w" "n = ifo_Name x" by auto
  then have "length n \<le> sum_list (map (length \<circ> ifo_Name) w)"
    using member_le_sum_list [of "length n" "map (length \<circ> ifo_Name) w"] by force
  with long show False by simp
qed

text \<open>A server kept in memory, as the instance of both.\<close>

typedef store = "{w :: ifo list. distinct (map ifo_Name w)}"
  by (rule exI [of _ "[]"]) simp

setup_lifting type_definition_store

lift_definition stored :: "store \<Rightarrow> ifo list" is "\<lambda>w. w" .

lift_definition empty_store :: store is "[]" by simp

definition new_object :: "ifo \<Rightarrow> ifo list \<Rightarrow> ifo" where
  "new_object op w = op\<lparr>
     ifo_Name := ifo_GenerateName op @ replicate (Suc (sum_list (map (length \<circ> ifo_Name) w))) CHR ''x'',
     ifo_CreationTimestamp := int (length w) + 1, ifo_Status := empty_status\<rparr>"

lemma new_object_name: "ifo_Name (new_object op w) \<notin> ifo_Name ` set w"
  by (rule fresh_long) (simp add: new_object_def)

lift_definition store_add :: "ifo \<Rightarrow> store \<Rightarrow> store" is "\<lambda>op w. w @ [new_object op w]"
  using new_object_name by auto

lift_definition store_set :: "ifo \<Rightarrow> store \<Rightarrow> store" is "\<lambda>op w. map (set_status op) w"
  by (simp add: comp_def)

lift_definition store_keep :: "(ifo \<Rightarrow> bool) \<Rightarrow> store \<Rightarrow> store" is filter
  by (simp add: distinct_map_filter)

definition mem_sys :: "(nat \<Rightarrow> time) \<Rightarrow> store sys" where
  "mem_sys clock = \<lparr>
     cl_List = (\<lambda>sel w. (Inr (filter (\<lambda>x. selects sel (ifo_Labels x)) (stored w)), w)),
     cl_Create = (\<lambda>op w. (Inr (new_object op (stored w)), store_add op w)),
     cl_UpdateStatus = (\<lambda>op w. (None, store_set op w)),
     cl_Delete = (\<lambda>n w. (None, store_keep (\<lambda>x. ifo_Name x \<noteq> n) w)),
     cl_DeleteAllOf = (\<lambda>sel w. (None, store_keep (\<lambda>x. \<not> selects sel (ifo_Labels x)) w)),
     sys_clock = clock,
     sys_frames = []\<rparr>"

definition mem_view :: "store \<Rightarrow> ifo set" where
  "mem_view w = set (stored w)"

lemma stored_simps [simp]:
  "stored empty_store = []" "stored (store_add op w) = stored w @ [new_object op (stored w)]"
  "stored (store_set op w) = map (set_status op) (stored w)" "stored (store_keep P w) = filter P (stored w)"
  by (transfer; simp)+

lemma distinct_stored: "distinct (map ifo_Name (stored w))"
  by transfer simp

lemma never_fails_mem: "never_fails (mem_sys clock)"
  by (simp add: never_fails_def mem_sys_def)

lemma server_ok_mem: "server_ok (mem_sys clock) mem_view"
  unfolding server_ok_def
  using new_object_name distinct_stored
  by (auto simp: mem_sys_def mem_view_def distinct_map) (simp_all add: new_object_def)

section \<open>Properties\<close>

text \<open>The label keys are pairwise distinct.\<close>

lemma label_keys_distinct: "distinct [LabelSubjectUID, LabelSubjectName, LabelSubjectNamespace, LabelSubjectKind, LabelOperation, LabelRuleSet, LabelComponent, LabelOwnerUID, LabelOwnerName, LabelOwnerKind, LabelOwnerGroup, LabelOwnerVersion]"
  by (simp add: Label_defs)

lemma label_neq [simp]:
  "LabelSubjectUID \<noteq> LabelSubjectName" "LabelSubjectName \<noteq> LabelSubjectUID"
  "LabelSubjectUID \<noteq> LabelSubjectNamespace" "LabelSubjectNamespace \<noteq> LabelSubjectUID"
  "LabelSubjectUID \<noteq> LabelSubjectKind" "LabelSubjectKind \<noteq> LabelSubjectUID"
  "LabelSubjectUID \<noteq> LabelOperation" "LabelOperation \<noteq> LabelSubjectUID"
  "LabelSubjectUID \<noteq> LabelRuleSet" "LabelRuleSet \<noteq> LabelSubjectUID"
  "LabelSubjectUID \<noteq> LabelComponent" "LabelComponent \<noteq> LabelSubjectUID"
  "LabelSubjectUID \<noteq> LabelOwnerUID" "LabelOwnerUID \<noteq> LabelSubjectUID"
  "LabelSubjectUID \<noteq> LabelOwnerName" "LabelOwnerName \<noteq> LabelSubjectUID"
  "LabelSubjectUID \<noteq> LabelOwnerKind" "LabelOwnerKind \<noteq> LabelSubjectUID"
  "LabelSubjectUID \<noteq> LabelOwnerGroup" "LabelOwnerGroup \<noteq> LabelSubjectUID"
  "LabelSubjectUID \<noteq> LabelOwnerVersion" "LabelOwnerVersion \<noteq> LabelSubjectUID"
  "LabelSubjectName \<noteq> LabelSubjectNamespace" "LabelSubjectNamespace \<noteq> LabelSubjectName"
  "LabelSubjectName \<noteq> LabelSubjectKind" "LabelSubjectKind \<noteq> LabelSubjectName"
  "LabelSubjectName \<noteq> LabelOperation" "LabelOperation \<noteq> LabelSubjectName"
  "LabelSubjectName \<noteq> LabelRuleSet" "LabelRuleSet \<noteq> LabelSubjectName"
  "LabelSubjectName \<noteq> LabelComponent" "LabelComponent \<noteq> LabelSubjectName"
  "LabelSubjectName \<noteq> LabelOwnerUID" "LabelOwnerUID \<noteq> LabelSubjectName"
  "LabelSubjectName \<noteq> LabelOwnerName" "LabelOwnerName \<noteq> LabelSubjectName"
  "LabelSubjectName \<noteq> LabelOwnerKind" "LabelOwnerKind \<noteq> LabelSubjectName"
  "LabelSubjectName \<noteq> LabelOwnerGroup" "LabelOwnerGroup \<noteq> LabelSubjectName"
  "LabelSubjectName \<noteq> LabelOwnerVersion" "LabelOwnerVersion \<noteq> LabelSubjectName"
  "LabelSubjectNamespace \<noteq> LabelSubjectKind" "LabelSubjectKind \<noteq> LabelSubjectNamespace"
  "LabelSubjectNamespace \<noteq> LabelOperation" "LabelOperation \<noteq> LabelSubjectNamespace"
  "LabelSubjectNamespace \<noteq> LabelRuleSet" "LabelRuleSet \<noteq> LabelSubjectNamespace"
  "LabelSubjectNamespace \<noteq> LabelComponent" "LabelComponent \<noteq> LabelSubjectNamespace"
  "LabelSubjectNamespace \<noteq> LabelOwnerUID" "LabelOwnerUID \<noteq> LabelSubjectNamespace"
  "LabelSubjectNamespace \<noteq> LabelOwnerName" "LabelOwnerName \<noteq> LabelSubjectNamespace"
  "LabelSubjectNamespace \<noteq> LabelOwnerKind" "LabelOwnerKind \<noteq> LabelSubjectNamespace"
  "LabelSubjectNamespace \<noteq> LabelOwnerGroup" "LabelOwnerGroup \<noteq> LabelSubjectNamespace"
  "LabelSubjectNamespace \<noteq> LabelOwnerVersion" "LabelOwnerVersion \<noteq> LabelSubjectNamespace"
  "LabelSubjectKind \<noteq> LabelOperation" "LabelOperation \<noteq> LabelSubjectKind"
  "LabelSubjectKind \<noteq> LabelRuleSet" "LabelRuleSet \<noteq> LabelSubjectKind"
  "LabelSubjectKind \<noteq> LabelComponent" "LabelComponent \<noteq> LabelSubjectKind"
  "LabelSubjectKind \<noteq> LabelOwnerUID" "LabelOwnerUID \<noteq> LabelSubjectKind"
  "LabelSubjectKind \<noteq> LabelOwnerName" "LabelOwnerName \<noteq> LabelSubjectKind"
  "LabelSubjectKind \<noteq> LabelOwnerKind" "LabelOwnerKind \<noteq> LabelSubjectKind"
  "LabelSubjectKind \<noteq> LabelOwnerGroup" "LabelOwnerGroup \<noteq> LabelSubjectKind"
  "LabelSubjectKind \<noteq> LabelOwnerVersion" "LabelOwnerVersion \<noteq> LabelSubjectKind"
  "LabelOperation \<noteq> LabelRuleSet" "LabelRuleSet \<noteq> LabelOperation"
  "LabelOperation \<noteq> LabelComponent" "LabelComponent \<noteq> LabelOperation"
  "LabelOperation \<noteq> LabelOwnerUID" "LabelOwnerUID \<noteq> LabelOperation"
  "LabelOperation \<noteq> LabelOwnerName" "LabelOwnerName \<noteq> LabelOperation"
  "LabelOperation \<noteq> LabelOwnerKind" "LabelOwnerKind \<noteq> LabelOperation"
  "LabelOperation \<noteq> LabelOwnerGroup" "LabelOwnerGroup \<noteq> LabelOperation"
  "LabelOperation \<noteq> LabelOwnerVersion" "LabelOwnerVersion \<noteq> LabelOperation"
  "LabelRuleSet \<noteq> LabelComponent" "LabelComponent \<noteq> LabelRuleSet"
  "LabelRuleSet \<noteq> LabelOwnerUID" "LabelOwnerUID \<noteq> LabelRuleSet"
  "LabelRuleSet \<noteq> LabelOwnerName" "LabelOwnerName \<noteq> LabelRuleSet"
  "LabelRuleSet \<noteq> LabelOwnerKind" "LabelOwnerKind \<noteq> LabelRuleSet"
  "LabelRuleSet \<noteq> LabelOwnerGroup" "LabelOwnerGroup \<noteq> LabelRuleSet"
  "LabelRuleSet \<noteq> LabelOwnerVersion" "LabelOwnerVersion \<noteq> LabelRuleSet"
  "LabelComponent \<noteq> LabelOwnerUID" "LabelOwnerUID \<noteq> LabelComponent"
  "LabelComponent \<noteq> LabelOwnerName" "LabelOwnerName \<noteq> LabelComponent"
  "LabelComponent \<noteq> LabelOwnerKind" "LabelOwnerKind \<noteq> LabelComponent"
  "LabelComponent \<noteq> LabelOwnerGroup" "LabelOwnerGroup \<noteq> LabelComponent"
  "LabelComponent \<noteq> LabelOwnerVersion" "LabelOwnerVersion \<noteq> LabelComponent"
  "LabelOwnerUID \<noteq> LabelOwnerName" "LabelOwnerName \<noteq> LabelOwnerUID"
  "LabelOwnerUID \<noteq> LabelOwnerKind" "LabelOwnerKind \<noteq> LabelOwnerUID"
  "LabelOwnerUID \<noteq> LabelOwnerGroup" "LabelOwnerGroup \<noteq> LabelOwnerUID"
  "LabelOwnerUID \<noteq> LabelOwnerVersion" "LabelOwnerVersion \<noteq> LabelOwnerUID"
  "LabelOwnerName \<noteq> LabelOwnerKind" "LabelOwnerKind \<noteq> LabelOwnerName"
  "LabelOwnerName \<noteq> LabelOwnerGroup" "LabelOwnerGroup \<noteq> LabelOwnerName"
  "LabelOwnerName \<noteq> LabelOwnerVersion" "LabelOwnerVersion \<noteq> LabelOwnerName"
  "LabelOwnerKind \<noteq> LabelOwnerGroup" "LabelOwnerGroup \<noteq> LabelOwnerKind"
  "LabelOwnerKind \<noteq> LabelOwnerVersion" "LabelOwnerVersion \<noteq> LabelOwnerKind"
  "LabelOwnerGroup \<noteq> LabelOwnerVersion" "LabelOwnerVersion \<noteq> LabelOwnerGroup"
  by (simp_all add: Label_defs)

lemma operationLabels_at [simp]:
  "operationLabels subj operation rs dyn LabelSubjectUID = Some (GetUID subj)"
  "operationLabels subj operation rs dyn LabelSubjectName = Some (GetName subj)"
  "operationLabels subj operation rs dyn LabelSubjectNamespace = Some (GetNamespace subj)"
  "operationLabels subj operation rs dyn LabelSubjectKind = Some (GetKind subj)"
  "operationLabels subj operation rs dyn LabelOperation = Some operation"
  "operationLabels subj operation rs dyn LabelRuleSet = Some (ors_Name rs)"
  "operationLabels subj operation rs dyn LabelComponent = Some (os_Component (ors_Spec rs))"
  by (simp_all add: operationLabels_def subjectLabels_def maps_Copy_def Let_def split: list.split)

text \<open>
  C19. The labels of an operation identify its subject: whatever the rule set's static labels and the
  label expressions say, the selector of a subject selects exactly the operations built for a
  subject of the same UID, name, namespace and kind; and the operation, rule set and component
  labels are those of the rule set.
\<close>

theorem labels_identify_subject:
  "(selects (subjectLabels t) (ifo_Labels (Build subj operation rs dyn)) \<longleftrightarrow>
      GetUID t = GetUID subj \<and> GetName t = GetName subj \<and> GetNamespace t = GetNamespace subj \<and>
      GetKind t = GetKind subj) \<and>
   ifo_Labels (Build subj operation rs dyn) LabelOperation = Some operation \<and>
   ifo_Labels (Build subj operation rs dyn) LabelRuleSet = Some (ors_Name rs) \<and>
   ifo_Labels (Build subj operation rs dyn) LabelComponent = Some (os_Component (ors_Spec rs))"
proof -
  have "selects (subjectLabels t) ls \<longleftrightarrow> ls LabelSubjectUID = Some (GetUID t) \<and>
      ls LabelSubjectName = Some (GetName t) \<and> ls LabelSubjectNamespace = Some (GetNamespace t) \<and>
      ls LabelSubjectKind = Some (GetKind t)" for ls
    by (auto simp: selects_def map_le_def subjectLabels_def)
  then show ?thesis by (auto simp: Build_def)
qed

text \<open>The labels the code sets itself, from the subject, the operation and the rule set.\<close>

definition builtin_keys :: "string set" where
  "builtin_keys = {LabelSubjectUID, LabelSubjectName, LabelSubjectNamespace, LabelSubjectKind,
     LabelOperation, LabelRuleSet, LabelComponent}"

definition owner_keys :: "string set" where
  "owner_keys = {LabelOwnerUID, LabelOwnerName, LabelOwnerKind, LabelOwnerGroup, LabelOwnerVersion}"

definition own_labels :: "subject \<Rightarrow> string \<Rightarrow> string \<Rightarrow> string \<Rightarrow> labels" where
  "own_labels subj operation rs_name component =
     (let ls = (subjectLabels subj)(LabelOperation \<mapsto> operation, LabelRuleSet \<mapsto> rs_name, LabelComponent \<mapsto> component) in
      case GetOwnerReferences subj of
        [] \<Rightarrow> ls
      | own # _ \<Rightarrow>
          (let gv = (case ParseGroupVersion (or_APIVersion own) of None \<Rightarrow> ([], []) | Some gv \<Rightarrow> gv) in
           ls(LabelOwnerUID \<mapsto> or_UID own, LabelOwnerName \<mapsto> or_Name own,
              LabelOwnerKind \<mapsto> or_Kind own, LabelOwnerGroup \<mapsto> fst gv,
              LabelOwnerVersion \<mapsto> snd gv)))"

lemma operationLabels_layers:
  "operationLabels subj operation rs dyn =
     dyn ++ os_Labels (ors_Spec rs) ++ own_labels subj operation (ors_Name rs) (os_Component (ors_Spec rs))"
  by (simp add: operationLabels_def own_labels_def maps_Copy_def Let_def split: list.split)

lemma dom_own_labels: "k \<in> dom (own_labels subj operation nm cmpt) \<longleftrightarrow>
    k \<in> builtin_keys \<or> k \<in> owner_keys \<and> GetOwnerReferences subj \<noteq> []"
proof -
  have "dom (own_labels subj operation nm cmpt) =
      builtin_keys \<union> (if GetOwnerReferences subj = [] then {} else owner_keys)"
    unfolding own_labels_def Let_def subjectLabels_def builtin_keys_def owner_keys_def
    by (cases "GetOwnerReferences subj") (simp_all add: insert_commute)
  then show ?thesis by auto
qed

lemma operationLabels_other:
  assumes "k \<notin> builtin_keys" and "k \<notin> owner_keys \<or> GetOwnerReferences subj = []"
  shows "operationLabels subj operation rs dyn k =
    (case os_Labels (ors_Spec rs) k of Some v \<Rightarrow> Some v | None \<Rightarrow> dyn k)"
proof -
  have "own_labels subj operation (ors_Name rs) (os_Component (ors_Spec rs)) k = None"
    using assms dom_own_labels [of k subj operation] by (metis domIff)
  then show ?thesis by (simp add: operationLabels_layers map_add_def)
qed

lemma operationLabels_builtin:
  assumes "k \<in> builtin_keys \<or> k \<in> owner_keys \<and> GetOwnerReferences subj \<noteq> []"
    and "ors_Name rs' = ors_Name rs" and "os_Component (ors_Spec rs') = os_Component (ors_Spec rs)"
  shows "operationLabels subj operation rs dyn k = operationLabels subj operation rs' dyn' k"
  using assms(1) dom_own_labels [of k subj operation "ors_Name rs" "os_Component (ors_Spec rs)"]
  by (auto simp: operationLabels_layers assms(2,3) map_add_def)

text \<open>
  Which label wins: the ones the code sets never depend on the static labels or the label
  expressions; on every other key a static label hides a dynamic one.
\<close>

theorem label_precedence:
  assumes "ors_Name rs' = ors_Name rs" and "os_Component (ors_Spec rs') = os_Component (ors_Spec rs)"
  shows "operationLabels subj operation rs dyn k =
    (if k \<in> builtin_keys \<or> k \<in> owner_keys \<and> GetOwnerReferences subj \<noteq> []
     then operationLabels subj operation rs' dyn' k
     else case os_Labels (ors_Spec rs) k of Some v \<Rightarrow> Some v | None \<Rightarrow> dyn k)"
  using operationLabels_other [of k subj operation rs dyn] operationLabels_builtin [OF _ assms] by auto

theorem label_precedence_witness:
  "operationLabels JNull ''Migrating'' (example_ors ''vm'' (GVR [] [] []) []) [''team'' \<mapsto> ''a''] ''team'' = Some ''a''"
  using label_precedence [of "example_ors ''vm'' (GVR [] [] []) []" "example_ors ''vm'' (GVR [] [] []) []"
      JNull "''Migrating''" "[''team'' \<mapsto> ''a'']" "''team''"]
  by (simp add: example_ors_def builtin_keys_def owner_keys_def Label_defs)

interpretation newest: comparator newest_first
  by unfold_locales (auto simp: newest_first_def time_Compare_def split: if_splits)

lemma newest_first_le: "newest_first x y \<le> 0 \<longleftrightarrow> ifo_CreationTimestamp y \<le> ifo_CreationTimestamp x"
  by (auto simp: newest_first_def time_Compare_def)

lemma newest_head:
  assumes "SortFunc newest_first items = y # ys"
  shows "y \<in> set items \<and> (\<forall>x \<in> set items. ifo_CreationTimestamp x \<le> ifo_CreationTimestamp y)"
proof -
  have "y \<in> set items" using assms by (metis list.set_intros(1) set_SortFunc)
  then show ?thesis
    using newest.SortFunc_head_least [OF assms] newest_first_le by blast
qed

lemma past_debounce_result:
  "fst (past_debounce sys th op e) = PastDebounceThreshold th (sys_clock sys (en_ticks e)) op"
  by (simp add: past_debounce_def Now_def PastDebounceThreshold_def)

lemma past_debounce_frame [frame_simps]:
  "past_debounce sys th op e = (b, e') \<Longrightarrow> en_calls e' = en_calls e \<and> en_world e' = en_world e \<and>
     en_metrics e' = en_metrics e"
  by (auto simp: past_debounce_def Now_def split: if_splits)

text \<open>
  C15. \<open>Ensure\<close> makes one list call with the operation's labels; if something is listed, it hands out
  one of the newest items and creates nothing, unless that item is past the debounce threshold;
  otherwise it makes exactly one create call, for the operation it was given.
\<close>

theorem Ensure_newest:
  assumes "cl_List sys (ifo_Labels op) (en_world e) = (Inr items, w)"
    and "Ensure sys th op e = (r, e')"
  shows "(\<exists>y \<in> set items. r = Inr y \<and> en_calls e' = en_calls e @ [CList (ifo_Labels op)] \<and>
        (\<forall>x \<in> set items. ifo_CreationTimestamp x \<le> ifo_CreationTimestamp y) \<and>
        \<not> PastDebounceThreshold th (sys_clock sys (en_ticks e)) y) \<or>
     en_calls e' = en_calls e @ [CList (ifo_Labels op), CCreate op] \<and>
        (items = [] \<or> (\<exists>y \<in> set items. (\<forall>x \<in> set items. ifo_CreationTimestamp x \<le> ifo_CreationTimestamp y) \<and>
          PastDebounceThreshold th (sys_clock sys (en_ticks e)) y))"
proof -
  let ?e1 = "e\<lparr>en_world := w, en_calls := en_calls e @ [CList (ifo_Labels op)]\<rparr>"
  have l: "client_List sys (ifo_Labels op) e = (Inr items, ?e1)"
    by (simp add: client_defs assms(1))
  have created: "en_calls e' = en_calls e @ [CList (ifo_Labels op), CCreate op]"
    if "(case client_Create sys op e2 of (Inl err, e) \<Rightarrow> (Inl (Wrap (sys_frames sys) (Some err) []), e)
         | (Inr op, e) \<Rightarrow> (Inr op, observe (IncCreated (sr_Kind (is_Subject (ifo_Spec op))) (is_Operation (ifo_Spec op))) e)) = (r, e')"
      "en_calls e2 = en_calls ?e1" for e2 :: "'a env"
    using that by (auto simp: client_defs observe_def split: prod.splits sum.splits)
  show ?thesis
  proof (cases "SortFunc newest_first items")
    case Nil
    with assms(2) l created [of ?e1] show ?thesis by (auto simp: Ensure_def)
  next
    case (Cons y ys)
    obtain b e2 where pd: "past_debounce sys th y ?e1 = (b, e2)" by force
    have b: "b = PastDebounceThreshold th (sys_clock sys (en_ticks e)) y"
      using past_debounce_result [of sys th y ?e1] pd by simp
    have e2: "en_calls e2 = en_calls ?e1" using past_debounce_frame [OF pd] by simp
    show ?thesis
      using assms(2) l Cons pd b e2 newest_head [OF Cons] created [of e2]
      by (cases b) (auto simp: Ensure_def)
  qed
qed

theorem Ensure_newest_witness:
  "en_calls (snd (Ensure (mem_sys (\<lambda>_. 0)) 0 (Build JNull ''Migrating'' (example_ors ''vm'' (GVR [] [] []) []) Map.empty)
      \<lparr>en_world = empty_store, en_calls = [], en_ticks = 0, en_metrics = []\<rparr>)) =
   [CList (ifo_Labels (Build JNull ''Migrating'' (example_ors ''vm'' (GVR [] [] []) []) Map.empty)),
    CCreate (Build JNull ''Migrating'' (example_ors ''vm'' (GVR [] [] []) []) Map.empty)]"
proof -
  let ?op = "Build JNull ''Migrating'' (example_ors ''vm'' (GVR [] [] []) []) Map.empty"
  let ?e = "\<lparr>en_world = empty_store, en_calls = [], en_ticks = 0, en_metrics = []\<rparr>"
  have l: "cl_List (mem_sys (\<lambda>_. 0)) (ifo_Labels ?op) (en_world ?e) = (Inr [], empty_store)"
    by (simp add: mem_sys_def)
  from Ensure_newest [OF l, of 0] show ?thesis by (metis append_Nil empty_iff env.select_convs(2) list.set(1) prod.collapse)
qed

text \<open>
  An active operation is not found again when a label expression answers another value: with a
  server that behaves as documented, and an active operation of the same subject, rule set and
  operation in the store, \<open>Ensure\<close> creates a second one, because its selector holds the dynamic
  labels too.
\<close>

theorem relabelled_operation_duplicated:
  assumes "server_ok sys view" and "never_fails sys"
    and "x \<in> view (en_world e)" and "ifo_Labels x = operationLabels subj operation rs dyn"
    and "view (en_world e) = {x}"
    and "k \<notin> builtin_keys" "k \<notin> owner_keys" "os_Labels (ors_Spec rs) k = None" "dyn' k = Some v" "dyn k \<noteq> Some v"
    and "Ensure sys th (Build subj operation rs dyn') e = (r, e')"
  shows "\<exists>y. view (en_world e') = {x, y} \<and> y \<noteq> x \<and> is_Operation (ifo_Spec y) = operation \<and>
    ifo_Labels y LabelSubjectUID = ifo_Labels x LabelSubjectUID"
proof -
  let ?op = "Build subj operation rs dyn'"
  have "ifo_Labels ?op k = Some v" "ifo_Labels x k = dyn k"
    using assms(4,6-9) by (simp_all add: Build_def operationLabels_other)
  then have "\<not> selects (ifo_Labels ?op) (ifo_Labels x)"
    using assms(10) unfolding selects_def map_le_def by force
  moreover obtain items w where l: "cl_List sys (ifo_Labels ?op) (en_world e) = (Inr items, w)"
    using assms(2) unfolding never_fails_def by blast
  ultimately have "set items = {}" "view w = {x}"
    using server_List [OF assms(1) l] assms(5) by auto
  then have items: "items = []" "view w = {x}" by simp_all
  obtain out w' where c: "cl_Create sys ?op w = (Inr out, w')"
    using assms(2) unfolding never_fails_def by blast
  have out: "view w' = insert out (view w) \<and> ifo_Name out \<notin> ifo_Name ` view w \<and>
      ifo_Labels out = ifo_Labels ?op \<and> ifo_Spec out = ifo_Spec ?op"
    using server_Create [OF assms(1) c] by simp
  have "Ensure sys th ?op e = (Inr out, e') \<and> en_world e' = w'"
    using assms(11) l c items(1) by (auto simp: Ensure_def client_defs SortFunc_def observe_def)
  with out items(2) assms(4) show ?thesis
    by (intro exI [of _ out]) (auto simp: Build_def)
qed

text \<open>An environment whose server stores one operation of each of the given ones, built in order.\<close>

definition start_env :: "ifo list \<Rightarrow> store env" where
  "start_env ops = \<lparr>en_world = foldl (\<lambda>w op. store_add op w) empty_store ops, en_calls = [], en_ticks = 0,
     en_metrics = []\<rparr>"

theorem relabelled_operation_duplicated_witness:
  "\<exists>y. mem_view (en_world (snd (Ensure (mem_sys (\<lambda>_. 0)) 0
        (Build JNull ''Migrating'' (example_ors ''vm'' (GVR [] [] []) []) [''node'' \<mapsto> ''b''])
        (start_env [Build JNull ''Migrating'' (example_ors ''vm'' (GVR [] [] []) []) [''node'' \<mapsto> ''a'']])))) =
     {new_object (Build JNull ''Migrating'' (example_ors ''vm'' (GVR [] [] []) []) [''node'' \<mapsto> ''a'']) [], y} \<and>
   y \<noteq> new_object (Build JNull ''Migrating'' (example_ors ''vm'' (GVR [] [] []) []) [''node'' \<mapsto> ''a'']) []"
proof -
  let ?rs = "example_ors ''vm'' (GVR [] [] []) []"
  let ?op = "Build JNull ''Migrating'' ?rs [''node'' \<mapsto> ''a'']"
  have v: "mem_view (en_world (start_env [?op])) = {new_object ?op []}"
    by (simp add: mem_view_def start_env_def)
  obtain r e' where e: "Ensure (mem_sys (\<lambda>_. 0)) 0 (Build JNull ''Migrating'' ?rs [''node'' \<mapsto> ''b'']) (start_env [?op]) = (r, e')"
    by force
  have "\<exists>y. mem_view (en_world e') = {new_object ?op [], y} \<and> y \<noteq> new_object ?op [] \<and>
      is_Operation (ifo_Spec y) = ''Migrating'' \<and>
      ifo_Labels y LabelSubjectUID = ifo_Labels (new_object ?op []) LabelSubjectUID"
  proof (rule relabelled_operation_duplicated [OF server_ok_mem never_fails_mem _ _ v _ _ _ _ _ e,
        where k = "''node''" and v = "''b''"])
    show "new_object ?op [] \<in> mem_view (en_world (start_env [?op]))" by (simp only: v insertI1)
    show "ifo_Labels (new_object ?op []) = operationLabels JNull ''Migrating'' ?rs [''node'' \<mapsto> ''a'']"
      by (simp add: new_object_def Build_def)
    show "''node'' \<notin> builtin_keys" "''node'' \<notin> owner_keys"
      by (simp_all add: builtin_keys_def owner_keys_def Label_defs)
    show "os_Labels (ors_Spec ?rs) ''node'' = None" by (simp add: example_ors_def)
    show "[''node'' \<mapsto> ''a''] ''node'' \<noteq> Some ''b''" by simp
    show "[''node'' \<mapsto> ''b''] ''node'' = Some ''b''" by simp
  qed
  with e show ?thesis by auto
qed

end
