(* ===== verification/Program_Cache.thy ===== *)
theory Program_Cache
  imports Errors "HOL-Library.Mapping"
begin

text \<open>
  The cache of compiled CEL programs (\<open>internal/evaluator/program_cache.go\<close>). The CEL library is
  a parameter: compiling an expression, building a program from the checked tree and evaluating
  a program on the variable \<open>object\<close>, each a function of its arguments. The cache is a finite
  map and the metric \<open>ProgramCacheSize\<close>.

  \<open>GetOrCompile\<close> is modelled twice: as the sequential function its callers see, and as the two
  critical sections it consists of (a lookup under the read lock, then a second lookup, the
  compilation and the insertion under the write lock), interleaved between any number of
  goroutines by a step relation.
\<close>

section \<open>The CEL library\<close>

datatype cel_value = VBool bool | VString string | VOther string string

record ('ast, 'prog, 'obj) cel_lib =
  cel_Compile :: "string \<Rightarrow> goerr + 'ast"
  cel_Program :: "'ast \<Rightarrow> goerr + 'prog"
  cel_Eval :: "'prog \<Rightarrow> 'obj \<Rightarrow> goerr + cel_value"

section \<open>The cache\<close>

record 'prog program_cache =
  pc_programs :: "(string, 'prog) mapping"
  pc_ProgramCacheSize :: nat

definition NewProgramCache :: "'prog program_cache" where
  "NewProgramCache = \<lparr>pc_programs = Mapping.empty, pc_ProgramCacheSize = 0\<rparr>"

text \<open>What the write-locked half does after its second lookup has missed.\<close>

definition compile_insert ::
  "('ast, 'prog, 'obj) cel_lib \<Rightarrow> string \<Rightarrow> 'prog program_cache \<Rightarrow> (goerr + 'prog) \<times> 'prog program_cache"
where
  "compile_insert cel expression c =
     (case cel_Compile cel expression of
        Inl err \<Rightarrow> (Inl err, c)
      | Inr ast \<Rightarrow>
          (case cel_Program cel ast of
             Inl err \<Rightarrow> (Inl err, c)
           | Inr prog \<Rightarrow>
               (let ps = Mapping.update expression prog (pc_programs c) in
                (Inr prog, c\<lparr>pc_programs := ps, pc_ProgramCacheSize := Mapping.size ps\<rparr>))))"

definition GetOrCompile ::
  "('ast, 'prog, 'obj) cel_lib \<Rightarrow> string \<Rightarrow> 'prog program_cache \<Rightarrow> (goerr + 'prog) \<times> 'prog program_cache"
where
  "GetOrCompile cel expression c =
     (case Mapping.lookup (pc_programs c) expression of
        Some prog \<Rightarrow> (Inr prog, c)
      | None \<Rightarrow>
          (case Mapping.lookup (pc_programs c) expression of
             Some prog \<Rightarrow> (Inr prog, c)
           | None \<Rightarrow> compile_insert cel expression c))"

text \<open>The reference: compile every time.\<close>

definition compiled :: "('ast, 'prog, 'obj) cel_lib \<Rightarrow> string \<Rightarrow> goerr + 'prog" where
  "compiled cel expression =
     (case cel_Compile cel expression of Inl err \<Rightarrow> Inl err | Inr ast \<Rightarrow> cel_Program cel ast)"

text \<open>The cache holds what compiling would give, and its gauge counts its entries.\<close>

definition cache_ok :: "('ast, 'prog, 'obj) cel_lib \<Rightarrow> 'prog program_cache \<Rightarrow> bool" where
  "cache_ok cel c \<longleftrightarrow>
     (\<forall>e p. Mapping.lookup (pc_programs c) e = Some p \<longrightarrow> compiled cel e = Inr p) \<and>
     pc_ProgramCacheSize c = Mapping.size (pc_programs c)"

lemma cache_ok_New [simp]: "cache_ok cel NewProgramCache"
  by (simp add: cache_ok_def NewProgramCache_def)

lemma compile_insert_result: "fst (compile_insert cel e c) = compiled cel e"
  by (simp add: compile_insert_def compiled_def Let_def split: sum.split)

lemma compile_insert_lookup:
  "Mapping.lookup (pc_programs (snd (compile_insert cel e c))) x =
     (if x = e then (case compiled cel e of Inl _ \<Rightarrow> Mapping.lookup (pc_programs c) e | Inr p \<Rightarrow> Some p)
      else Mapping.lookup (pc_programs c) x)"
  by (auto simp: compile_insert_def compiled_def Let_def lookup_update' split: sum.split)

lemma compile_insert_ok: "cache_ok cel c \<Longrightarrow> cache_ok cel (snd (compile_insert cel e c))"
  by (auto simp: cache_ok_def compile_insert_def compiled_def Let_def lookup_update'
      split: sum.splits if_splits)

lemma compile_insert_Inl:
  "compile_insert cel e c = (Inl err, c') \<Longrightarrow> c' = c \<and> compiled cel e = Inl err"
  by (simp add: compile_insert_def compiled_def Let_def split: sum.splits)

lemma compile_insert_Inr:
  assumes "compile_insert cel e c = (Inr p, c')"
  shows "compiled cel e = Inr p"
    and "Mapping.lookup (pc_programs c') x = (if x = e then Some p else Mapping.lookup (pc_programs c) x)"
    and "cache_ok cel c \<Longrightarrow> cache_ok cel c'"
proof -
  show res: "compiled cel e = Inr p"
    using assms compile_insert_result [of cel e c] by simp
  show "Mapping.lookup (pc_programs c') x = (if x = e then Some p else Mapping.lookup (pc_programs c) x)"
    using assms compile_insert_lookup [of cel e c x] by (simp add: res)
  show "cache_ok cel c \<Longrightarrow> cache_ok cel c'"
    using assms compile_insert_ok [of cel c e] by simp
qed

lemma GetOrCompile_result: "cache_ok cel c \<Longrightarrow> fst (GetOrCompile cel e c) = compiled cel e"
  by (auto simp: GetOrCompile_def compile_insert_result cache_ok_def split: option.split)

lemma GetOrCompile_ok: "cache_ok cel c \<Longrightarrow> cache_ok cel (snd (GetOrCompile cel e c))"
  by (simp add: GetOrCompile_def compile_insert_ok split: option.split)

lemma GetOrCompile_pair:
  "cache_ok cel c \<Longrightarrow> \<exists>c'. GetOrCompile cel e c = (compiled cel e, c') \<and> cache_ok cel c'"
  using GetOrCompile_result [of cel c e] GetOrCompile_ok [of cel c e]
  by (cases "GetOrCompile cel e c") auto

section \<open>Concurrent callers\<close>

text \<open>
  A goroutine that calls \<open>GetOrCompile\<close> has not looked yet, has missed under the read lock, or
  has returned. \<open>ps_inserts\<close> is a history variable: how often an expression was compiled
  and inserted.
\<close>

datatype 'prog caller = Calling | Missed | Returned "goerr + 'prog"

record 'prog pool =
  ps_cache :: "'prog program_cache"
  ps_expr :: "nat \<Rightarrow> string"
  ps_callers :: "nat \<Rightarrow> 'prog caller"
  ps_inserts :: "string \<Rightarrow> nat"

definition start_pool :: "(nat \<Rightarrow> string) \<Rightarrow> 'prog pool" where
  "start_pool exprs = \<lparr>ps_cache = NewProgramCache, ps_expr = exprs, ps_callers = (\<lambda>_. Calling),
     ps_inserts = (\<lambda>_. 0)\<rparr>"

inductive pool_step :: "('ast, 'prog, 'obj) cel_lib \<Rightarrow> 'prog pool \<Rightarrow> 'prog pool \<Rightarrow> bool"
  for cel :: "('ast, 'prog, 'obj) cel_lib"
where
  read_hit:
    "ps_callers s i = Calling \<Longrightarrow>
     Mapping.lookup (pc_programs (ps_cache s)) (ps_expr s i) = Some prog \<Longrightarrow>
     pool_step cel s (s\<lparr>ps_callers := (ps_callers s)(i := Returned (Inr prog))\<rparr>)"
| read_miss:
    "ps_callers s i = Calling \<Longrightarrow>
     Mapping.lookup (pc_programs (ps_cache s)) (ps_expr s i) = None \<Longrightarrow>
     pool_step cel s (s\<lparr>ps_callers := (ps_callers s)(i := Missed)\<rparr>)"
| write_hit:
    "ps_callers s i = Missed \<Longrightarrow>
     Mapping.lookup (pc_programs (ps_cache s)) (ps_expr s i) = Some prog \<Longrightarrow>
     pool_step cel s (s\<lparr>ps_callers := (ps_callers s)(i := Returned (Inr prog))\<rparr>)"
| write_fail:
    "ps_callers s i = Missed \<Longrightarrow>
     Mapping.lookup (pc_programs (ps_cache s)) (ps_expr s i) = None \<Longrightarrow>
     compile_insert cel (ps_expr s i) (ps_cache s) = (Inl err, c) \<Longrightarrow>
     pool_step cel s (s\<lparr>ps_cache := c, ps_callers := (ps_callers s)(i := Returned (Inl err))\<rparr>)"
| write_insert:
    "ps_callers s i = Missed \<Longrightarrow>
     Mapping.lookup (pc_programs (ps_cache s)) (ps_expr s i) = None \<Longrightarrow>
     compile_insert cel (ps_expr s i) (ps_cache s) = (Inr prog, c) \<Longrightarrow>
     pool_step cel s (s\<lparr>ps_cache := c, ps_callers := (ps_callers s)(i := Returned (Inr prog)),
       ps_inserts := (ps_inserts s)(ps_expr s i := Suc (ps_inserts s (ps_expr s i)))\<rparr>)"

inductive_cases pool_stepE: "pool_step cel s t"

inductive pool_reach :: "('ast, 'prog, 'obj) cel_lib \<Rightarrow> (nat \<Rightarrow> string) \<Rightarrow> 'prog pool \<Rightarrow> bool"
  for cel exprs
where
  pool_start: "pool_reach cel exprs (start_pool exprs)"
| pool_next: "pool_reach cel exprs s \<Longrightarrow> pool_step cel s t \<Longrightarrow> pool_reach cel exprs t"

definition pool_inv :: "('ast, 'prog, 'obj) cel_lib \<Rightarrow> (nat \<Rightarrow> string) \<Rightarrow> 'prog pool \<Rightarrow> bool" where
  "pool_inv cel exprs s \<longleftrightarrow>
     ps_expr s = exprs \<and> cache_ok cel (ps_cache s) \<and>
     (\<forall>i r. ps_callers s i = Returned r \<longrightarrow> r = compiled cel (exprs i)) \<and>
     (\<forall>e. ps_inserts s e = (if Mapping.lookup (pc_programs (ps_cache s)) e = None then 0 else 1))"

lemma pool_inv_start: "pool_inv cel exprs (start_pool exprs)"
  by (simp add: pool_inv_def start_pool_def NewProgramCache_def cache_ok_def)

lemma pool_inv_step:
  assumes "pool_step cel s t" and inv: "pool_inv cel exprs s"
  shows "pool_inv cel exprs t"
  using assms(1)
proof cases
  case (read_hit i prog)
  then show ?thesis using inv by (auto simp: pool_inv_def cache_ok_def)
next
  case (read_miss i)
  then show ?thesis using inv by (auto simp: pool_inv_def)
next
  case (write_hit i prog)
  then show ?thesis using inv by (auto simp: pool_inv_def cache_ok_def)
next
  case (write_fail i err c)
  from compile_insert_Inl [OF write_fail(4)] have c: "c = ps_cache s"
    and res: "compiled cel (ps_expr s i) = Inl err" by simp_all
  show ?thesis using inv res by (auto simp: pool_inv_def write_fail(1) c)
next
  case (write_insert i prog c)
  note ins = compile_insert_Inr [OF write_insert(4)]
  show ?thesis using inv ins(1,3) write_insert(3)
    by (auto simp: pool_inv_def write_insert(1) ins(2))
qed

lemma pool_reach_inv: "pool_reach cel exprs s \<Longrightarrow> pool_inv cel exprs s"
  by (induction rule: pool_reach.induct) (auto intro: pool_inv_start pool_inv_step)

section \<open>Properties\<close>

text \<open>
  C13. Whatever the interleaving of concurrent callers, every call that has returned answers what
  compiling its expression afresh answers, and no expression is compiled and inserted twice.
\<close>
theorem concurrent_cache_correct:
  assumes "pool_reach cel exprs s"
  shows "(ps_callers s i = Returned r \<longrightarrow> r = compiled cel (exprs i)) \<and> ps_inserts s e \<le> 1"
  using pool_reach_inv [OF assms] by (auto simp: pool_inv_def)

definition echo_lib :: "(string, string, 'obj) cel_lib" where
  "echo_lib = \<lparr>cel_Compile = (\<lambda>e. if e = [] then Inl (Plain ''syntax error'') else Inr e),
     cel_Program = Inr, cel_Eval = (\<lambda>p _. Inr (VBool (p = ''true'')))\<rparr>"

theorem concurrent_cache_correct_witness:
  "\<exists>s. pool_reach (echo_lib :: (string, string, unit) cel_lib) (\<lambda>_. ''true'') s \<and>
     ps_callers s 0 = Returned (Inr ''true'') \<and> ps_inserts s ''true'' \<le> 1"
proof -
  let ?l = "echo_lib :: (string, string, unit) cel_lib"
  let ?s0 = "start_pool (\<lambda>_. ''true'') :: string pool"
  let ?s1 = "?s0\<lparr>ps_callers := (ps_callers ?s0)(0 := Missed)\<rparr>"
  let ?c = "snd (compile_insert ?l ''true'' NewProgramCache)"
  let ?s2 = "?s1\<lparr>ps_cache := ?c, ps_callers := (ps_callers ?s1)(0 := Returned (Inr ''true'')),
       ps_inserts := (ps_inserts ?s1)(''true'' := 1)\<rparr>"
  have "pool_step ?l ?s0 ?s1"
    by (rule read_miss) (simp_all add: start_pool_def NewProgramCache_def)
  moreover have "pool_step ?l ?s1 ?s2"
    using write_insert [of ?s1 0 ?l "''true''" ?c]
    by (simp add: start_pool_def NewProgramCache_def compile_insert_def echo_lib_def Let_def)
  ultimately have "pool_reach ?l (\<lambda>_. ''true'') ?s2"
    by (meson pool_start pool_next)
  then show ?thesis
    using concurrent_cache_correct [of ?l "\<lambda>_. ''true''" ?s2 0 "Inr ''true''" "''true''"] by fastforce
qed

end
