(* ===== verification/Evaluator.thy ===== *)
theory Evaluator
  imports Program_Cache Api_Types
begin

text \<open>
  The CEL evaluator (\<open>internal/evaluator/evaluator.go\<close>): compiling, evaluating one rule to a
  boolean, one label expression to a string, and a whole rule set, with the program cache threaded
  through every call. The interface \<open>Evaluator\<close>, on which the watcher and the reconciler rely, is
  the locale \<open>evaluator_iface\<close>; its interpretation shows that the cache never changes an answer.
\<close>

section \<open>The evaluator\<close>

record ruleset_result =
  rr_RuleSet :: ors
  rr_Operations :: "string list"
  rr_Labels :: labels

type_synonym ('ast, 'prog) cel = "('ast, 'prog, json) cel_lib"

definition Compile ::
  "('ast, 'prog) cel \<Rightarrow> string \<Rightarrow> 'prog program_cache \<Rightarrow> goerr option \<times> 'prog program_cache"
where
  "Compile cel expression c =
     (case GetOrCompile cel expression c of
        (Inl err, c) \<Rightarrow> (Some err, c)
      | (Inr _, c) \<Rightarrow> (None, c))"

text \<open>The \<open>%v\<close> and \<open>%T\<close> of a value in the type errors.\<close>

fun value_v :: "cel_value \<Rightarrow> string" where
  "value_v (VBool b) = (if b then ''true'' else ''false'')"
| "value_v (VString s) = s"
| "value_v (VOther v t) = v"

fun value_T :: "cel_value \<Rightarrow> string" where
  "value_T (VBool b) = ''bool''"
| "value_T (VString s) = ''string''"
| "value_T (VOther v t) = t"

definition type_error :: "string \<Rightarrow> cel_value \<Rightarrow> goerr" where
  "type_error what v = Plain (what @ '', got: '' @ value_v v @ '' (type: '' @ value_T v @ '')'')"

definition Evaluate ::
  "string list \<Rightarrow> ('ast, 'prog) cel \<Rightarrow> subject \<Rightarrow> rule \<Rightarrow> 'prog program_cache \<Rightarrow>
     (bool \<times> goerr option) \<times> 'prog program_cache"
where
  "Evaluate frames cel subj ru c =
     (case GetOrCompile cel (ru_Expression ru) c of
        (Inl err, c) \<Rightarrow> ((False, Wrap frames (Some err) []), c)
      | (Inr prog, c) \<Rightarrow>
          (case cel_Eval cel prog subj of
             Inl err \<Rightarrow> ((False, Wrap frames (Some err) []), c)
           | Inr out \<Rightarrow>
               (case out of
                  VBool b \<Rightarrow> ((b, None), c)
                | _ \<Rightarrow> ((False, Some (type_error ''expression did not return a boolean value'' out)), c))))"

definition EvaluateLabelExpression ::
  "string list \<Rightarrow> ('ast, 'prog) cel \<Rightarrow> subject \<Rightarrow> string \<Rightarrow> 'prog program_cache \<Rightarrow>
     (string \<times> goerr option) \<times> 'prog program_cache"
where
  "EvaluateLabelExpression frames cel subj expression c =
     (case GetOrCompile cel expression c of
        (Inl err, c) \<Rightarrow> (([], Wrap frames (Some err) []), c)
      | (Inr prog, c) \<Rightarrow>
          (case cel_Eval cel prog subj of
             Inl err \<Rightarrow> (([], Wrap frames (Some err) []), c)
           | Inr out \<Rightarrow>
               (case out of
                  VString s \<Rightarrow> ((s, None), c)
                | _ \<Rightarrow> (([], Some (type_error ''label expression did not return a string value'' out)), c))))"

text \<open>The rule loop of \<open>EvaluateRuleSet\<close>; the first failing rule ends it.\<close>

fun rules_loop ::
  "string list \<Rightarrow> ('ast, 'prog) cel \<Rightarrow> subject \<Rightarrow> rule list \<Rightarrow> string list \<Rightarrow> 'prog program_cache \<Rightarrow>
     (string list \<times> goerr option) \<times> 'prog program_cache"
where
  "rules_loop frames cel subj [] opers c = ((opers, None), c)"
| "rules_loop frames cel subj (ru # rus) opers c =
     (case Evaluate frames cel subj ru c of
        ((matched, Some err), c) \<Rightarrow> ((opers, Wrap frames (Some err) []), c)
      | ((matched, None), c) \<Rightarrow>
          rules_loop frames cel subj rus (if matched then opers @ [ru_Operation ru] else opers) c)"

text \<open>The label loop: an expression that fails is skipped.\<close>

fun labels_loop ::
  "string list \<Rightarrow> ('ast, 'prog) cel \<Rightarrow> subject \<Rightarrow> label_expression list \<Rightarrow> labels \<Rightarrow> 'prog program_cache \<Rightarrow>
     labels \<times> 'prog program_cache"
where
  "labels_loop frames cel subj [] ls c = (ls, c)"
| "labels_loop frames cel subj (le # les) ls c =
     (case EvaluateLabelExpression frames cel subj (le_Expression le) c of
        ((v, Some err), c) \<Rightarrow> labels_loop frames cel subj les ls c
      | ((v, None), c) \<Rightarrow> labels_loop frames cel subj les (ls(le_Key le \<mapsto> v)) c)"

definition EvaluateRuleSet ::
  "string list \<Rightarrow> ('ast, 'prog) cel \<Rightarrow> subject \<Rightarrow> ors \<Rightarrow> 'prog program_cache \<Rightarrow>
     (ruleset_result \<times> goerr option) \<times> 'prog program_cache"
where
  "EvaluateRuleSet frames cel subj ruleset c =
     (let ((opers, err), c) = rules_loop frames cel subj (Rules ruleset) [] c;
          result = \<lparr>rr_RuleSet = ruleset, rr_Operations = opers, rr_Labels = Map.empty\<rparr> in
      if err \<noteq> None then ((result, err), c)
      else
        let (ls, c) = labels_loop frames cel subj (os_LabelExpressions (ors_Spec ruleset)) Map.empty c in
        ((result\<lparr>rr_Labels := ls\<rparr>, None), c))"

section \<open>The reference without a cache\<close>

definition rule_value :: "('ast, 'prog) cel \<Rightarrow> subject \<Rightarrow> string \<Rightarrow> goerr + cel_value" where
  "rule_value cel subj expression =
     (case compiled cel expression of Inl err \<Rightarrow> Inl err | Inr prog \<Rightarrow> cel_Eval cel prog subj)"

text \<open>The truth value of a rule, if it has one.\<close>

definition rule_holds :: "('ast, 'prog) cel \<Rightarrow> subject \<Rightarrow> rule \<Rightarrow> bool option" where
  "rule_holds cel subj ru =
     (case rule_value cel subj (ru_Expression ru) of Inr (VBool b) \<Rightarrow> Some b | _ \<Rightarrow> None)"

definition label_value :: "('ast, 'prog) cel \<Rightarrow> subject \<Rightarrow> label_expression \<Rightarrow> string option" where
  "label_value cel subj le =
     (case rule_value cel subj (le_Expression le) of Inr (VString s) \<Rightarrow> Some s | _ \<Rightarrow> None)"

fun ref_labels :: "('ast, 'prog) cel \<Rightarrow> subject \<Rightarrow> label_expression list \<Rightarrow> labels \<Rightarrow> labels" where
  "ref_labels cel subj [] ls = ls"
| "ref_labels cel subj (le # les) ls =
     ref_labels cel subj les
       (case label_value cel subj le of None \<Rightarrow> ls | Some v \<Rightarrow> ls(le_Key le \<mapsto> v))"

text \<open>The rules before the first one without a truth value.\<close>

definition decided :: "('ast, 'prog) cel \<Rightarrow> subject \<Rightarrow> rule list \<Rightarrow> rule list" where
  "decided cel subj rus = takeWhile (\<lambda>ru. rule_holds cel subj ru \<noteq> None) rus"

definition matching :: "('ast, 'prog) cel \<Rightarrow> subject \<Rightarrow> rule list \<Rightarrow> string list" where
  "matching cel subj rus = map ru_Operation (filter (\<lambda>ru. rule_holds cel subj ru = Some True) rus)"

lemma Evaluate_ref:
  assumes "cache_ok cel c"
  shows "\<exists>err c'. Evaluate frames cel subj ru c = ((rule_holds cel subj ru = Some True, err), c') \<and>
    cache_ok cel c' \<and> (err = None \<longleftrightarrow> rule_holds cel subj ru \<noteq> None)"
proof -
  from GetOrCompile_pair [OF assms, of "ru_Expression ru"] obtain c'
    where "GetOrCompile cel (ru_Expression ru) c = (compiled cel (ru_Expression ru), c')" "cache_ok cel c'"
    by blast
  then show ?thesis
    by (auto simp: Evaluate_def rule_holds_def rule_value_def split: sum.split cel_value.split)
qed

lemma EvaluateLabelExpression_ref:
  assumes "cache_ok cel c"
  shows "\<exists>v err c'. EvaluateLabelExpression frames cel subj (le_Expression le) c = ((v, err), c') \<and>
    cache_ok cel c' \<and> (case err of None \<Rightarrow> label_value cel subj le = Some v | Some _ \<Rightarrow> label_value cel subj le = None)"
proof -
  from GetOrCompile_pair [OF assms, of "le_Expression le"] obtain c'
    where "GetOrCompile cel (le_Expression le) c = (compiled cel (le_Expression le), c')" "cache_ok cel c'"
    by blast
  moreover have "\<exists>w. Wrap frames (Some e) [] = Some w" for e
    by (cases "Wrap frames (Some e) []") auto
  ultimately show ?thesis
    by (auto simp: EvaluateLabelExpression_def label_value_def rule_value_def
        split: sum.split cel_value.split option.split)
qed

lemma rules_loop_ref:
  "cache_ok cel c \<Longrightarrow>
   \<exists>err c'. rules_loop frames cel subj rus opers c =
       ((opers @ matching cel subj (decided cel subj rus), err), c') \<and> cache_ok cel c' \<and>
     (err = None \<longleftrightarrow> (\<forall>ru \<in> set rus. rule_holds cel subj ru \<noteq> None))"
proof (induction rus arbitrary: opers c)
  case Nil
  then show ?case by (simp add: matching_def decided_def)
next
  case (Cons ru rus)
  from Evaluate_ref [OF Cons.prems] obtain err c'
    where ev: "Evaluate frames cel subj ru c = ((rule_holds cel subj ru = Some True, err), c')"
      "cache_ok cel c'" "err = None \<longleftrightarrow> rule_holds cel subj ru \<noteq> None"
    by blast
  show ?case
  proof (cases err)
    case None
    with ev(3) obtain b where b: "rule_holds cel subj ru = Some b" by blast
    from Cons.IH [OF ev(2), of "if b then opers @ [ru_Operation ru] else opers"] b None ev(1)
    show ?thesis by (cases b) (auto simp: matching_def decided_def)
  next
    case (Some e)
    with ev show ?thesis by (auto simp: matching_def decided_def)
  qed
qed

lemma labels_loop_ref:
  "cache_ok cel c \<Longrightarrow>
   \<exists>c'. labels_loop frames cel subj les ls c = (ref_labels cel subj les ls, c') \<and> cache_ok cel c'"
proof (induction les arbitrary: ls c)
  case Nil
  then show ?case by simp
next
  case (Cons le les)
  from EvaluateLabelExpression_ref [OF Cons.prems] obtain v err c'
    where ev: "EvaluateLabelExpression frames cel subj (le_Expression le) c = ((v, err), c')" "cache_ok cel c'"
      "case err of None \<Rightarrow> label_value cel subj le = Some v | Some _ \<Rightarrow> label_value cel subj le = None"
    by blast
  with Cons.IH [OF ev(2)] show ?case by (cases err) auto
qed

text \<open>What \<open>EvaluateRuleSet\<close> answers, without reference to the cache.\<close>

definition ref_result :: "('ast, 'prog) cel \<Rightarrow> subject \<Rightarrow> ors \<Rightarrow> ruleset_result" where
  "ref_result cel subj ruleset = \<lparr>rr_RuleSet = ruleset,
     rr_Operations = matching cel subj (decided cel subj (Rules ruleset)),
     rr_Labels = (if \<forall>ru \<in> set (Rules ruleset). rule_holds cel subj ru \<noteq> None
       then ref_labels cel subj (os_LabelExpressions (ors_Spec ruleset)) Map.empty else Map.empty)\<rparr>"

definition ruleset_evaluates :: "('ast, 'prog) cel \<Rightarrow> subject \<Rightarrow> ors \<Rightarrow> bool" where
  "ruleset_evaluates cel subj ruleset \<longleftrightarrow> (\<forall>ru \<in> set (Rules ruleset). rule_holds cel subj ru \<noteq> None)"

lemma EvaluateRuleSet_ref:
  assumes "cache_ok cel c"
  shows "\<exists>err c'. EvaluateRuleSet frames cel subj ruleset c = ((ref_result cel subj ruleset, err), c') \<and>
    cache_ok cel c' \<and> (err = None \<longleftrightarrow> ruleset_evaluates cel subj ruleset)"
proof -
  from rules_loop_ref [OF assms, of frames subj "Rules ruleset" "[]"] obtain err c1
    where r: "rules_loop frames cel subj (Rules ruleset) [] c =
        ((matching cel subj (decided cel subj (Rules ruleset)), err), c1)"
      "cache_ok cel c1" "err = None \<longleftrightarrow> ruleset_evaluates cel subj ruleset"
    unfolding ruleset_evaluates_def by auto
  from labels_loop_ref [OF r(2), of frames subj "os_LabelExpressions (ors_Spec ruleset)" Map.empty]
  obtain c2 where l: "labels_loop frames cel subj (os_LabelExpressions (ors_Spec ruleset)) Map.empty c1 =
      (ref_labels cel subj (os_LabelExpressions (ors_Spec ruleset)) Map.empty, c2)" "cache_ok cel c2"
    by blast
  show ?thesis
    using r l by (cases err) (auto simp: EvaluateRuleSet_def ref_result_def ruleset_evaluates_def)
qed

lemma Compile_ref:
  assumes "cache_ok cel c"
  shows "\<exists>err c'. Compile cel e c = (err, c') \<and> cache_ok cel c' \<and>
    (err = None \<longleftrightarrow> (\<exists>prog. compiled cel e = Inr prog))"
  using GetOrCompile_pair [OF assms, of e] by (auto simp: Compile_def split: sum.split)

section \<open>The interface \<open>Evaluator\<close>\<close>

text \<open>
  What the watcher and the reconciler rely on: the answers do not depend on the hidden state, a
  good state stays good, and a rule set whose expressions all compile can only fail at evaluation.
\<close>

locale evaluator_iface =
  fixes comp :: "string \<Rightarrow> 's \<Rightarrow> goerr option \<times> 's"
    and eval_ruleset :: "subject \<Rightarrow> ors \<Rightarrow> 's \<Rightarrow> (ruleset_result \<times> goerr option) \<times> 's"
    and good :: "'s \<Rightarrow> bool"
    and answer :: "subject \<Rightarrow> ors \<Rightarrow> ruleset_result"
    and succeeds :: "subject \<Rightarrow> ors \<Rightarrow> bool"
    and compiles :: "string \<Rightarrow> bool"
  assumes comp_spec: "good s \<Longrightarrow> \<exists>err s'. comp e s = (err, s') \<and> good s' \<and> (err = None \<longleftrightarrow> compiles e)"
    and eval_spec: "good s \<Longrightarrow> \<exists>err s'. eval_ruleset subj r s = ((answer subj r, err), s') \<and> good s' \<and>
      (err = None \<longleftrightarrow> succeeds subj r)"
    and succeeds_compiles: "succeeds subj r \<Longrightarrow> ru \<in> set (Rules r) \<Longrightarrow> compiles (ru_Expression ru)"
    and answer_ruleset: "rr_RuleSet (answer subj r) = r"
begin

text \<open>A pass over several expressions that stops at the first failure, as the validation does.\<close>

fun comp_all :: "string list \<Rightarrow> 's \<Rightarrow> goerr option \<times> 's" where
  "comp_all [] s = (None, s)"
| "comp_all (e # es) s = (case comp e s of (Some err, s) \<Rightarrow> (Some err, s) | (None, s) \<Rightarrow> comp_all es s)"

lemma comp_all_spec:
  "good s \<Longrightarrow> \<exists>err s'. comp_all es s = (err, s') \<and> good s' \<and> (err = None \<longleftrightarrow> (\<forall>e \<in> set es. compiles e))"
proof (induction es arbitrary: s)
  case Nil
  then show ?case by simp
next
  case (Cons e es)
  from comp_spec [OF Cons.prems, of e] obtain err s'
    where "comp e s = (err, s')" "good s'" "err = None \<longleftrightarrow> compiles e" by blast
  with Cons.IH [of s'] show ?case by (cases err) auto
qed

text \<open>A pass over several rule sets that keeps the results of those that evaluate.\<close>

fun eval_all :: "subject \<Rightarrow> ors list \<Rightarrow> 's \<Rightarrow> ruleset_result list \<times> 's" where
  "eval_all subj [] s = ([], s)"
| "eval_all subj (r # rs) s =
     (case eval_ruleset subj r s of
        ((res, Some err), s) \<Rightarrow> eval_all subj rs s
      | ((res, None), s) \<Rightarrow> (case eval_all subj rs s of (ress, s) \<Rightarrow> (res # ress, s)))"

lemma eval_all_spec:
  "good s \<Longrightarrow> \<exists>s'. eval_all subj rs s = (map (answer subj) (filter (succeeds subj) rs), s') \<and> good s'"
proof (induction rs arbitrary: s)
  case Nil
  then show ?case by simp
next
  case (Cons r rs)
  from eval_spec [OF Cons.prems, of subj r] obtain err s'
    where e: "eval_ruleset subj r s = ((answer subj r, err), s')" "good s'" "err = None \<longleftrightarrow> succeeds subj r"
    by blast
  from Cons.IH [OF e(2)] obtain s''
    where "eval_all subj rs s' = (map (answer subj) (filter (succeeds subj) rs), s'')" "good s''" by blast
  with e show ?case by (cases err) auto
qed

end

lemma rule_holds_compiled: "rule_holds cel subj ru \<noteq> None \<Longrightarrow> \<exists>prog. compiled cel (ru_Expression ru) = Inr prog"
  by (auto simp: rule_holds_def rule_value_def split: sum.splits)

interpretation celEvaluator: evaluator_iface "Compile cel" "EvaluateRuleSet frames cel" "cache_ok cel"
    "ref_result cel" "ruleset_evaluates cel" "\<lambda>e. \<exists>prog. compiled cel e = Inr prog"
  for frames cel
proof (unfold_locales, goal_cases)
  case (1 s e)
  then show ?case by (rule Compile_ref)
next
  case (2 s subj r)
  then show ?case by (rule EvaluateRuleSet_ref)
next
  case (3 subj r ru)
  then show ?case unfolding ruleset_evaluates_def by (blast intro: rule_holds_compiled)
next
  case (4 subj r)
  then show ?case by (simp add: ref_result_def)
qed

section \<open>Properties\<close>

lemma matching_decided_all:
  "\<forall>ru \<in> set rus. rule_holds cel subj ru \<noteq> None \<Longrightarrow> matching cel subj (decided cel subj rus) = matching cel subj rus"
  unfolding decided_def by (subst takeWhile_eq_all_conv [THEN iffD2]) auto

text \<open>
  C12. Evaluating a rule set through a good cache succeeds exactly when every rule has a truth
  value; the operations are then those of the rules that hold, in the order of the rules, and the
  labels come from the label expressions that yield strings, later ones overwriting earlier ones.
  The cache stays good.
\<close>
theorem EvaluateRuleSet_correct:
  assumes "cache_ok cel c" and "EvaluateRuleSet frames cel subj rs c = ((result, err), c')"
  shows "(err = None \<longleftrightarrow> (\<forall>ru \<in> set (Rules rs). rule_holds cel subj ru \<noteq> None)) \<and>
    (err = None \<longrightarrow> rr_Operations result = matching cel subj (Rules rs) \<and>
       rr_Labels result = ref_labels cel subj (os_LabelExpressions (ors_Spec rs)) Map.empty) \<and>
    cache_ok cel c'"
  using EvaluateRuleSet_ref [OF assms(1), of frames subj rs] assms(2)
  by (auto simp: ruleset_evaluates_def ref_result_def matching_decided_all)

theorem EvaluateRuleSet_correct_witness:
  "rr_Operations (fst (fst (EvaluateRuleSet [] echo_lib JNull
     (example_ors ''vm'' (GVR [] [] []) [\<lparr>ru_Operation = ''Migrating'', ru_Expression = ''true''\<rparr>,
        \<lparr>ru_Operation = ''Starting'', ru_Expression = ''false''\<rparr>]) NewProgramCache))) = [''Migrating'']"
proof -
  let ?rs = "example_ors ''vm'' (GVR [] [] []) [\<lparr>ru_Operation = ''Migrating'', ru_Expression = ''true''\<rparr>,
        \<lparr>ru_Operation = ''Starting'', ru_Expression = ''false''\<rparr>]"
  obtain res err c' where e: "EvaluateRuleSet [] echo_lib JNull ?rs NewProgramCache = ((res, err), c')"
    by (metis prod.collapse)
  have "rule_holds echo_lib JNull ru = Some (ru_Expression ru = ''true'')" if "ru_Expression ru \<noteq> []" for ru
    using that by (simp add: rule_holds_def rule_value_def compiled_def echo_lib_def)
  then show ?thesis
    using EvaluateRuleSet_correct [OF cache_ok_New e] e
    by (auto simp: example_ors_def Rules_def matching_def)
qed

text \<open>
  An expression that does not compile, does not evaluate, or does not yield a boolean makes the
  whole rule set fail; the operations found before it are still in the returned result, and no
  label is.
\<close>
theorem EvaluateRuleSet_error:
  assumes "cache_ok cel c" and "Rules rs = good @ bad # rest"
    and "\<forall>ru \<in> set good. rule_holds cel subj ru \<noteq> None" and "rule_holds cel subj bad = None"
  shows "\<exists>err c'. EvaluateRuleSet frames cel subj rs c =
    ((\<lparr>rr_RuleSet = rs, rr_Operations = matching cel subj good, rr_Labels = Map.empty\<rparr>, Some err), c')"
proof -
  have "decided cel subj (Rules rs) = good"
    using assms(2-4) by (simp add: decided_def takeWhile_append2)
  moreover have fails: "\<not> (\<forall>ru \<in> set (Rules rs). rule_holds cel subj ru \<noteq> None)"
    using assms(2,4) by auto
  ultimately have "ref_result cel subj rs = \<lparr>rr_RuleSet = rs, rr_Operations = matching cel subj good,
      rr_Labels = Map.empty\<rparr>"
    unfolding ref_result_def by (simp only: if_False)
  then show ?thesis
    using EvaluateRuleSet_ref [OF assms(1), of frames subj rs] fails
    unfolding ruleset_evaluates_def by (metis not_Some_eq)
qed

theorem EvaluateRuleSet_error_witness:
  "\<exists>err c'. EvaluateRuleSet [] echo_lib JNull
     (example_ors ''vm'' (GVR [] [] []) [\<lparr>ru_Operation = ''Migrating'', ru_Expression = ''true''\<rparr>,
        \<lparr>ru_Operation = ''Starting'', ru_Expression = []\<rparr>]) NewProgramCache =
    ((\<lparr>rr_RuleSet = example_ors ''vm'' (GVR [] [] []) [\<lparr>ru_Operation = ''Migrating'', ru_Expression = ''true''\<rparr>,
        \<lparr>ru_Operation = ''Starting'', ru_Expression = []\<rparr>],
       rr_Operations = [''Migrating''], rr_Labels = Map.empty\<rparr>, Some err), c')"
proof -
  let ?rs = "example_ors ''vm'' (GVR [] [] []) [\<lparr>ru_Operation = ''Migrating'', ru_Expression = ''true''\<rparr>,
        \<lparr>ru_Operation = ''Starting'', ru_Expression = []\<rparr>]"
  have "Rules ?rs = [\<lparr>ru_Operation = ''Migrating'', ru_Expression = ''true''\<rparr>] @
      \<lparr>ru_Operation = ''Starting'', ru_Expression = []\<rparr> # []"
    by (simp add: Rules_def example_ors_def)
  from EvaluateRuleSet_error [OF cache_ok_New this, of echo_lib JNull "[]"]
  show ?thesis
    by (simp add: rule_holds_def rule_value_def compiled_def echo_lib_def matching_def)
qed

end
