(* ===== verification/Watcher.thy ===== *)
theory Watcher
  imports Rule_Cache Watch_Cache Operations Evaluator
begin

text \<open>
  The event handlers (\<open>handle\<close>, \<open>handleDelete\<close>, \<open>markCompleted\<close>, \<open>cleanupCompleted\<close> and the
  pruning of \<open>internal/watch/watcher.go\<close>). An event carries a subject or some other object (a
  \<open>DeletedFinalStateUnknown\<close> tombstone), which the handlers ignore. The rule sets are read once,
  under the rule cache's lock, at the beginning of \<open>handle\<close>; the evaluator's cache and the
  environment are threaded through. The error of an evaluation is logged and then overwritten by
  that of the list call, so the first loop does not return it.
\<close>

datatype event_obj = ObjSubject subject | ObjOther

section \<open>Completion\<close>

definition markCompleted :: "'w sys \<Rightarrow> subject \<Rightarrow> ifo \<Rightarrow> 'w env \<Rightarrow> ifo \<times> 'w env" where
  "markCompleted sys subj op e =
     (let (now, e) = Now sys e;
          op = MarkCompleted now subj op in
      case client_UpdateStatus sys op e of
        (Some err, e) \<Rightarrow> (op, e)
      | (None, e) \<Rightarrow>
          (let kind = sr_Kind (is_Subject (ifo_Spec op));
               operation = is_Operation (ifo_Spec op);
               e = observe (IncCompleted kind operation) e;
               (now, e) = Now sys e in
           (op, observe (ObsDuration kind operation (now - ifo_CreationTimestamp op)) e)))"

definition cleanupCompleted :: "'w sys \<Rightarrow> settings \<Rightarrow> ifo \<Rightarrow> 'w env \<Rightarrow> 'w env" where
  "cleanupCompleted sys st op e = (if RetainCompletedIFOs st then e else snd (client_Delete sys op e))"

section \<open>The handler\<close>

fun eval_loop ::
  "'w sys \<Rightarrow> ('ast, 'prog) cel \<Rightarrow> subject \<Rightarrow> ors list \<Rightarrow> ruleset_result list \<times> (string \<rightharpoonup> bool) \<Rightarrow>
     'prog program_cache \<Rightarrow> 'w env \<Rightarrow> (ruleset_result list \<times> (string \<rightharpoonup> bool)) \<times> 'prog program_cache \<times> 'w env"
where
  "eval_loop sys cel subj [] acc pc e = (acc, pc, e)"
| "eval_loop sys cel subj (ruleset # rulesets) (results, detected) pc e =
     (if \<not> AppliesTo ruleset subj then eval_loop sys cel subj rulesets (results, detected) pc e
      else
        (let (evalStart, e) = Now sys e;
             ((result, err), pc) = EvaluateRuleSet (sys_frames sys) cel subj ruleset pc;
             (now, e) = Now sys e;
             e = observe (ObsEvalDuration (ors_Name ruleset) (now - evalStart)) e in
         if err \<noteq> None then
           eval_loop sys cel subj rulesets (results, detected) pc (observe (IncEvalErrors (ors_Name ruleset)) e)
         else
           eval_loop sys cel subj rulesets
             (results @ [result], foldl (\<lambda>d operation. d(operation \<mapsto> True)) detected (rr_Operations result)) pc e))"

definition complete_one ::
  "'w sys \<Rightarrow> settings \<Rightarrow> subject \<Rightarrow> (string \<rightharpoonup> bool) \<Rightarrow> ifo \<Rightarrow> 'w env \<Rightarrow> 'w env"
where
  "complete_one sys st subj detected op e =
     (let (past, e) = past_debounce sys (DebounceThreshold st) op e in
      if \<not> past then
        (case detected (is_Operation (ifo_Spec op)) of
           None \<Rightarrow>
             (let (op, e) = markCompleted sys subj op e in
              cleanupCompleted sys st op e)
         | Some _ \<Rightarrow> e)
      else e)"

fun complete_loop ::
  "'w sys \<Rightarrow> settings \<Rightarrow> subject \<Rightarrow> (string \<rightharpoonup> bool) \<Rightarrow> ifo list \<Rightarrow> 'w env \<Rightarrow> 'w env"
where
  "complete_loop sys st subj detected [] e = e"
| "complete_loop sys st subj detected (op # items) e =
     complete_loop sys st subj detected items (complete_one sys st subj detected op e)"

definition ensure_one ::
  "'w sys \<Rightarrow> settings \<Rightarrow> subject \<Rightarrow> ruleset_result \<Rightarrow> string \<Rightarrow> 'w env \<Rightarrow> goerr option \<times> 'w env"
where
  "ensure_one sys st subj result operation e =
     (let op = Build subj operation (rr_RuleSet result) (rr_Labels result) in
      case Ensure sys (DebounceThreshold st) op e of
        (Inl err, e) \<Rightarrow> (err, e)
      | (Inr op, e) \<Rightarrow>
          (let (now, e) = Now sys e;
               op = MarkDetection now subj [ors_Name (rr_RuleSet result)] op;
               (err, e) = client_UpdateStatus sys op e in
           if err \<noteq> None then (Wrap (sys_frames sys) err [], e) else (None, e)))"

fun ensure_ops ::
  "'w sys \<Rightarrow> settings \<Rightarrow> subject \<Rightarrow> ruleset_result \<Rightarrow> string list \<Rightarrow> goerr option \<Rightarrow> 'w env \<Rightarrow>
     goerr option \<times> 'w env"
where
  "ensure_ops sys st subj result [] err e = (err, e)"
| "ensure_ops sys st subj result (operation # opers) err e =
     (let (err, e) = ensure_one sys st subj result operation e in
      ensure_ops sys st subj result opers err e)"

fun ensure_results ::
  "'w sys \<Rightarrow> settings \<Rightarrow> subject \<Rightarrow> ruleset_result list \<Rightarrow> goerr option \<Rightarrow> 'w env \<Rightarrow> goerr option \<times> 'w env"
where
  "ensure_results sys st subj [] err e = (err, e)"
| "ensure_results sys st subj (result # results) err e =
     (let (err, e) = ensure_ops sys st subj result (rr_Operations result) err e in
      ensure_results sys st subj results err e)"

definition handle ::
  "'w sys \<Rightarrow> settings \<Rightarrow> ('ast, 'prog) cel \<Rightarrow> rule_cache \<Rightarrow> event_obj \<Rightarrow> gvr \<Rightarrow>
     'prog program_cache \<Rightarrow> 'w env \<Rightarrow> goerr option \<times> 'prog program_cache \<times> 'w env"
where
  "handle sys st cel rules obj g pc e =
     (case obj of
        ObjOther \<Rightarrow> (None, pc, e)
      | ObjSubject subj \<Rightarrow>
          (let rulesets = List_rules rules g in
           if length rulesets = 0 then (None, pc, e)
           else
             (let ((results, detected), pc, e) = eval_loop sys cel subj rulesets ([], Map.empty) pc e in
              case List_ops sys subj e of
                (Inl err, e) \<Rightarrow> (Some err, pc, e)
              | (Inr items, e) \<Rightarrow>
                  (let e = complete_loop sys st subj detected items e;
                       (err, e) = ensure_results sys st subj results None e in
                   (err, pc, e)))))"

definition handleDelete :: "'w sys \<Rightarrow> event_obj \<Rightarrow> 'w env \<Rightarrow> goerr option \<times> 'w env" where
  "handleDelete sys obj e =
     (case obj of ObjOther \<Rightarrow> (None, e) | ObjSubject subj \<Rightarrow> DeleteAll sys subj e)"

text \<open>\<open>Watcher.Prune\<close>: the watches of the GVRs without a rule set end.\<close>

definition Watcher_Prune :: "gvr list \<Rightarrow> gvr list \<Rightarrow> rule_cache \<Rightarrow> watch_cache \<Rightarrow> watch_cache option" where
  "Watcher_Prune ks rs rules wc = Prune ks (GVRs rs rules) wc"

section \<open>The evaluation loop\<close>

text \<open>The operations the applicable rule sets that evaluate detect.\<close>

definition good_rulesets :: "('ast, 'prog) cel \<Rightarrow> subject \<Rightarrow> ors list \<Rightarrow> ors list" where
  "good_rulesets cel subj rulesets =
     filter (ruleset_evaluates cel subj) (filter (\<lambda>r. AppliesTo r subj) rulesets)"

definition detected_ops :: "('ast, 'prog) cel \<Rightarrow> subject \<Rightarrow> ors list \<Rightarrow> string set" where
  "detected_ops cel subj rulesets =
     (\<Union>r \<in> set (good_rulesets cel subj rulesets). set (matching cel subj (Rules r)))"

lemma ref_result_ops:
  "ruleset_evaluates cel subj r \<Longrightarrow> rr_Operations (ref_result cel subj r) = matching cel subj (Rules r)"
  by (simp add: ref_result_def ruleset_evaluates_def matching_decided_all)

lemma foldl_detected: "dom (foldl (\<lambda>d operation. d(operation \<mapsto> True)) d ops) = dom d \<union> set ops"
  by (induction ops arbitrary: d) auto

lemma eval_loop_spec:
  assumes "cache_ok cel pc"
  shows "\<exists>d pc' e'. eval_loop sys cel subj rulesets (results, detected) pc e =
      ((results @ map (ref_result cel subj) (good_rulesets cel subj rulesets), d), pc', e') \<and>
    dom d = dom detected \<union> detected_ops cel subj rulesets \<and> cache_ok cel pc' \<and>
    en_calls e' = en_calls e \<and> en_world e' = en_world e"
  using assms
proof (induction rulesets arbitrary: results detected pc e)
  case Nil
  then show ?case by (simp add: good_rulesets_def detected_ops_def)
next
  case (Cons r rs)
  show ?case
  proof (cases "AppliesTo r subj")
    case False
    with Cons.IH [OF Cons.prems, of results detected e] show ?thesis
      by (simp add: good_rulesets_def detected_ops_def)
  next
    case True
    from celEvaluator.eval_spec [OF Cons.prems, of "sys_frames sys" subj r] obtain err pc1
      where ev: "EvaluateRuleSet (sys_frames sys) cel subj r pc = ((ref_result cel subj r, err), pc1)"
        "cache_ok cel pc1" "err = None \<longleftrightarrow> ruleset_evaluates cel subj r" by blast
    let ?e = "observe (ObsEvalDuration (ors_Name r) (sys_clock sys (en_ticks e + 1) - sys_clock sys (en_ticks e)))
        (e\<lparr>en_ticks := en_ticks e + 2\<rparr>)"
    show ?thesis
    proof (cases err)
      case None
      with Cons.IH [OF ev(2), of "results @ [ref_result cel subj r]"
          "foldl (\<lambda>d operation. d(operation \<mapsto> True)) detected (rr_Operations (ref_result cel subj r))" ?e]
      show ?thesis
        using True ev by (auto simp: Now_def Let_def good_rulesets_def detected_ops_def foldl_detected
            ref_result_ops observe_def)
    next
      case (Some er)
      with Cons.IH [OF ev(2), of results detected "observe (IncEvalErrors (ors_Name r)) ?e"]
      show ?thesis
        using True ev by (auto simp: Now_def Let_def good_rulesets_def detected_ops_def observe_def)
    qed
  qed
qed

section \<open>The completion loop\<close>

lemma markCompleted_spec:
  assumes "markCompleted sys subj op e = (op', e')"
  shows "\<exists>t err w. op' = MarkCompleted t subj op \<and> cl_UpdateStatus sys op' (en_world e) = (err, w) \<and>
    en_calls e' = en_calls e @ [CUpdateStatus op'] \<and> en_world e' = w \<and> t = sys_clock sys (en_ticks e)"
  using assms by (auto simp: markCompleted_def Now_def client_defs observe_def Let_def split: prod.splits option.splits)

lemma cleanupCompleted_spec:
  "en_calls (cleanupCompleted sys st op e) = en_calls e @ (if RetainCompletedIFOs st then [] else [CDelete (ifo_Name op)])"
  "en_world (cleanupCompleted sys st op e) =
     (if RetainCompletedIFOs st then en_world e else snd (cl_Delete sys (ifo_Name op) (en_world e)))"
  by (simp_all add: cleanupCompleted_def client_defs split_def Let_def)

text \<open>What the loop may call for one of the listed operations.\<close>

definition completes :: "'w sys \<Rightarrow> settings \<Rightarrow> subject \<Rightarrow> (string \<rightharpoonup> bool) \<Rightarrow> ifo \<Rightarrow> api_call \<Rightarrow> bool" where
  "completes sys st subj detected x c \<longleftrightarrow>
     is_Operation (ifo_Spec x) \<notin> dom detected \<and>
     (\<exists>k. \<not> PastDebounceThreshold (DebounceThreshold st) (sys_clock sys k) x) \<and>
     ((\<exists>t. c = CUpdateStatus (MarkCompleted t subj x)) \<or> \<not> RetainCompletedIFOs st \<and> c = CDelete (ifo_Name x))"

lemma complete_one_calls:
  "\<exists>cs. en_calls (complete_one sys st subj d x e) = en_calls e @ cs \<and> (\<forall>c \<in> set cs. completes sys st subj d x c) \<and>
     (\<not> Complete x \<and> is_Operation (ifo_Spec x) \<notin> dom d \<longrightarrow>
        (\<exists>t. CUpdateStatus (MarkCompleted t subj x) \<in> set cs) \<and>
        (\<not> RetainCompletedIFOs st \<longrightarrow> CDelete (ifo_Name x) \<in> set cs))"
proof -
  obtain past e1 where pd: "past_debounce sys (DebounceThreshold st) x e = (past, e1)" by force
  have past: "past = PastDebounceThreshold (DebounceThreshold st) (sys_clock sys (en_ticks e)) x"
    using past_debounce_result [of sys "DebounceThreshold st" x e] pd by simp
  have e1: "en_calls e1 = en_calls e" using past_debounce_frame [OF pd] by simp
  obtain op' e2 where mc: "markCompleted sys subj x e1 = (op', e2)" by force
  from markCompleted_spec [OF this] obtain t where
    t: "op' = MarkCompleted t subj x" "en_calls e2 = en_calls e @ [CUpdateStatus op']" by (auto simp: e1)
  show ?thesis
  proof (cases "past \<or> is_Operation (ifo_Spec x) \<in> dom d")
    case True
    then have "complete_one sys st subj d x e = e1"
      using pd by (auto simp: complete_one_def)
    then show ?thesis using True e1 past by (auto simp: PastDebounceThreshold_def)
  next
    case False
    then have "complete_one sys st subj d x e = cleanupCompleted sys st op' e2"
      using pd mc by (auto simp: complete_one_def domIff)
    with False t past show ?thesis
      by (auto simp: cleanupCompleted_spec completes_def domIff)
  qed
qed

lemma complete_loop_calls:
  "\<exists>cs. en_calls (complete_loop sys st subj d items e) = en_calls e @ cs \<and>
     (\<forall>c \<in> set cs. \<exists>x \<in> set items. completes sys st subj d x c) \<and>
     (\<forall>x \<in> set items. \<not> Complete x \<and> is_Operation (ifo_Spec x) \<notin> dom d \<longrightarrow>
        (\<exists>t. CUpdateStatus (MarkCompleted t subj x) \<in> set cs) \<and>
        (\<not> RetainCompletedIFOs st \<longrightarrow> CDelete (ifo_Name x) \<in> set cs))"
proof (induction items arbitrary: e)
  case Nil
  then show ?case by simp
next
  case (Cons x items)
  obtain cs where cs: "en_calls (complete_one sys st subj d x e) = en_calls e @ cs"
    "\<forall>c \<in> set cs. completes sys st subj d x c"
    "\<not> Complete x \<and> is_Operation (ifo_Spec x) \<notin> dom d \<longrightarrow>
        (\<exists>t. CUpdateStatus (MarkCompleted t subj x) \<in> set cs) \<and>
        (\<not> RetainCompletedIFOs st \<longrightarrow> CDelete (ifo_Name x) \<in> set cs)"
    using complete_one_calls [of sys st subj d x e] by blast
  obtain ds where ds: "en_calls (complete_loop sys st subj d (x # items) e) = en_calls e @ cs @ ds"
    "\<forall>c \<in> set ds. \<exists>x \<in> set items. completes sys st subj d x c"
    "\<forall>x \<in> set items. \<not> Complete x \<and> is_Operation (ifo_Spec x) \<notin> dom d \<longrightarrow>
        (\<exists>t. CUpdateStatus (MarkCompleted t subj x) \<in> set ds) \<and>
        (\<not> RetainCompletedIFOs st \<longrightarrow> CDelete (ifo_Name x) \<in> set ds)"
    using Cons.IH [of "complete_one sys st subj d x e"] cs(1) by (auto simp: append_assoc)
  show ?case
    by (intro exI [of _ "cs @ ds"]) (use cs ds in auto)
qed

section \<open>The detection loop\<close>

text \<open>What the loop may call for one detected operation.\<close>

definition detects :: "subject \<Rightarrow> ruleset_result \<Rightarrow> string \<Rightarrow> api_call \<Rightarrow> bool" where
  "detects subj result operation c \<longleftrightarrow>
     (let op = Build subj operation (rr_RuleSet result) (rr_Labels result) in
      c = CList (ifo_Labels op) \<or> c = CCreate op \<or>
      (\<exists>t y. c = CUpdateStatus (MarkDetection t subj [ors_Name (rr_RuleSet result)] y)))"

lemma Ensure_calls:
  assumes "Ensure sys th op e = (r, e')"
  shows "\<exists>cs. en_calls e' = en_calls e @ CList (ifo_Labels op) # cs \<and> set cs \<subseteq> {CCreate op}"
  using assms
  by (auto simp: Ensure_def client_defs observe_def past_debounce_def Now_def Let_def
      split: prod.splits sum.splits list.splits if_splits)

lemma ensure_one_calls:
  assumes "ensure_one sys st subj result operation e = (r, e')"
  shows "\<exists>cs. en_calls e' = en_calls e @ cs \<and> (\<forall>c \<in> set cs. detects subj result operation c) \<and>
    CList (ifo_Labels (Build subj operation (rr_RuleSet result) (rr_Labels result))) \<in> set cs"
proof -
  let ?op = "Build subj operation (rr_RuleSet result) (rr_Labels result)"
  obtain r1 e1 where en: "Ensure sys (DebounceThreshold st) ?op e = (r1, e1)" by force
  from Ensure_calls [OF this] obtain cs where cs: "en_calls e1 = en_calls e @ CList (ifo_Labels ?op) # cs" "set cs \<subseteq> {CCreate ?op}"
    by blast
  show ?thesis
  proof (cases r1)
    case (Inl er)
    with assms en have "e' = e1" by (simp add: ensure_one_def)
    with cs show ?thesis by (intro exI [of _ "CList (ifo_Labels ?op) # cs"]) (auto simp: detects_def)
  next
    case (Inr y)
    with assms en have "en_calls e' = en_calls e1 @
        [CUpdateStatus (MarkDetection (sys_clock sys (en_ticks e1)) subj [ors_Name (rr_RuleSet result)] y)]"
      by (auto simp: ensure_one_def Now_def client_defs Let_def split: prod.splits if_splits)
    with cs show ?thesis
      by (intro exI [of _ "CList (ifo_Labels ?op) # cs @
        [CUpdateStatus (MarkDetection (sys_clock sys (en_ticks e1)) subj [ors_Name (rr_RuleSet result)] y)]"])
        (auto simp: detects_def)
  qed
qed

lemma ensure_ops_calls:
  "ensure_ops sys st subj result opers err e = (r, e') \<Longrightarrow>
   \<exists>cs. en_calls e' = en_calls e @ cs \<and> (\<forall>c \<in> set cs. \<exists>operation \<in> set opers. detects subj result operation c) \<and>
     (\<forall>operation \<in> set opers. CList (ifo_Labels (Build subj operation (rr_RuleSet result) (rr_Labels result))) \<in> set cs)"
proof (induction opers arbitrary: err e)
  case Nil
  then show ?case by simp
next
  case (Cons operation opers)
  obtain err1 e1 where one: "ensure_one sys st subj result operation e = (err1, e1)" by force
  from ensure_one_calls [OF one] obtain cs where
    "en_calls e1 = en_calls e @ cs" "\<forall>c \<in> set cs. detects subj result operation c"
    "CList (ifo_Labels (Build subj operation (rr_RuleSet result) (rr_Labels result))) \<in> set cs" by blast
  moreover from Cons.IH [of err1 e1] Cons.prems one obtain ds where
    "en_calls e' = en_calls e1 @ ds" "\<forall>c \<in> set ds. \<exists>operation \<in> set opers. detects subj result operation c"
    "\<forall>operation \<in> set opers. CList (ifo_Labels (Build subj operation (rr_RuleSet result) (rr_Labels result))) \<in> set ds"
    by auto
  ultimately show ?case by (intro exI [of _ "cs @ ds"]) auto
qed

lemma ensure_results_calls:
  "ensure_results sys st subj results err e = (r, e') \<Longrightarrow>
   \<exists>cs. en_calls e' = en_calls e @ cs \<and>
     (\<forall>c \<in> set cs. \<exists>res \<in> set results. \<exists>operation \<in> set (rr_Operations res). detects subj res operation c) \<and>
     (\<forall>res \<in> set results. \<forall>operation \<in> set (rr_Operations res).
        CList (ifo_Labels (Build subj operation (rr_RuleSet res) (rr_Labels res))) \<in> set cs)"
proof (induction results arbitrary: err e)
  case Nil
  then show ?case by simp
next
  case (Cons res results)
  obtain err1 e1 where one: "ensure_ops sys st subj res (rr_Operations res) err e = (err1, e1)" by force
  from ensure_ops_calls [OF one] obtain cs where
    "en_calls e1 = en_calls e @ cs" "\<forall>c \<in> set cs. \<exists>operation \<in> set (rr_Operations res). detects subj res operation c"
    "\<forall>operation \<in> set (rr_Operations res). CList (ifo_Labels (Build subj operation (rr_RuleSet res) (rr_Labels res))) \<in> set cs"
    by blast
  moreover from Cons.IH [of err1 e1] Cons.prems one obtain ds where
    "en_calls e' = en_calls e1 @ ds"
    "\<forall>c \<in> set ds. \<exists>res \<in> set results. \<exists>operation \<in> set (rr_Operations res). detects subj res operation c"
    "\<forall>res \<in> set results. \<forall>operation \<in> set (rr_Operations res).
        CList (ifo_Labels (Build subj operation (rr_RuleSet res) (rr_Labels res))) \<in> set ds"
    by auto
  ultimately show ?case by (intro exI [of _ "cs @ ds"]) auto
qed

section \<open>The handler's calls\<close>

lemma handle_phases:
  assumes "cache_ok cel pc" and "List_rules rules g \<noteq> []"
    and "cl_List sys (subjectLabels subj) (en_world e) = (Inr items, w)"
    and "handle sys st cel rules (ObjSubject subj) g pc e = (err, pc', e')"
  obtains d e1 where "dom d = detected_ops cel subj (List_rules rules g)"
    and "en_calls e1 = en_calls e @ [CList (subjectLabels subj)]" and "en_world e1 = w"
    and "ensure_results sys st subj (map (ref_result cel subj) (good_rulesets cel subj (List_rules rules g))) None
      (complete_loop sys st subj d items e1) = (err, e')"
    and "cache_ok cel pc'"
proof -
  from eval_loop_spec [OF assms(1), of sys subj "List_rules rules g" "[]" Map.empty e] obtain d pc1 e0
    where ev: "eval_loop sys cel subj (List_rules rules g) ([], Map.empty) pc e =
        ((map (ref_result cel subj) (good_rulesets cel subj (List_rules rules g)), d), pc1, e0)"
      "dom d = detected_ops cel subj (List_rules rules g)" "cache_ok cel pc1"
      "en_calls e0 = en_calls e" "en_world e0 = en_world e" by auto
  let ?e1 = "e0\<lparr>en_world := w, en_calls := en_calls e0 @ [CList (subjectLabels subj)]\<rparr>"
  have l: "List_ops sys subj e0 = (Inr items, ?e1)"
    by (simp add: List_ops_def client_defs ev(5) assms(3))
  have "ensure_results sys st subj (map (ref_result cel subj) (good_rulesets cel subj (List_rules rules g))) None
      (complete_loop sys st subj d items ?e1) = (err, e') \<and> pc' = pc1"
    using assms(2,4) ev(1) l by (auto simp: handle_def split: prod.splits)
  with ev show ?thesis by (intro that [of d ?e1]) auto
qed

lemma good_result:
  assumes "r \<in> set (good_rulesets cel subj rs)"
  shows "ref_result cel subj r = \<lparr>rr_RuleSet = r, rr_Operations = matching cel subj (Rules r),
    rr_Labels = ref_labels cel subj (os_LabelExpressions (ors_Spec r)) Map.empty\<rparr>"
  using assms
  by (simp add: good_rulesets_def ref_result_def ruleset_evaluates_def matching_decided_all)

lemma good_rulesets_mem:
  "r \<in> set (good_rulesets cel subj rs) \<longleftrightarrow> r \<in> set rs \<and> AppliesTo r subj \<and> ruleset_evaluates cel subj r"
  by (auto simp: good_rulesets_def)

text \<open>
  C2. What \<open>handle\<close> completes. After listing the subject's operations it marks completed, and unless
  they are retained deletes, listed operations that no applicable rule set which evaluates detects
  and that are not past the debounce threshold, and no others; and it does so at once for each such
  operation that is not complete. The calls that follow are only those of the detected operations.
\<close>

theorem handle_completes:
  assumes "cache_ok cel pc" and "List_rules rules g \<noteq> []"
    and "cl_List sys (subjectLabels subj) (en_world e) = (Inr items, w)"
    and "handle sys st cel rules (ObjSubject subj) g pc e = (err, pc', e')"
  shows "\<exists>cs ds. en_calls e' = en_calls e @ CList (subjectLabels subj) # cs @ ds \<and>
    (\<forall>c \<in> set cs. \<exists>x \<in> set items.
       is_Operation (ifo_Spec x) \<notin> detected_ops cel subj (List_rules rules g) \<and>
       (\<exists>k. \<not> PastDebounceThreshold (DebounceThreshold st) (sys_clock sys k) x) \<and>
       ((\<exists>t. c = CUpdateStatus (MarkCompleted t subj x)) \<or> \<not> RetainCompletedIFOs st \<and> c = CDelete (ifo_Name x))) \<and>
    (\<forall>x \<in> set items. \<not> Complete x \<and> is_Operation (ifo_Spec x) \<notin> detected_ops cel subj (List_rules rules g) \<longrightarrow>
       (\<exists>t. CUpdateStatus (MarkCompleted t subj x) \<in> set cs) \<and>
       (\<not> RetainCompletedIFOs st \<longrightarrow> CDelete (ifo_Name x) \<in> set cs)) \<and>
    (\<forall>c \<in> set ds. (\<exists>t y ns. c = CUpdateStatus (MarkDetection t subj ns y)) \<or> (\<exists>ls. c = CList ls) \<or> (\<exists>op. c = CCreate op))"
proof -
  obtain d e1 where ph: "dom d = detected_ops cel subj (List_rules rules g)"
    "en_calls e1 = en_calls e @ [CList (subjectLabels subj)]"
    "ensure_results sys st subj (map (ref_result cel subj) (good_rulesets cel subj (List_rules rules g))) None
      (complete_loop sys st subj d items e1) = (err, e')"
    by (rule handle_phases [OF assms])
  from complete_loop_calls [of sys st subj d items e1] obtain cs where cs:
    "en_calls (complete_loop sys st subj d items e1) = en_calls e1 @ cs"
    "\<forall>c \<in> set cs. \<exists>x \<in> set items. completes sys st subj d x c"
    "\<forall>x \<in> set items. \<not> Complete x \<and> is_Operation (ifo_Spec x) \<notin> dom d \<longrightarrow>
        (\<exists>t. CUpdateStatus (MarkCompleted t subj x) \<in> set cs) \<and>
        (\<not> RetainCompletedIFOs st \<longrightarrow> CDelete (ifo_Name x) \<in> set cs)" by blast
  from ensure_results_calls [OF ph(3)] obtain ds where ds:
    "en_calls e' = en_calls (complete_loop sys st subj d items e1) @ ds"
    "\<forall>c \<in> set ds. \<exists>res operation. detects subj res operation c" by blast
  have "en_calls e' = en_calls e @ CList (subjectLabels subj) # cs @ ds"
    using ph(2) cs(1) ds(1) by simp
  moreover have "(\<exists>t y ns. c = CUpdateStatus (MarkDetection t subj ns y)) \<or> (\<exists>ls. c = CList ls) \<or> (\<exists>op. c = CCreate op)"
    if "c \<in> set ds" for c
    using ds(2) that unfolding detects_def Let_def by blast
  ultimately show ?thesis
    using cs(2,3) unfolding completes_def ph(1) by blast
qed


text \<open>
  When nothing happens: an event without a subject, or for a GVR without rule sets, makes no call,
  observes no metric and returns no error; and when the list call fails its error is returned and
  no other call is made, whatever the rules say.
\<close>

theorem handle_idle:
  assumes "cache_ok cel pc"
  shows "handle sys st cel rules ObjOther g pc e = (None, pc, e) \<and>
    (List_rules rules g = [] \<longrightarrow> handle sys st cel rules obj g pc e = (None, pc, e)) \<and>
    (\<forall>err w. List_rules rules g \<noteq> [] \<and> cl_List sys (subjectLabels subj) (en_world e) = (Inl err, w) \<longrightarrow>
       (\<exists>pc' e'. handle sys st cel rules (ObjSubject subj) g pc e = (Some err, pc', e') \<and>
          en_calls e' = en_calls e @ [CList (subjectLabels subj)] \<and> en_world e' = w))"
proof -
  have "\<exists>pc' e'. handle sys st cel rules (ObjSubject subj) g pc e = (Some err, pc', e') \<and>
          en_calls e' = en_calls e @ [CList (subjectLabels subj)] \<and> en_world e' = w"
    if ne: "List_rules rules g \<noteq> []" and l: "cl_List sys (subjectLabels subj) (en_world e) = (Inl err, w)" for err w
  proof -
    from eval_loop_spec [OF assms, of sys subj "List_rules rules g" "[]" Map.empty e] obtain acc pc1 e0
      where "eval_loop sys cel subj (List_rules rules g) ([], Map.empty) pc e = (acc, pc1, e0)"
        "en_calls e0 = en_calls e" "en_world e0 = en_world e" by blast
    with ne l show ?thesis by (cases acc) (simp add: handle_def List_ops_def client_defs)
  qed
  then show ?thesis by (simp add: handle_def split: event_obj.split)
qed

section \<open>The effect on the server\<close>

text \<open>The stored operations carry their operation as a label, as the code builds them.\<close>

definition labelled :: "ifo set \<Rightarrow> bool" where
  "labelled V \<longleftrightarrow> (\<forall>x \<in> V. ifo_Labels x LabelOperation = Some (is_Operation (ifo_Spec x)))"

text \<open>The stored operations that are not a detected operation of the subject.\<close>

definition others :: "subject \<Rightarrow> string set \<Rightarrow> ifo set \<Rightarrow> ifo set" where
  "others subj D V = {x \<in> V. \<not> (selects (subjectLabels subj) (ifo_Labels x) \<and> is_Operation (ifo_Spec x) \<in> D)}"

definition active_in :: "ifo set \<Rightarrow> labels \<Rightarrow> bool" where
  "active_in V ls \<longleftrightarrow> (\<exists>y \<in> V. selects ls (ifo_Labels y) \<and> st_Phase (ifo_Status y) = OperationPhaseActive)"

lemma update_delete_view:
  assumes "ifo_Name op' = n"
  shows "{x \<in> set_status op' ` V. ifo_Name x \<noteq> n} = {x \<in> V. ifo_Name x \<noteq> n}"
  using assms by (auto simp: set_status_def image_iff)

lemma complete_one_view:
  assumes ok: "server_ok sys view" and nf: "never_fails sys" and keep: "\<not> RetainCompletedIFOs st"
  shows "view (en_world (complete_one sys st subj d x e)) =
    (if PastDebounceThreshold (DebounceThreshold st) (sys_clock sys (en_ticks e)) x \<or> is_Operation (ifo_Spec x) \<in> dom d
     then view (en_world e) else {y \<in> view (en_world e). ifo_Name y \<noteq> ifo_Name x})"
proof -
  obtain past e1 where pd: "past_debounce sys (DebounceThreshold st) x e = (past, e1)" by force
  have past: "past = PastDebounceThreshold (DebounceThreshold st) (sys_clock sys (en_ticks e)) x"
    using past_debounce_result [of sys "DebounceThreshold st" x e] pd by simp
  have e1: "en_world e1 = en_world e" using past_debounce_frame [OF pd] by simp
  obtain op' e2 where mc: "markCompleted sys subj x e1 = (op', e2)" by force
  from markCompleted_spec [OF this] obtain t err where
    t: "op' = MarkCompleted t subj x" "cl_UpdateStatus sys op' (en_world e) = (err, en_world e2)" by (auto simp: e1)
  have "err = None" using nf t(2) unfolding never_fails_def by (metis prod.inject)
  with server_UpdateStatus [OF ok t(2)] have v2: "view (en_world e2) = set_status op' ` view (en_world e)" by simp
  obtain w where del: "cl_Delete sys (ifo_Name op') (en_world e2) = (None, w)"
    using nf unfolding never_fails_def by blast
  show ?thesis
  proof (cases "past \<or> is_Operation (ifo_Spec x) \<in> dom d")
    case True
    then show ?thesis using pd e1 past by (auto simp: complete_one_def)
  next
    case False
    then have "complete_one sys st subj d x e = cleanupCompleted sys st op' e2"
      using pd mc by (auto simp: complete_one_def domIff)
    then have "view (en_world (complete_one sys st subj d x e)) = {y \<in> view (en_world e2). ifo_Name y \<noteq> ifo_Name op'}"
      using server_Delete [OF ok del] del keep by (simp add: cleanupCompleted_spec)
    then show ?thesis
      using False past v2 t(1) update_delete_view [of op' "ifo_Name x" "view (en_world e)"] by auto
  qed
qed

lemma complete_loop_view:
  assumes ok: "server_ok sys view" and nf: "never_fails sys" and keep: "\<not> RetainCompletedIFOs st"
  shows "view (en_world (complete_loop sys st subj d items e)) \<subseteq> view (en_world e) \<and>
    (\<forall>y \<in> view (en_world e) - view (en_world (complete_loop sys st subj d items e)).
       \<exists>x \<in> set items. ifo_Name y = ifo_Name x \<and> is_Operation (ifo_Spec x) \<notin> dom d) \<and>
    (\<forall>x \<in> set items. is_Operation (ifo_Spec x) \<notin> dom d \<and>
       ifo_Name x \<in> ifo_Name ` view (en_world (complete_loop sys st subj d items e)) \<longrightarrow>
       (\<exists>k. PastDebounceThreshold (DebounceThreshold st) (sys_clock sys k) x))"
proof (induction items arbitrary: e)
  case Nil
  then show ?case by simp
next
  case (Cons x items)
  let ?e1 = "complete_one sys st subj d x e"
  have one: "view (en_world ?e1) \<subseteq> view (en_world e)"
    "\<forall>y \<in> view (en_world e) - view (en_world ?e1). ifo_Name y = ifo_Name x \<and> is_Operation (ifo_Spec x) \<notin> dom d"
    "is_Operation (ifo_Spec x) \<notin> dom d \<and> ifo_Name x \<in> ifo_Name ` view (en_world ?e1) \<Longrightarrow>
       \<exists>k. PastDebounceThreshold (DebounceThreshold st) (sys_clock sys k) x"
    unfolding complete_one_view [OF ok nf keep] by (auto split: if_splits)
  note ih = Cons.IH [of ?e1]
  have mono: "ifo_Name ` view (en_world (complete_loop sys st subj d (x # items) e)) \<subseteq> ifo_Name ` view (en_world ?e1)"
    using ih by auto
  show ?case
  proof (intro conjI ballI impI)
    show "view (en_world (complete_loop sys st subj d (x # items) e)) \<subseteq> view (en_world e)"
      using ih one(1) by auto
  next
    fix y assume "y \<in> view (en_world e) - view (en_world (complete_loop sys st subj d (x # items) e))"
    then show "\<exists>x' \<in> set (x # items). ifo_Name y = ifo_Name x' \<and> is_Operation (ifo_Spec x') \<notin> dom d"
      using ih one(2) by (cases "y \<in> view (en_world ?e1)") auto
  next
    fix z assume z: "z \<in> set (x # items)" "is_Operation (ifo_Spec z) \<notin> dom d \<and>
       ifo_Name z \<in> ifo_Name ` view (en_world (complete_loop sys st subj d (x # items) e))"
    show "\<exists>k. PastDebounceThreshold (DebounceThreshold st) (sys_clock sys k) z"
    proof (cases "z = x")
      case True
      then show ?thesis using one(3) z(2) mono by blast
    next
      case False
      then show ?thesis using ih z by auto
    qed
  qed
qed

lemma Ensure_view:
  assumes ok: "server_ok sys view" and nf: "never_fails sys" and en: "Ensure sys th op e = (r, e')"
  shows "\<exists>y. r = Inr y \<and> selects (ifo_Labels op) (ifo_Labels y) \<and>
    (y \<in> view (en_world e) \<and> view (en_world e') = view (en_world e) \<or>
     view (en_world e') = insert y (view (en_world e)) \<and> ifo_Name y \<notin> ifo_Name ` view (en_world e) \<and>
       ifo_Labels y = ifo_Labels op \<and> ifo_Spec y = ifo_Spec op)"
proof -
  obtain items w where l: "cl_List sys (ifo_Labels op) (en_world e) = (Inr items, w)"
    using nf unfolding never_fails_def by blast
  have its: "view w = view (en_world e)" "set items = {x \<in> view (en_world e). selects (ifo_Labels op) (ifo_Labels x)}"
    using server_List [OF ok l] by simp_all
  let ?e1 = "e\<lparr>en_world := w, en_calls := en_calls e @ [CList (ifo_Labels op)]\<rparr>"
  have cl: "client_List sys (ifo_Labels op) e = (Inr items, ?e1)" by (simp add: client_defs l)
  have created: "\<exists>y. r = Inr y \<and> view (en_world e') = insert y (view (en_world e)) \<and>
      ifo_Name y \<notin> ifo_Name ` view (en_world e) \<and> ifo_Labels y = ifo_Labels op \<and> ifo_Spec y = ifo_Spec op"
    if c: "(case client_Create sys op e2 of (Inl err, e) \<Rightarrow> (Inl (Wrap (sys_frames sys) (Some err) []), e)
         | (Inr op, e) \<Rightarrow> (Inr op, observe (IncCreated (sr_Kind (is_Subject (ifo_Spec op))) (is_Operation (ifo_Spec op))) e)) = (r, e')"
      "en_world e2 = w" for e2 :: "'a env"
  proof -
    obtain out w2 where o: "cl_Create sys op w = (Inr out, w2)" using nf unfolding never_fails_def by blast
    with c have "r = Inr out" "en_world e' = w2" by (auto simp: client_defs observe_def)
    with server_Create [OF ok o] its(1) show ?thesis by simp
  qed
  show ?thesis
  proof (cases "SortFunc newest_first items")
    case Nil
    with en cl created [of ?e1] show ?thesis by (auto simp: Ensure_def selects_def)
  next
    case (Cons y ys)
    obtain b e2 where pd: "past_debounce sys th y ?e1 = (b, e2)" by force
    have e2: "en_world e2 = w" using past_debounce_frame [OF pd] by simp
    show ?thesis
    proof (cases b)
      case True
      with en cl Cons pd e2 created [of e2] show ?thesis by (auto simp: Ensure_def selects_def)
    next
      case False
      with en cl Cons pd have "r = Inr y" "e' = e2" by (auto simp: Ensure_def)
      moreover have "y \<in> view (en_world e)" "selects (ifo_Labels op) (ifo_Labels y)"
        using newest_head [OF Cons] its(2) by auto
      ultimately show ?thesis using e2 its(1) by auto
    qed
  qed
qed

text \<open>
  One detection: an active object that the labels select is in the store, and no object changes
  but those the labels select, whose labels and spec stay.
\<close>

definition detection_effect :: "labels \<Rightarrow> ifo set \<Rightarrow> ifo set \<Rightarrow> bool" where
  "detection_effect ls V V' \<longleftrightarrow> active_in V' ls \<and>
     (\<forall>x \<in> V' - V. selects ls (ifo_Labels x) \<and> st_Phase (ifo_Status x) = OperationPhaseActive) \<and>
     (\<forall>x \<in> V - V'. selects ls (ifo_Labels x) \<and>
        (\<exists>z \<in> V'. ifo_Labels z = ifo_Labels x \<and> ifo_Spec z = ifo_Spec x \<and> st_Phase (ifo_Status z) = OperationPhaseActive))"

lemma set_status_image:
  assumes "inj_on ifo_Name V" "y \<in> V" "ifo_Name y' = ifo_Name y"
  shows "set_status y' ` V = insert (y\<lparr>ifo_Status := ifo_Status y'\<rparr>) (V - {y})"
proof -
  have "set_status y' x = (if x = y then y\<lparr>ifo_Status := ifo_Status y'\<rparr> else x)" if "x \<in> V" for x
    using assms that by (auto simp: set_status_def inj_on_def)
  then show ?thesis using assms(2) by (auto simp: image_iff)
qed

lemma ensure_one_view:
  fixes sys st subj result operation e
  defines "op \<equiv> Build subj operation (rr_RuleSet result) (rr_Labels result)"
  assumes ok: "server_ok sys view" and nf: "never_fails sys"
    and lab: "labelled (view (en_world e))"
    and en: "ensure_one sys st subj result operation e = (r, e')"
  shows "r = None \<and> detection_effect (ifo_Labels op) (view (en_world e)) (view (en_world e')) \<and>
    labelled (view (en_world e'))"
proof -
  let ?V = "view (en_world e)"
  obtain r1 e1 where e1: "Ensure sys (DebounceThreshold st) op e = (r1, e1)" by force
  from Ensure_view [OF ok nf e1] obtain y where y: "r1 = Inr y" "selects (ifo_Labels op) (ifo_Labels y)"
    "y \<in> ?V \<and> view (en_world e1) = ?V \<or> view (en_world e1) = insert y ?V \<and> ifo_Name y \<notin> ifo_Name ` ?V \<and>
       ifo_Labels y = ifo_Labels op \<and> ifo_Spec y = ifo_Spec op" by blast
  let ?y' = "MarkDetection (sys_clock sys (en_ticks e1)) subj [ors_Name (rr_RuleSet result)] y"
  obtain w where up: "cl_UpdateStatus sys ?y' (en_world e1) = (None, w)"
    using nf unfolding never_fails_def by blast
  have res: "r = None" "en_world e' = w"
    using en e1 y(1) up by (auto simp: ensure_one_def op_def Now_def client_defs Let_def)
  have "ifo_Labels op LabelOperation = Some operation" "is_Operation (ifo_Spec op) = operation"
    by (simp_all add: op_def Build_def)
  then have lab1: "labelled (view (en_world e1))"
    using lab y(3) by (auto simp: labelled_def)
  have yin: "y \<in> view (en_world e1)" using y(3) by auto
  have "view w = insert (y\<lparr>ifo_Status := ifo_Status ?y'\<rparr>) (view (en_world e1) - {y})"
    using server_UpdateStatus [OF ok up] set_status_image [OF server_names [OF ok] yin, of ?y'] by simp
  moreover have "y\<lparr>ifo_Status := ifo_Status ?y'\<rparr> = ?y'" by (simp add: MarkDetection_def)
  ultimately have v: "view w = insert ?y' (view (en_world e1) - {y})" by simp
  have phase: "st_Phase (ifo_Status ?y') = OperationPhaseActive" by (simp add: MarkDetection_def)
  have "labelled (view w)" using lab1 yin unfolding v labelled_def by auto
  moreover have "detection_effect (ifo_Labels op) ?V (view w)"
    using y(2,3) phase unfolding v detection_effect_def active_in_def by auto
  ultimately show ?thesis using res by simp
qed

lemma active_in_keep: "active_in V ls \<Longrightarrow> detection_effect ls' V V' \<Longrightarrow> active_in V' ls"
  unfolding active_in_def detection_effect_def by (metis DiffI)

lemma selects_trans: "selects a b \<Longrightarrow> selects b c \<Longrightarrow> selects a c"
  unfolding selects_def by (rule map_le_trans)

lemma selects_Build: "selects (subjectLabels subj) (operationLabels subj operation rs dyn)"
  by (auto simp: selects_def map_le_def subjectLabels_def)

lemma others_keep:
  assumes "detection_effect (operationLabels subj operation rs dyn) V V'" and "operation \<in> D"
    and "labelled V" and "labelled V'"
  shows "others subj D V' = others subj D V"
proof -
  have "selects (subjectLabels subj) (ifo_Labels x) \<and> is_Operation (ifo_Spec x) \<in> D"
    if "selects (operationLabels subj operation rs dyn) (ifo_Labels x)"
      "ifo_Labels x LabelOperation = Some (is_Operation (ifo_Spec x))" for x
  proof
    show "selects (subjectLabels subj) (ifo_Labels x)" using selects_Build that(1) by (rule selects_trans)
    have "ifo_Labels x LabelOperation = Some operation"
      using that(1) operationLabels_at(5) by (auto simp: selects_def map_le_def dom_def)
    with that(2) assms(2) show "is_Operation (ifo_Spec x) \<in> D" by simp
  qed
  with assms(1,3,4) show ?thesis
    unfolding others_def detection_effect_def labelled_def by blast
qed

text \<open>The pairs of a rule set and an operation that the loops run through.\<close>

definition todo :: "subject \<Rightarrow> ruleset_result list \<Rightarrow> labels set" where
  "todo subj results = {operationLabels subj operation (rr_RuleSet res) (rr_Labels res) | res operation.
     res \<in> set results \<and> operation \<in> set (rr_Operations res)}"

lemma ensure_ops_view:
  assumes ok: "server_ok sys view" and nf: "never_fails sys"
  shows "labelled (view (en_world e)) \<Longrightarrow> set opers \<subseteq> D \<Longrightarrow> ensure_ops sys st subj res opers err e = (r, e') \<Longrightarrow>
    (opers \<noteq> [] \<or> err = None \<longrightarrow> r = None) \<and> labelled (view (en_world e')) \<and>
    others subj D (view (en_world e')) = others subj D (view (en_world e)) \<and>
    (\<forall>ls. active_in (view (en_world e)) ls \<longrightarrow> active_in (view (en_world e')) ls) \<and>
    (\<forall>operation \<in> set opers. active_in (view (en_world e')) (operationLabels subj operation (rr_RuleSet res) (rr_Labels res)))"
proof (induction opers arbitrary: e err)
  case Nil
  then show ?case by simp
next
  case (Cons operation opers)
  obtain err1 e1 where one: "ensure_one sys st subj res operation e = (err1, e1)" by force
  note eff = ensure_one_view [OF ok nf Cons.prems(1) one]
  let ?ls = "operationLabels subj operation (rr_RuleSet res) (rr_Labels res)"
  have eff': "err1 = None" "detection_effect ?ls (view (en_world e)) (view (en_world e1))" "labelled (view (en_world e1))"
    using eff by (simp_all add: Build_def)
  have rest: "ensure_ops sys st subj res opers err1 e1 = (r, e')" using Cons.prems(3) one by simp
  have oth: "others subj D (view (en_world e1)) = others subj D (view (en_world e))"
    using others_keep [OF eff'(2) _ Cons.prems(1) eff'(3)] Cons.prems(2) by simp
  have "active_in (view (en_world e1)) ?ls" using eff'(2) by (simp add: detection_effect_def)
  moreover have "\<forall>ls. active_in (view (en_world e)) ls \<longrightarrow> active_in (view (en_world e1)) ls"
    using active_in_keep eff'(2) by blast
  ultimately show ?case
    using Cons.IH [OF eff'(3) _ rest] Cons.prems(2) oth eff'(1) by simp
qed

lemma ensure_results_view:
  assumes ok: "server_ok sys view" and nf: "never_fails sys"
  shows "labelled (view (en_world e)) \<Longrightarrow> (\<forall>res \<in> set results. set (rr_Operations res) \<subseteq> D) \<Longrightarrow>
    ensure_results sys st subj results None e = (r, e') \<Longrightarrow>
    r = None \<and> others subj D (view (en_world e')) = others subj D (view (en_world e)) \<and>
    (\<forall>ls. active_in (view (en_world e)) ls \<longrightarrow> active_in (view (en_world e')) ls) \<and>
    (\<forall>ls \<in> todo subj results. active_in (view (en_world e')) ls)"
proof (induction results arbitrary: e)
  case Nil
  then show ?case by (simp add: todo_def)
next
  case (Cons res results)
  obtain err1 e1 where one: "ensure_ops sys st subj res (rr_Operations res) None e = (err1, e1)" by force
  have sub: "set (rr_Operations res) \<subseteq> D" using Cons.prems(2) by simp
  note eff = ensure_ops_view [OF ok nf Cons.prems(1) sub one]
  have "ensure_results sys st subj results None e1 = (r, e')" using Cons.prems(3) one eff by simp
  with Cons.IH [of e1] eff Cons.prems(2) have ih: "r = None"
    "others subj D (view (en_world e')) = others subj D (view (en_world e1))"
    "\<forall>ls. active_in (view (en_world e1)) ls \<longrightarrow> active_in (view (en_world e')) ls"
    "\<forall>ls \<in> todo subj results. active_in (view (en_world e')) ls" by auto
  have "\<forall>ls \<in> todo subj (res # results). active_in (view (en_world e')) ls"
    using ih(3,4) eff by (auto simp: todo_def)
  with ih eff show ?case by auto
qed


text \<open>
  A rule set that fails to evaluate detects nothing: when no applicable rule set of the GVR
  evaluates, every listed operation that is not complete is marked completed, also those whose own
  rule still holds.
\<close>

theorem failing_rules_complete_all:
  assumes "cache_ok cel pc" and "List_rules rules g \<noteq> []"
    and "\<forall>r \<in> set (List_rules rules g). AppliesTo r subj \<longrightarrow> \<not> ruleset_evaluates cel subj r"
    and "cl_List sys (subjectLabels subj) (en_world e) = (Inr items, w)"
    and "x \<in> set items" and "\<not> Complete x"
    and "handle sys st cel rules (ObjSubject subj) g pc e = (err, pc', e')"
  shows "err = None \<and> (\<exists>t. CUpdateStatus (MarkCompleted t subj x) \<in> set (en_calls e'))"
proof -
  have none: "good_rulesets cel subj (List_rules rules g) = []"
    using assms(3) by (auto simp: good_rulesets_def filter_empty_conv)
  obtain d e1 where ph: "dom d = detected_ops cel subj (List_rules rules g)"
    "ensure_results sys st subj (map (ref_result cel subj) (good_rulesets cel subj (List_rules rules g))) None
      (complete_loop sys st subj d items e1) = (err, e')"
    by (rule handle_phases [OF assms(1,2,4,7)])
  then have "dom d = {}" "err = None" "e' = complete_loop sys st subj d items e1"
    by (simp_all add: none detected_ops_def)
  with complete_loop_calls [of sys st subj d items e1] assms(5,6) show ?thesis by force
qed

text \<open>
  Deleting a subject deletes its operations: one call, and on a server that behaves as documented
  a success leaves exactly the operations its selector does not select. A tombstone deletes nothing.
\<close>

theorem handleDelete_effect:
  assumes "server_ok sys view" and "handleDelete sys (ObjSubject subj) e = (err, e')"
  shows "en_calls e' = en_calls e @ [CDeleteAllOf (subjectLabels subj)] \<and>
    view (en_world e') = (if err = None then {x \<in> view (en_world e). \<not> selects (subjectLabels subj) (ifo_Labels x)}
      else view (en_world e)) \<and>
    handleDelete sys ObjOther e = (None, e)"
proof -
  obtain r w where d: "cl_DeleteAllOf sys (subjectLabels subj) (en_world e) = (r, w)" by force
  with assms(2) have "err = r" "e' = e\<lparr>en_world := w, en_calls := en_calls e @ [CDeleteAllOf (subjectLabels subj)]\<rparr>"
    by (simp_all add: handleDelete_def DeleteAll_def client_defs)
  with server_DeleteAllOf [OF assms(1) d] show ?thesis by (simp add: handleDelete_def)
qed

section \<open>Witnesses\<close>

text \<open>
  One rule set for pods that detects \<open>Migrating\<close>, one stored operation \<open>Starting\<close>, and an event.
\<close>

definition demo_rs :: ors where
  "demo_rs = example_ors ''vm'' pods [\<lparr>ru_Operation = ''Migrating'', ru_Expression = ''true''\<rparr>]"

definition broken_rs :: ors where
  "broken_rs = example_ors ''vm'' pods [\<lparr>ru_Operation = ''Starting'', ru_Expression = ''true''\<rparr>,
     \<lparr>ru_Operation = ''Migrating'', ru_Expression = []\<rparr>]"

definition demo_rules :: rule_cache where "demo_rules = run_store [Upsert demo_rs]"
definition broken_rules :: rule_cache where "broken_rules = run_store [Upsert broken_rs]"

definition demo_settings :: settings where
  "demo_settings = \<lparr>DebounceThreshold = 0, InformerSyncTimeout = 0, K8SAPITimeout = 0, K8SInformerResync = 0,
     RetainCompletedIFOs = False, RequeueInterval = 0, OperatorVersion = []\<rparr>"

definition demo_sys :: "store sys" where "demo_sys = mem_sys (\<lambda>n. int n + 1)"

definition demo_old :: ifo where "demo_old = Build JNull ''Starting'' demo_rs Map.empty"

definition demo_env :: "store env" where "demo_env = start_env [demo_old]"

lemma demo_List [simp]: "List_rules demo_rules pods = [demo_rs]" "List_rules broken_rules pods = [broken_rs]"
  by (simp_all add: demo_rules_def broken_rules_def List_rules_def cached_def dom_one_rule ors_GVR_eq
      demo_rs_def broken_rs_def example_ors_def)

lemma demo_eval [simp]:
  "matching echo_lib JNull (Rules demo_rs) = [''Migrating'']" "AppliesTo demo_rs JNull"
  "ruleset_evaluates echo_lib JNull demo_rs" "\<not> ruleset_evaluates echo_lib JNull broken_rs"
  by (simp_all add: demo_rs_def broken_rs_def example_ors_def Rules_def matching_def rule_holds_def rule_value_def
      compiled_def echo_lib_def AppliesTo_def ruleset_evaluates_def)

lemma demo_detected: "detected_ops echo_lib JNull [demo_rs] = {''Migrating''}"
  by (simp add: detected_ops_def good_rulesets_def)

lemma demo_world: "stored (en_world demo_env) = [new_object demo_old []]"
  by (simp add: demo_env_def start_env_def)

lemma demo_op [simp]: "is_Operation (ifo_Spec (new_object demo_old [])) = ''Starting''"
  "ifo_Labels (new_object demo_old []) = operationLabels JNull ''Starting'' demo_rs Map.empty"
  "\<not> Complete (new_object demo_old [])"
  by (simp_all add: new_object_def demo_old_def Build_def Complete_def IsZero_def empty_status_def)

lemma demo_labelled: "labelled (mem_view (en_world demo_env))"
  by (simp add: labelled_def mem_view_def demo_world)

lemma demo_listed: "cl_List demo_sys (subjectLabels JNull) (en_world demo_env) = (Inr [new_object demo_old []], en_world demo_env)"
  by (simp add: demo_sys_def mem_sys_def demo_world selects_Build)

theorem handle_completes_witness:
  "\<exists>t. CUpdateStatus (MarkCompleted t JNull (new_object demo_old [])) \<in>
     set (en_calls (snd (snd (handle demo_sys demo_settings echo_lib demo_rules (ObjSubject JNull) pods NewProgramCache demo_env))))"
proof -
  obtain err pc' e' where h: "handle demo_sys demo_settings echo_lib demo_rules (ObjSubject JNull) pods NewProgramCache demo_env = (err, pc', e')"
    by (metis prod_cases3)
  from handle_completes [OF cache_ok_New _ demo_listed h] obtain cs ds where
    "en_calls e' = en_calls demo_env @ CList (subjectLabels JNull) # cs @ ds"
    "\<exists>t. CUpdateStatus (MarkCompleted t JNull (new_object demo_old [])) \<in> set cs"
    by (auto simp: demo_detected)
  with h show ?thesis by auto
qed


theorem handle_idle_witness:
  "handle demo_sys demo_settings echo_lib demo_rules ObjOther pods NewProgramCache demo_env = (None, NewProgramCache, demo_env)"
  using handle_idle [OF cache_ok_New] by blast


theorem failing_rules_complete_all_witness:
  "\<exists>t. CUpdateStatus (MarkCompleted t JNull (new_object demo_old [])) \<in>
     set (en_calls (snd (snd (handle demo_sys demo_settings echo_lib broken_rules (ObjSubject JNull) pods NewProgramCache demo_env))))"
proof -
  obtain err pc' e' where h: "handle demo_sys demo_settings echo_lib broken_rules (ObjSubject JNull) pods NewProgramCache demo_env = (err, pc', e')"
    by (metis prod_cases3)
  from failing_rules_complete_all [OF cache_ok_New _ _ demo_listed _ _ h] h show ?thesis by simp
qed

theorem handleDelete_effect_witness:
  "mem_view (en_world (snd (handleDelete demo_sys (ObjSubject JNull) demo_env))) = {}"
proof -
  obtain err e' where h: "handleDelete demo_sys (ObjSubject JNull) demo_env = (err, e')" by force
  then have "err = None" by (auto simp: handleDelete_def DeleteAll_def client_defs demo_sys_def mem_sys_def)
  with handleDelete_effect [OF server_ok_mem h [unfolded demo_sys_def]] h show ?thesis
    by (auto simp: mem_view_def demo_world selects_Build)
qed

end
