(* ===== verification/Reconciler.thy ===== *)
theory Reconciler
  imports Watcher
begin

text \<open>
  The controller of OperationRuleSets (\<open>internal/controller\<close>): one reconcile reads the object, tears
  it down or adds its finalizer, validates it in a staged round of conditions, sets it up and writes
  its status. The API server, the discovery client and the clock are parameters (\<open>kube\<close>), over an
  arbitrary server state; a patch answers the object as the server stores it, which replaces the
  one in hand. The order in which the two caches are visited is given by \<open>orders\<close>. A panic is
  \<open>None\<close>. The controller's state is the rule cache, the watches and the compiled programs.
\<close>

section \<open>State and environment\<close>

datatype get_error = NotFound goerr | GetFailed goerr

record 'w kube =
  k_Get :: "string \<Rightarrow> 'w \<Rightarrow> (get_error + ors) \<times> 'w"
  k_Patch :: "ors \<Rightarrow> 'w \<Rightarrow> (goerr + ors) \<times> 'w"
  k_UpdateStatus :: "ors \<Rightarrow> 'w \<Rightarrow> goerr option \<times> 'w"
  k_Discover :: "string \<Rightarrow> 'w \<Rightarrow> (goerr + string list) \<times> 'w"
  k_clock :: "nat \<Rightarrow> time"
  k_frames :: "string list"

record 'w kenv =
  ke_world :: 'w
  ke_ticks :: nat

record orders =
  order_watches :: "watch_cache \<Rightarrow> gvr list"
  order_rules :: "rule_cache \<Rightarrow> gvr list"

record 'prog controller =
  ct_Rules :: rule_cache
  ct_Watches :: watch_cache
  ct_Programs :: "'prog program_cache"

definition kcall :: "('w \<Rightarrow> 'r \<times> 'w) \<Rightarrow> 'w kenv \<Rightarrow> 'r \<times> 'w kenv" where
  "kcall f e = (let (r, w) = f (ke_world e) in (r, e\<lparr>ke_world := w\<rparr>))"

text \<open>\<open>rule.Status.SetCondition\<close> of one condition, at the clock's next reading.\<close>

definition set_condition :: "'w kube \<Rightarrow> condition \<Rightarrow> ors \<Rightarrow> 'w kenv \<Rightarrow> ors \<times> 'w kenv" where
  "set_condition k c rule e =
     (rule\<lparr>ors_Status := (ors_Status rule)\<lparr>ost_Conditions :=
        SetCondition [(k_clock k (ke_ticks e), c)] (ost_Conditions (ors_Status rule))\<rparr>\<rparr>,
      e\<lparr>ke_ticks := ke_ticks e + 1\<rparr>)"

definition over_conditions :: "(conditions \<Rightarrow> conditions) \<Rightarrow> ors \<Rightarrow> ors" where
  "over_conditions f rule =
     rule\<lparr>ors_Status := (ors_Status rule)\<lparr>ost_Conditions := f (ost_Conditions (ors_Status rule))\<rparr>\<rparr>"

definition set_WatchActive :: "bool \<Rightarrow> ors \<Rightarrow> ors" where
  "set_WatchActive b rule = rule\<lparr>ors_Status := (ors_Status rule)\<lparr>ost_WatchActive := b\<rparr>\<rparr>"

section \<open>Finalizers\<close>

text \<open>\<open>controllerutil.AddFinalizer\<close> and \<open>RemoveFinalizer\<close>, with whether they changed the list.\<close>

definition util_AddFinalizer :: "ors \<Rightarrow> string \<Rightarrow> ors \<times> bool" where
  "util_AddFinalizer rule f =
     (if f \<in> set (ors_Finalizers rule) then (rule, False)
      else (rule\<lparr>ors_Finalizers := ors_Finalizers rule @ [f]\<rparr>, True))"

definition util_RemoveFinalizer :: "ors \<Rightarrow> string \<Rightarrow> ors \<times> bool" where
  "util_RemoveFinalizer rule f =
     (let fs = filter (\<lambda>x. x \<noteq> f) (ors_Finalizers rule) in
      (rule\<lparr>ors_Finalizers := fs\<rparr>, length (ors_Finalizers rule) \<noteq> length fs))"

definition AddFinalizer :: "'w kube \<Rightarrow> ors \<Rightarrow> 'w kenv \<Rightarrow> (goerr + ors) \<times> 'w kenv" where
  "AddFinalizer k rule e =
     (let (rule, changed) = util_AddFinalizer rule OperationRuleSetFinalizer in
      if changed then kcall (k_Patch k rule) e else (Inr rule, e))"

definition RemoveFinalizer :: "'w kube \<Rightarrow> ors \<Rightarrow> 'w kenv \<Rightarrow> (goerr + ors) \<times> 'w kenv" where
  "RemoveFinalizer k rule e =
     (let (rule, changed) = util_RemoveFinalizer rule OperationRuleSetFinalizer in
      if changed then kcall (k_Patch k rule) e else (Inr rule, e))"

section \<open>Validation\<close>

definition validateTargetGVR :: "'w kube \<Rightarrow> ors \<Rightarrow> 'w kenv \<Rightarrow> goerr option \<times> 'w kenv" where
  "validateTargetGVR k rule e =
     (let g = ors_GVR rule;
          gv = GroupVersion_String (gvr_Group g) (gvr_Version g) in
      case kcall (k_Discover k gv) e of
        (Inl err, e) \<Rightarrow>
          (Some (Chained (''failed to discover resources for '' @ gv @ '': '' @ Error err) (Some err)), e)
      | (Inr names, e) \<Rightarrow>
          if gvr_Resource g \<in> set names then (None, e)
          else (Some (Plain (''resource '' @ gvr_Resource g @ '' not found in '' @ gv)), e))"

fun compile_all :: "('ast, 'prog) cel \<Rightarrow> string list \<Rightarrow> 'prog program_cache \<Rightarrow> goerr option \<times> 'prog program_cache" where
  "compile_all cel [] pc = (None, pc)"
| "compile_all cel (x # xs) pc =
     (case Compile cel x pc of (Some err, pc) \<Rightarrow> (Some err, pc) | (None, pc) \<Rightarrow> compile_all cel xs pc)"

definition validateExpressions ::
  "('ast, 'prog) cel \<Rightarrow> ors \<Rightarrow> 'prog program_cache \<Rightarrow> goerr option \<times> 'prog program_cache" where
  "validateExpressions cel rule pc =
     (case compile_all cel (map ru_Expression (Rules rule)) pc of
        (Some err, pc) \<Rightarrow> (Some err, pc)
      | (None, pc) \<Rightarrow> compile_all cel (map le_Expression (os_LabelExpressions (ors_Spec rule))) pc)"

definition Validate ::
  "'w kube \<Rightarrow> ('ast, 'prog) cel \<Rightarrow> ors \<Rightarrow> 'prog program_cache \<Rightarrow> 'w kenv \<Rightarrow>
     ors \<times> 'prog program_cache \<times> 'w kenv"
where
  "Validate k cel rule pc e =
     (let (err, e) = validateTargetGVR k rule e;
          (rule, e) = (case err of
             Some err \<Rightarrow> set_condition k (mk_condition TypeInvalidTarget StatusTrue ReasonGVRNotFound Critical
               (''Target GVR does not exist: '' @ Error err)) rule e
           | None \<Rightarrow> (rule, e));
          (err, pc) = validateExpressions cel rule pc;
          (rule, e) = (case err of
             Some err \<Rightarrow> set_condition k (mk_condition TypeInvalidRule StatusTrue ReasonInvalidExpression Critical
               (''Invalid CEL expression: '' @ Error err)) rule e
           | None \<Rightarrow> (rule, e));
          (rule, e) = (if \<not> HasBlockerCondition (ost_Conditions (ors_Status rule)) then
               set_condition k (mk_condition TypeValidated StatusTrue ReasonCompleted Advisory
                 ''Validation has been completed.'') rule e
             else (rule, e)) in
      (rule, pc, e))"

section \<open>Setup and teardown\<close>

definition Setup :: "string list \<Rightarrow> ors \<Rightarrow> 'prog controller \<Rightarrow> goerr option \<times> 'prog controller" where
  "Setup frames rule s =
     (let s = s\<lparr>ct_Rules := AddOrUpdateRule rule (ct_Rules s)\<rparr>;
          (err, ws) = Register frames (ors_GVR rule) (ct_Watches s);
          s = s\<lparr>ct_Watches := ws\<rparr> in
      if err \<noteq> None then (err, s\<lparr>ct_Rules := RemoveRule rule (ct_Rules s)\<rparr>) else (None, s))"

definition Teardown :: "orders \<Rightarrow> ors \<Rightarrow> 'prog controller \<Rightarrow> 'prog controller option" where
  "Teardown ord rule s =
     (let s = s\<lparr>ct_Rules := RemoveRule rule (ct_Rules s)\<rparr> in
      case Watcher_Prune (order_watches ord (ct_Watches s)) (order_rules ord (ct_Rules s)) (ct_Rules s) (ct_Watches s) of
        None \<Rightarrow> None
      | Some ws \<Rightarrow> Some (s\<lparr>ct_Watches := ws\<rparr>))"

section \<open>Reconcile\<close>

definition Ended :: "settings \<Rightarrow> duration \<Rightarrow> goerr option \<Rightarrow> duration" where
  "Ended st reQin err = (if err = None then reQin else RequeueInterval st)"

text \<open>The part of \<open>Reconcile\<close> after the finalizers: validation, setup, status.\<close>

definition reconcile_status ::
  "'w kube \<Rightarrow> settings \<Rightarrow> ('ast, 'prog) cel \<Rightarrow> ors \<Rightarrow> 'prog controller \<Rightarrow> 'w kenv \<Rightarrow>
     duration \<times> goerr option \<times> 'prog controller \<times> 'w kenv"
where
  "reconcile_status k st cel rule s e =
     (let rule = over_conditions BeginStagingConditions rule;
          (rule, pc, e) = Validate k cel rule (ct_Programs s) e;
          s = s\<lparr>ct_Programs := pc\<rparr>;
          (requeue, rule, s, e) =
            (if HasBlockerCondition (ost_Conditions (ors_Status rule)) then (RequeueInterval st, rule, s, e)
             else
               (case Setup (k_frames k) rule s of
                  (Some err, s) \<Rightarrow>
                    (let rule = set_WatchActive False rule;
                         (rule, e) = set_condition k (mk_condition TypeWatchFailed StatusTrue ReasonWatchSetupFailed []
                           (''Failed to setup watch: '' @ Error err)) rule e in
                     (RequeueInterval st, rule, s, e))
                | (None, s) \<Rightarrow>
                    (let rule = set_WatchActive True rule;
                         (rule, e) = set_condition k (mk_condition TypeReady StatusTrue ReasonWatchActive Required
                           (''Dynamic watch is active for '' @ GVR_String (ors_GVR rule))) rule e in
                     (0, rule, s, e))));
          rule = over_conditions EndStagingConditions rule;
          (err, e) = kcall (k_UpdateStatus k rule) e in
      (requeue, (if err \<noteq> None then Wrap (k_frames k) err [] else None), s, e))"

text \<open>The finalizer part; the deletion timestamp is read again after the first patch.\<close>

definition reconcile_finalizers ::
  "'w kube \<Rightarrow> orders \<Rightarrow> ors \<Rightarrow> 'prog controller \<Rightarrow> 'w kenv \<Rightarrow> ((goerr + ors) \<times> 'prog controller \<times> 'w kenv) option"
where
  "reconcile_finalizers k ord rule s e =
     (case (if \<not> IsZero (ors_DeletionTimestamp rule) then
              (case Teardown ord rule s of
                 None \<Rightarrow> None
               | Some s \<Rightarrow> (case RemoveFinalizer k rule e of (r, e) \<Rightarrow> Some (r, s, e)))
            else Some (Inr rule, s, e)) of
        None \<Rightarrow> None
      | Some (Inl err, s, e) \<Rightarrow> Some (Inl err, s, e)
      | Some (Inr rule, s, e) \<Rightarrow>
          (if IsZero (ors_DeletionTimestamp rule) then
             (case AddFinalizer k rule e of (r, e) \<Rightarrow> Some (r, s, e))
           else Some (Inr rule, s, e)))"

definition reconcile_body ::
  "'w kube \<Rightarrow> settings \<Rightarrow> ('ast, 'prog) cel \<Rightarrow> orders \<Rightarrow> string \<Rightarrow> 'prog controller \<Rightarrow> 'w kenv \<Rightarrow>
     (duration \<times> goerr option \<times> 'prog controller \<times> 'w kenv) option"
where
  "reconcile_body k st cel ord nm s e =
     (case kcall (k_Get k nm) e of
        (Inl (NotFound err), e) \<Rightarrow> Some (0, None, s, e)
      | (Inl (GetFailed err), e) \<Rightarrow> Some (0, Some err, s, e)
      | (Inr rule, e) \<Rightarrow>
          (case reconcile_finalizers k ord rule s e of
             None \<Rightarrow> None
           | Some (Inl err, s, e) \<Rightarrow> Some (0, Some err, s, e)
           | Some (Inr rule, s, e) \<Rightarrow> Some (reconcile_status k st cel rule s e)))"

text \<open>The deferred function passes the result through \<open>Ended\<close> and clears the error.\<close>

definition Reconcile ::
  "'w kube \<Rightarrow> settings \<Rightarrow> ('ast, 'prog) cel \<Rightarrow> orders \<Rightarrow> string \<Rightarrow> 'prog controller \<Rightarrow> 'w kenv \<Rightarrow>
     (duration \<times> goerr option \<times> 'prog controller \<times> 'w kenv) option"
where
  "Reconcile k st cel ord nm s e =
     (case reconcile_body k st cel ord nm s e of
        None \<Rightarrow> None
      | Some (requeue, err, s, e) \<Rightarrow> Some (Ended st requeue err, None, s, e))"

definition NewController :: "'prog controller" where
  "NewController = \<lparr>ct_Rules = NewRuleCache, ct_Watches = NewWatchCache, ct_Programs = NewProgramCache\<rparr>"

section \<open>The two caches together\<close>

text \<open>
  The invariant of the controller: both caches are well formed, and a GVR is watched exactly when a
  rule set in the cache targets it.
\<close>

definition controller_inv :: "('ast, 'prog) cel \<Rightarrow> 'prog controller \<Rightarrow> bool" where
  "controller_inv cel s \<longleftrightarrow> wf_rules (ct_Rules s) \<and> watch_inv (ct_Watches s) \<and> cache_ok cel (ct_Programs s) \<and>
     (\<forall>g. Exists g (ct_Watches s) \<longleftrightarrow> List_rules (ct_Rules s) g \<noteq> [])"

definition orders_ok :: "orders \<Rightarrow> bool" where
  "orders_ok ord \<longleftrightarrow>
     (\<forall>c. finite (dom (wc_watches c)) \<longrightarrow> enumerates (order_watches ord c) (wc_watches c)) \<and>
     (\<forall>c. finite (dom (rc_cache c)) \<longrightarrow> enumerates (order_rules ord c) (rc_cache c))"

text \<open>The order of the targets themselves is one.\<close>

definition sorted_orders :: orders where
  "sorted_orders = \<lparr>order_watches = (\<lambda>c. sorted_list_of_set (dom (wc_watches c))),
     order_rules = (\<lambda>c. sorted_list_of_set (dom (rc_cache c)))\<rparr>"

lemma orders_ok_sorted: "orders_ok sorted_orders"
  by (simp add: orders_ok_def sorted_orders_def enumerates_sorted)

lemma set_GVRs: "enumerates ks (rc_cache c) \<Longrightarrow> set (GVRs ks c) = {g. List_rules c g \<noteq> []}"
  by (auto simp: GVRs_def enumerates_def List_rules_def cached_def split: option.splits)

lemma rules_AddOrUpdateRule:
  assumes "wf_rules c"
  shows "List_rules (AddOrUpdateRule r c) g \<noteq> [] \<longleftrightarrow> g = ors_GVR r \<or> List_rules c g \<noteq> []"
  using ruleCache.set_upsert [OF assms, of r g] by (cases "g = ors_GVR r") (metis empty_iff insert_not_empty list.set(1) set_empty)+

lemma rules_RemoveRule_other: "wf_rules c \<Longrightarrow> g \<noteq> ors_GVR r \<Longrightarrow> List_rules (RemoveRule r c) g \<noteq> [] \<longleftrightarrow> List_rules c g \<noteq> []"
  using ruleCache.set_drop [of c r g] by (metis set_empty)

lemma rules_RemoveRule_sub: "wf_rules c \<Longrightarrow> set (List_rules (RemoveRule r c) g) \<subseteq> set (List_rules c g)"
  by (subst ruleCache.set_drop) auto

lemma Register_watches:
  assumes "Register frames g c = (err, c')"
  shows "(err = None \<longrightarrow> Exists g c') \<and> (err \<noteq> None \<longrightarrow> \<not> Exists g c \<and> wc_watches c' = wc_watches c) \<and>
    (\<forall>h. h \<noteq> g \<longrightarrow> (Exists h c' \<longleftrightarrow> Exists h c))"
  using assms
  by (auto simp: Register_def Exists_def makeInformer_def addHandlers_def AddEventHandler_def
      Start_def Watch_Start_def Let_def split: option.splits if_splits prod.splits)

lemma Setup_inv:
  assumes inv: "controller_inv cel s" and st: "Setup frames rule s = (err, s')"
  shows "controller_inv cel s' \<and> (err = None \<longrightarrow> rule \<in> set (List_rules (ct_Rules s') (ors_GVR rule)) \<and> Exists (ors_GVR rule) (ct_Watches s'))"
proof -
  let ?g = "ors_GVR rule" and ?rc = "AddOrUpdateRule rule (ct_Rules s)"
  obtain er ws where reg: "Register frames ?g (ct_Watches s) = (er, ws)" by force
  note rw = Register_watches [OF reg]
  have wf: "wf_rules (ct_Rules s)" "wf_rules ?rc" and wi: "watch_inv ws"
    using inv Register_inv [of "ct_Watches s" frames ?g] reg by (simp_all add: controller_inv_def wf_AddOrUpdateRule)
  have cov: "Exists g (ct_Watches s) \<longleftrightarrow> List_rules (ct_Rules s) g \<noteq> []" for g
    using inv by (simp add: controller_inv_def)
  show ?thesis
  proof (cases er)
    case None
    with st reg have s': "err = None" "s' = s\<lparr>ct_Rules := ?rc, ct_Watches := ws\<rparr>"
      by (auto simp: Setup_def Let_def)
    have "rule \<in> set (List_rules ?rc ?g)" using ruleCache.set_upsert [OF wf(1)] by simp
    moreover have "Exists g ws \<longleftrightarrow> List_rules ?rc g \<noteq> []" for g
      using rules_AddOrUpdateRule [OF wf(1)] rw None cov by (cases "g = ?g") auto
    ultimately show ?thesis using s' inv wf wi rw None by (simp add: controller_inv_def)
  next
    case (Some er')
    with st reg have s': "err \<noteq> None" "s' = s\<lparr>ct_Rules := RemoveRule rule ?rc, ct_Watches := ws\<rparr>"
      by (auto simp: Setup_def Let_def)
    have nog: "List_rules (ct_Rules s) ?g = []" using cov [of ?g] rw Some by simp
    have "set (List_rules (RemoveRule rule ?rc) ?g) = {}"
      using ruleCache.set_drop [OF wf(2), of rule ?g] ruleCache.set_upsert [OF wf(1), of rule ?g] nog by auto
    then have "Exists g ws \<longleftrightarrow> List_rules (RemoveRule rule ?rc) g \<noteq> []" for g
      using rules_RemoveRule_other [OF wf(2), of g rule] rules_AddOrUpdateRule [OF wf(1), of rule g] rw Some cov
      by (cases "g = ?g") (auto simp: Exists_def)
    then have "controller_inv cel s'" using s' inv wf_RemoveRule [OF wf(2)] wi by (simp add: controller_inv_def)
    with s'(1) show ?thesis by blast
  qed
qed

lemma Teardown_inv:
  assumes inv: "controller_inv cel s" and ord: "orders_ok ord"
  shows "\<exists>s'. Teardown ord rule s = Some s' \<and> controller_inv cel s' \<and> ct_Programs s' = ct_Programs s \<and>
    ct_Rules s' = RemoveRule rule (ct_Rules s) \<and> rt_factory (wc_rt (ct_Watches s')) = rt_factory (wc_rt (ct_Watches s)) \<and>
    rt_informers (wc_rt (ct_Watches s')) = rt_informers (wc_rt (ct_Watches s))"
proof -
  let ?rc = "RemoveRule rule (ct_Rules s)" and ?ws = "ct_Watches s"
  have wf: "wf_rules (ct_Rules s)" "wf_rules ?rc" and wi: "watch_inv ?ws"
    using inv by (simp_all add: controller_inv_def wf_RemoveRule)
  then have ew: "enumerates (order_watches ord ?ws) (wc_watches ?ws)" and er: "enumerates (order_rules ord ?rc) (rc_cache ?rc)"
    using ord by (simp_all add: orders_ok_def watch_inv_def wf_rules_def)
  from Prune_inv [OF wi ew, of "GVRs (order_rules ord ?rc) ?rc"] obtain ws' where
    ws': "Prune (order_watches ord ?ws) (GVRs (order_rules ord ?rc) ?rc) ?ws = Some ws'" "watch_inv ws'"
      "wc_watches ws' = wc_watches ?ws |` set (GVRs (order_rules ord ?rc) ?rc)" by blast
  have "Exists g ws' \<longleftrightarrow> List_rules ?rc g \<noteq> []" for g
  proof -
    have "List_rules ?rc g \<noteq> [] \<Longrightarrow> List_rules (ct_Rules s) g \<noteq> []"
      using rules_RemoveRule_sub [OF wf(1), of rule g] by force
    moreover have "Exists g ws' \<longleftrightarrow> Exists g ?ws \<and> List_rules ?rc g \<noteq> []"
      using ws'(3) by (auto simp: Exists_def restrict_map_def set_GVRs [OF er])
    ultimately show ?thesis using inv by (auto simp: controller_inv_def)
  qed
  then have "controller_inv cel (s\<lparr>ct_Rules := ?rc, ct_Watches := ws'\<rparr>)"
    using inv wf ws' by (simp add: controller_inv_def)
  moreover have "rt_factory (wc_rt ws') = rt_factory (wc_rt ?ws) \<and> rt_informers (wc_rt ws') = rt_informers (wc_rt ?ws)"
    using stop_list_frame [OF ws'(1) [unfolded Prune_list]] .
  ultimately show ?thesis
    using ws'(1) by (simp add: Teardown_def Watcher_Prune_def Let_def)
qed

section \<open>What validation reports\<close>

definition target_served :: "'w kube \<Rightarrow> ors \<Rightarrow> 'w kenv \<Rightarrow> bool" where
  "target_served k rule e =
     (case fst (k_Discover k (GroupVersion_String (gvr_Group (ors_GVR rule)) (gvr_Version (ors_GVR rule))) (ke_world e)) of
        Inl _ \<Rightarrow> False | Inr names \<Rightarrow> gvr_Resource (ors_GVR rule) \<in> set names)"

definition exprs_compile :: "('ast, 'prog) cel \<Rightarrow> ors \<Rightarrow> bool" where
  "exprs_compile cel rule \<longleftrightarrow>
     (\<forall>x \<in> set (map ru_Expression (Rules rule) @ map le_Expression (os_LabelExpressions (ors_Spec rule))).
        \<exists>prog. compiled cel x = Inr prog)"

lemma comp_all_compile_all: "celEvaluator.comp_all TYPE('x) cel xs pc = compile_all cel xs pc"
  by (induction xs arbitrary: pc) (auto split: option.splits prod.splits)

lemma validateExpressions_spec:
  assumes "cache_ok cel pc"
  shows "\<exists>err pc'. validateExpressions cel rule pc = (err, pc') \<and> cache_ok cel pc' \<and> (err = None \<longleftrightarrow> exprs_compile cel rule)"
proof -
  from celEvaluator.comp_all_spec [OF assms, of "map ru_Expression (Rules rule)"] obtain e1 p1 where
    e1: "compile_all cel (map ru_Expression (Rules rule)) pc = (e1, p1)" "cache_ok cel p1"
      "e1 = None \<longleftrightarrow> (\<forall>x \<in> set (map ru_Expression (Rules rule)). \<exists>prog. compiled cel x = Inr prog)"
    by (auto simp: comp_all_compile_all)
  from celEvaluator.comp_all_spec [OF e1(2), of "map le_Expression (os_LabelExpressions (ors_Spec rule))"] obtain e2 p2 where
    e2: "compile_all cel (map le_Expression (os_LabelExpressions (ors_Spec rule))) p1 = (e2, p2)" "cache_ok cel p2"
      "e2 = None \<longleftrightarrow> (\<forall>x \<in> set (map le_Expression (os_LabelExpressions (ors_Spec rule))). \<exists>prog. compiled cel x = Inr prog)"
    by (auto simp: comp_all_compile_all)
  show ?thesis
    using e1 e2 by (cases e1) (auto simp: validateExpressions_def exprs_compile_def)
qed

lemma validateTargetGVR_spec: "fst (validateTargetGVR k rule e) = None \<longleftrightarrow> target_served k rule e"
  by (auto simp: validateTargetGVR_def target_served_def kcall_def Let_def split: sum.split prod.split)

text \<open>The conditions the validation leaves, from the three places that set one.\<close>

definition verdict :: "bool \<Rightarrow> bool \<Rightarrow> time \<Rightarrow> string \<Rightarrow> time \<Rightarrow> string \<Rightarrow> time \<Rightarrow> conditions \<Rightarrow> conditions" where
  "verdict served compile t1 m1 t2 m2 t3 c =
     (let c = (if served then c else SetCondition1 t1 (mk_condition TypeInvalidTarget StatusTrue ReasonGVRNotFound Critical m1) c);
          c = (if compile then c else SetCondition1 t2 (mk_condition TypeInvalidRule StatusTrue ReasonInvalidExpression Critical m2) c) in
      if HasBlockerCondition c then c
      else SetCondition1 t3 (mk_condition TypeValidated StatusTrue ReasonCompleted Advisory ''Validation has been completed.'') c)"

lemma over_conditions_conds [simp]:
  "ost_Conditions (ors_Status (over_conditions f rule)) = f (ost_Conditions (ors_Status rule))"
  "ors_GVR (over_conditions f rule) = ors_GVR rule" "Rules (over_conditions f rule) = Rules rule"
  "ors_Name (over_conditions f rule) = ors_Name rule" "ors_Spec (over_conditions f rule) = ors_Spec rule"
  by (simp_all add: over_conditions_def ors_GVR_eq Rules_def)

lemma over_conditions_checks [simp]:
  "exprs_compile cel (over_conditions f rule) = exprs_compile cel rule"
  "target_served k (over_conditions f rule) e = target_served k rule e"
  by (simp_all add: exprs_compile_def target_served_def split: sum.split)

lemma set_condition_over: "set_condition k c rule e =
    (over_conditions (SetCondition1 (k_clock k (ke_ticks e)) c) rule, e\<lparr>ke_ticks := ke_ticks e + 1\<rparr>)"
  by (simp add: set_condition_def over_conditions_def)

lemma over_over: "over_conditions f (over_conditions g rule) = over_conditions (f \<circ> g) rule"
  by (simp add: over_conditions_def)

lemma over_id: "over_conditions (\<lambda>c. c) rule = rule"
  by (simp add: over_conditions_def)

lemma Validate_spec:
  assumes "cache_ok cel pc"
  shows "\<exists>t1 m1 t2 m2 t3 pc' e'. Validate k cel rule pc e =
    (over_conditions (verdict (target_served k rule e) (exprs_compile cel rule) t1 m1 t2 m2 t3) rule, pc', e') \<and> cache_ok cel pc'"
proof -
  obtain err1 e1 where v1: "validateTargetGVR k rule e = (err1, e1)" by force
  have b1: "err1 = None \<longleftrightarrow> target_served k rule e" using validateTargetGVR_spec [of k rule e] v1 by simp
  let ?c1 = "\<lambda>err. SetCondition1 (k_clock k (ke_ticks e1)) (mk_condition TypeInvalidTarget StatusTrue ReasonGVRNotFound Critical
      (''Target GVR does not exist: '' @ Error err))"
  obtain rule1 e2 where r1: "(case err1 of Some err \<Rightarrow> set_condition k (mk_condition TypeInvalidTarget StatusTrue ReasonGVRNotFound Critical
               (''Target GVR does not exist: '' @ Error err)) rule e1 | None \<Rightarrow> (rule, e1)) = (rule1, e2)" by force
  then have rule1: "rule1 = over_conditions (case err1 of Some err \<Rightarrow> ?c1 err | None \<Rightarrow> (\<lambda>c. c)) rule"
    by (auto simp: set_condition_over over_id split: option.splits)
  from validateExpressions_spec [OF assms, of rule1] obtain err2 pc' where
    v2: "validateExpressions cel rule1 pc = (err2, pc')" "cache_ok cel pc'" "err2 = None \<longleftrightarrow> exprs_compile cel rule"
    by (auto simp: rule1)
  let ?c2 = "\<lambda>err. SetCondition1 (k_clock k (ke_ticks e2)) (mk_condition TypeInvalidRule StatusTrue ReasonInvalidExpression Critical
      (''Invalid CEL expression: '' @ Error err))"
  obtain rule2 e3 where r2: "(case err2 of Some err \<Rightarrow> set_condition k (mk_condition TypeInvalidRule StatusTrue ReasonInvalidExpression Critical
               (''Invalid CEL expression: '' @ Error err)) rule1 e2 | None \<Rightarrow> (rule1, e2)) = (rule2, e3)" by force
  then have rule2: "rule2 = over_conditions (case err2 of Some err \<Rightarrow> ?c2 err | None \<Rightarrow> (\<lambda>c. c)) rule1"
    by (auto simp: set_condition_over over_id split: option.splits)
  define m1 where "m1 = ''Target GVR does not exist: '' @ Error (the err1)"
  define m2 where "m2 = ''Invalid CEL expression: '' @ Error (the err2)"
  let ?f = "verdict (target_served k rule e) (exprs_compile cel rule) (k_clock k (ke_ticks e1)) m1
      (k_clock k (ke_ticks e2)) m2 (k_clock k (ke_ticks e3))"
  have "\<exists>e'. Validate k cel rule pc e = (over_conditions ?f rule, pc', e')"
    using v1 b1 v2 r1 r2 rule1 rule2
    by (cases err1; cases err2)
      (auto simp: Validate_def set_condition_over over_over over_id verdict_def Let_def m1_def m2_def over_conditions_def
        split: if_splits)
  then show ?thesis using v2(2) by blast
qed

lemma mk_condition_sel [simp]:
  "c_Type (mk_condition ty st re ca me) = ty" "c_Status (mk_condition ty st re ca me) = st"
  "c_Category (mk_condition ty st re ca me) = ca" "c_Durable (mk_condition ty st re ca me) = False"
  by (simp_all add: mk_condition_def)

lemma blocker_put_critical:
  assumes "wf_conditions r" and "c_Status c = StatusTrue" and "c_Category c = Critical"
  shows "HasBlockerCondition (SetCondition1 now c r)"
proof -
  from board.put_same [OF assms(1), of now c] obtain c' where
    "FindCondition (SetCondition1 now c r) (c_Type c) = Some c'" "Equal c' c" by blast
  then show ?thesis
    using assms blocker_visible [OF wf_SetCondition1 [OF assms(1)], of now c] by (auto simp: Equal_def)
qed

lemma blocker_put_harmless:
  assumes "wf_conditions r" and "c_Category c \<noteq> Critical" and "c_Category c \<noteq> ErrorCategory" and "\<not> HasBlockerCondition r"
  shows "\<not> HasBlockerCondition (SetCondition1 now c r)"
proof
  assume "HasBlockerCondition (SetCondition1 now c r)"
  then obtain t x where x: "FindCondition (SetCondition1 now c r) t = Some x" "c_Status x = StatusTrue"
    "c_Category x = Critical \<or> c_Category x = ErrorCategory"
    using blocker_visible [OF wf_SetCondition1 [OF assms(1)], of now c] by blast
  show False
  proof (cases "t = c_Type c")
    case True
    with board.put_same [OF assms(1), of now c] x assms(2,3) show False by (auto simp: Equal_def)
  next
    case False
    with board.put_other [OF assms(1) False] x assms(4) blocker_visible [OF assms(1)] show False by auto
  qed
qed

lemma blocker_put_mono:
  assumes "wf_conditions r" and "c_Status c = StatusTrue" and "c_Category c = Critical"
  shows "HasBlockerCondition (SetCondition1 now c r) = (HasBlockerCondition r \<or> True)"
  using blocker_put_critical [OF assms] by simp

lemma categories_differ [simp]:
  "Advisory \<noteq> Critical" "Advisory \<noteq> ErrorCategory" "Required \<noteq> Critical" "Required \<noteq> ErrorCategory"
  by (simp_all add: category_defs)

lemma verdict_wf: "wf_conditions c \<Longrightarrow> wf_conditions (verdict a b t1 m1 t2 m2 t3 c)"
  by (simp add: verdict_def Let_def wf_SetCondition1)

lemma verdict_blocker:
  assumes "wf_conditions c"
  shows "HasBlockerCondition (verdict a b t1 m1 t2 m2 t3 c) \<longleftrightarrow> HasBlockerCondition c \<or> \<not> a \<or> \<not> b"
  using assms blocker_put_critical blocker_put_harmless
  by (cases a; cases b) (auto simp: verdict_def Let_def wf_SetCondition1)

section \<open>One reconcile\<close>

lemma reconcile_status_spec:
  assumes "cache_ok cel (ct_Programs s)"
    and "reconcile_status k st cel rule s e = (requeue, err, s', e')"
  shows "\<exists>pc c. cache_ok cel pc \<and>
    (\<exists>t1 m1 t2 m2 t3. c = verdict (target_served k rule e) (exprs_compile cel rule) t1 m1 t2 m2 t3
       (BeginStagingConditions (ost_Conditions (ors_Status rule)))) \<and>
    (if HasBlockerCondition c then s' = s\<lparr>ct_Programs := pc\<rparr> \<and> requeue = RequeueInterval st
     else \<exists>er. Setup (k_frames k) (over_conditions (\<lambda>_. c) rule) (s\<lparr>ct_Programs := pc\<rparr>) = (er, s') \<and>
       requeue = (if er = None then 0 else RequeueInterval st))"
proof -
  let ?rule = "over_conditions BeginStagingConditions rule"
  from Validate_spec [OF assms(1), of k ?rule e] obtain t1 m1 t2 m2 t3 pc e1 where
    v: "Validate k cel ?rule (ct_Programs s) e = (over_conditions (verdict (target_served k rule e) (exprs_compile cel rule) t1 m1 t2 m2 t3) ?rule, pc, e1)"
    "cache_ok cel pc" by auto
  define c where "c = verdict (target_served k rule e) (exprs_compile cel rule) t1 m1 t2 m2 t3
       (BeginStagingConditions (ost_Conditions (ors_Status rule)))"
  have c: "\<exists>t1 m1 t2 m2 t3. c = verdict (target_served k rule e) (exprs_compile cel rule) t1 m1 t2 m2 t3
       (BeginStagingConditions (ost_Conditions (ors_Status rule)))"
    unfolding c_def by blast
  have r: "over_conditions (verdict (target_served k rule e) (exprs_compile cel rule) t1 m1 t2 m2 t3) ?rule = over_conditions (\<lambda>_. c) rule"
    by (simp add: over_conditions_def c_def)
  obtain er s1 where su: "Setup (k_frames k) (over_conditions (\<lambda>_. c) rule) (s\<lparr>ct_Programs := pc\<rparr>) = (er, s1)" by force
  have "if HasBlockerCondition c then s' = s\<lparr>ct_Programs := pc\<rparr> \<and> requeue = RequeueInterval st
     else s' = s1 \<and> requeue = (if er = None then 0 else RequeueInterval st)"
    using assms(2) v(1) su unfolding r
    by (cases er) (auto simp: reconcile_status_def r Let_def split: prod.splits if_splits)
  with v(2) su c show ?thesis by (intro exI [of _ pc] exI [of _ c]) (cases "HasBlockerCondition c"; simp)
qed

lemma reconcile_status_inv:
  assumes "controller_inv cel s" and "reconcile_status k st cel rule s e = (requeue, err, s', e')"
  shows "controller_inv cel s'"
proof -
  have "cache_ok cel (ct_Programs s)" using assms(1) by (simp add: controller_inv_def)
  from reconcile_status_spec [OF this assms(2)] obtain pc c where pc: "cache_ok cel pc"
    "if HasBlockerCondition c then s' = s\<lparr>ct_Programs := pc\<rparr> \<and> requeue = RequeueInterval st
     else \<exists>er. Setup (k_frames k) (over_conditions (\<lambda>_. c) rule) (s\<lparr>ct_Programs := pc\<rparr>) = (er, s') \<and>
       requeue = (if er = None then 0 else RequeueInterval st)" by blast
  have "controller_inv cel (s\<lparr>ct_Programs := pc\<rparr>)" using assms(1) pc(1) by (simp add: controller_inv_def)
  with pc(2) show ?thesis by (cases "HasBlockerCondition c") (auto dest: Setup_inv)
qed

lemma reconcile_finalizers_inv:
  assumes inv: "controller_inv cel s" and ord: "orders_ok ord"
  shows "\<exists>r s' e'. reconcile_finalizers k ord rule s e = Some (r, s', e') \<and> controller_inv cel s'"
proof -
  obtain s1 where "Teardown ord rule s = Some s1" "controller_inv cel s1"
    using Teardown_inv [OF inv ord] by blast
  with inv show ?thesis
    by (auto simp: reconcile_finalizers_def split: prod.split sum.split)
qed

lemma Reconcile_inv:
  assumes inv: "controller_inv cel s" and ord: "orders_ok ord"
  shows "\<exists>requeue s' e'. Reconcile k st cel ord nm s e = Some (requeue, None, s', e') \<and> controller_inv cel s'"
proof -
  obtain r e1 where g: "kcall (k_Get k nm) e = (r, e1)" by force
  show ?thesis
  proof (cases r)
    case (Inl er)
    with g inv show ?thesis by (cases er) (simp_all add: Reconcile_def reconcile_body_def)
  next
    case (Inr rule)
    obtain r2 s2 e2 where f: "reconcile_finalizers k ord rule s e1 = Some (r2, s2, e2)" "controller_inv cel s2"
      using reconcile_finalizers_inv [OF inv ord] by metis
    show ?thesis
    proof (cases r2)
      case (Inl er)
      with g Inr f show ?thesis by (simp add: Reconcile_def reconcile_body_def)
    next
      case (Inr rule2)
      obtain rq er s3 e3 where "reconcile_status k st cel rule2 s2 e2 = (rq, er, s3, e3)" by (metis prod_cases4)
      with reconcile_status_inv [OF f(2)] g f \<open>r = Inr rule\<close> Inr show ?thesis
        by (auto simp: Reconcile_def reconcile_body_def)
    qed
  qed
qed

section \<open>The system\<close>

text \<open>
  The reachable states of the controller: any reconciles, against a server that answers anything,
  any handler compiling or evaluating through the shared evaluator, and the goroutines of the
  informers. \<open>ord\<close> may differ at each step.
\<close>

inductive controller_reach ::
  "'w kube \<Rightarrow> 'v sys \<Rightarrow> ('ast, 'prog) cel \<Rightarrow> 'prog controller \<Rightarrow> bool" for k sys cel where
  new: "controller_reach k sys cel NewController"
| reconcile: "controller_reach k sys cel s \<Longrightarrow> orders_ok ord \<Longrightarrow>
    Reconcile k st cel ord nm s e = Some (requeue, err, s', e') \<Longrightarrow> controller_reach k sys cel s'"
| handling: "controller_reach k sys cel s \<Longrightarrow>
    handle sys st cel (ct_Rules s) obj g (ct_Programs s) e = (err, pc, e') \<Longrightarrow>
    controller_reach k sys cel (s\<lparr>ct_Programs := pc\<rparr>)"
| scheduling: "controller_reach k sys cel s \<Longrightarrow> sched_step (wc_rt (ct_Watches s)) rt \<Longrightarrow>
    controller_reach k sys cel (s\<lparr>ct_Watches := (ct_Watches s)\<lparr>wc_rt := rt\<rparr>\<rparr>)"

lemma handle_cache_ok:
  assumes "cache_ok cel pc" and "handle sys st cel rules obj g pc e = (err, pc', e')"
  shows "cache_ok cel pc'"
proof (cases obj)
  case ObjOther
  with assms show ?thesis by (simp add: handle_def)
next
  case (ObjSubject subj)
  from eval_loop_spec [OF assms(1), of sys subj "List_rules rules g" "[]" Map.empty e] obtain acc pc1 e1
    where "eval_loop sys cel subj (List_rules rules g) ([], Map.empty) pc e = (acc, pc1, e1)" "cache_ok cel pc1" by blast
  with assms ObjSubject show ?thesis
    by (cases acc) (auto simp: handle_def Let_def split: prod.splits sum.splits if_splits)
qed

lemma controller_reach_inv: "controller_reach k sys cel s \<Longrightarrow> controller_inv cel s"
proof (induction rule: controller_reach.induct)
  case new
  have "watch_inv NewWatchCache" by (rule watch_reach_inv [OF watch_reach.init])
  then show ?case
    by (simp add: NewController_def controller_inv_def Exists_def NewWatchCache_def List_rules_def)
next
  case (reconcile s ord st nm e requeue err s' e')
  then show ?case using Reconcile_inv by (metis option.inject prod.inject)
next
  case (handling s st obj g e err pc e')
  then have "cache_ok cel pc" using handle_cache_ok by (auto simp: controller_inv_def)
  with handling.IH show ?case by (simp add: controller_inv_def)
next
  case (scheduling s rt)
  then have "watch_inv ((ct_Watches s)\<lparr>wc_rt := rt\<rparr>)"
    using sched_extends watch_inv_extends by (metis controller_inv_def watch_inv_def)
  with scheduling.IH show ?case by (simp add: controller_inv_def Exists_def)
qed

section \<open>Properties\<close>


text \<open>
  C9. \<open>Reconcile\<close> never panics and never returns an error: from every reachable state, whatever the
  server answers and in whatever order the caches are visited, it yields a result.
\<close>

theorem Reconcile_total:
  assumes "controller_reach k sys cel s" and "orders_ok ord"
  shows "\<exists>requeue s' e'. Reconcile k st cel ord nm s e = Some (requeue, None, s', e')"
  using Reconcile_inv [OF controller_reach_inv [OF assms(1)] assms(2)] by blast

definition no_durable :: "conditions \<Rightarrow> bool" where
  "no_durable c \<longleftrightarrow> (\<forall>x \<in> set (cs_List c). \<not> c_Durable x)"

lemma Begin_hides:
  assumes "no_durable c"
  shows "FindCondition (BeginStagingConditions c) t = None"
proof -
  have "\<not> c_staged (cs_List (BeginStagingConditions c) ! i)" if "find_cnd (cs_List (BeginStagingConditions c)) t = Some i" for i
    using assms find_cnd_Some [OF that] by (auto simp: BeginStagingConditions_def no_durable_def)
  then show ?thesis by (auto simp: FindCondition_def BeginStagingConditions_def split: option.split)
qed

lemma Begin_no_blocker:
  assumes "wf_conditions c" and "no_durable c"
  shows "\<not> HasBlockerCondition (BeginStagingConditions c)"
  using blocker_visible [OF wf_BeginStaging [OF assms(1)]] Begin_hides [OF assms(2)] by simp

lemma types_differ [simp]: "TypeInvalidTarget \<noteq> TypeInvalidRule" "TypeInvalidRule \<noteq> TypeInvalidTarget"
  "TypeValidated \<noteq> TypeInvalidTarget" "TypeInvalidTarget \<noteq> TypeValidated"
  "TypeValidated \<noteq> TypeInvalidRule" "TypeInvalidRule \<noteq> TypeValidated"
  by (simp_all add: Type_defs)

lemma put_visible:
  assumes "wf_conditions r"
  shows "FindCondition (SetCondition1 now c r) t \<noteq> None \<longleftrightarrow> t = c_Type c \<or> FindCondition r t \<noteq> None"
  using board.put_same [OF assms, of now c] board.put_other [OF assms, of t c now] by (cases "t = c_Type c") auto

lemma verdict_visible:
  assumes wf: "wf_conditions c" and none: "\<And>t. FindCondition c t = None"
  shows "FindCondition (verdict a b t1 m1 t2 m2 t3 c) t \<noteq> None \<longleftrightarrow>
    t = TypeInvalidTarget \<and> \<not> a \<or> t = TypeInvalidRule \<and> \<not> b \<or> t = TypeValidated \<and> a \<and> b"
proof -
  have "\<not> HasBlockerCondition c" using blocker_visible [OF wf] none by simp
  moreover have "HasBlockerCondition (SetCondition1 n (mk_condition ty StatusTrue re Critical m) r)"
    if "wf_conditions r" for n ty re m r
    using blocker_put_critical [OF that] by simp
  ultimately show ?thesis
    using wf none by (cases a; cases b) (auto simp: verdict_def Let_def put_visible wf_SetCondition1 simp del: not_None_eq)
qed

text \<open>
  C8. What \<open>Validate\<close> reports, on a status without durable conditions: \<open>InvalidTarget\<close> exactly when
  discovery does not list the target, \<open>InvalidRule\<close> exactly when an expression does not compile,
  \<open>Validated\<close> exactly when neither; it blocks exactly in the first two cases; spec and name stay.
\<close>

theorem Validate_verdict:
  assumes "cache_ok cel pc" and "wf_conditions (ost_Conditions (ors_Status rule))"
    and "no_durable (ost_Conditions (ors_Status rule))"
    and "Validate k cel (over_conditions BeginStagingConditions rule) pc e = (rule', pc', e')"
  shows "(\<forall>t. FindCondition (ost_Conditions (ors_Status rule')) t \<noteq> None \<longleftrightarrow>
      t = TypeInvalidTarget \<and> \<not> target_served k rule e \<or> t = TypeInvalidRule \<and> \<not> exprs_compile cel rule \<or>
      t = TypeValidated \<and> target_served k rule e \<and> exprs_compile cel rule) \<and>
    (HasBlockerCondition (ost_Conditions (ors_Status rule')) \<longleftrightarrow> \<not> (target_served k rule e \<and> exprs_compile cel rule)) \<and>
    ors_Spec rule' = ors_Spec rule \<and> ors_Name rule' = ors_Name rule"
proof -
  let ?b = "BeginStagingConditions (ost_Conditions (ors_Status rule))"
  from Validate_spec [OF assms(1), of k "over_conditions BeginStagingConditions rule" e] assms(4)
  obtain t1 m1 t2 m2 t3 where r: "rule' = over_conditions (verdict (target_served k rule e) (exprs_compile cel rule) t1 m1 t2 m2 t3)
      (over_conditions BeginStagingConditions rule)" by auto
  have wf: "wf_conditions ?b" using assms(2) by (rule wf_BeginStaging)
  show ?thesis
    using verdict_visible [OF wf Begin_hides [OF assms(3)]] verdict_blocker [OF wf] Begin_no_blocker [OF assms(2,3)]
    by (simp add: r)
qed

lemma reconcile_status_ready:
  assumes inv: "controller_inv cel s" and wf: "wf_conditions (ost_Conditions (ors_Status rule))"
    and nd: "no_durable (ost_Conditions (ors_Status rule))"
    and ok: "target_served k rule e" "exprs_compile cel rule"
    and up: "\<forall>i. rt_factory (wc_rt (ct_Watches s)) (ors_GVR rule) = Some i \<longrightarrow>
      inf_phase (rt_informers (wc_rt (ct_Watches s)) ! i) \<noteq> Stopped"
    and r: "reconcile_status k st cel rule s e = (requeue, err, s', e')"
  shows "requeue = 0 \<and> Exists (ors_GVR rule) (ct_Watches s') \<and>
    (\<exists>r \<in> set (List_rules (ct_Rules s') (ors_GVR rule)). ors_Name r = ors_Name rule \<and> ors_Spec r = ors_Spec rule)"
proof -
  have co: "cache_ok cel (ct_Programs s)" using inv by (simp add: controller_inv_def)
  from reconcile_status_spec [OF co r] obtain pc c where pc: "cache_ok cel pc"
    "\<exists>t1 m1 t2 m2 t3. c = verdict (target_served k rule e) (exprs_compile cel rule) t1 m1 t2 m2 t3
       (BeginStagingConditions (ost_Conditions (ors_Status rule)))"
    "if HasBlockerCondition c then s' = s\<lparr>ct_Programs := pc\<rparr> \<and> requeue = RequeueInterval st
     else \<exists>er. Setup (k_frames k) (over_conditions (\<lambda>_. c) rule) (s\<lparr>ct_Programs := pc\<rparr>) = (er, s') \<and>
       requeue = (if er = None then 0 else RequeueInterval st)" by blast
  have "\<not> HasBlockerCondition c"
    using pc(2) verdict_blocker [OF wf_BeginStaging [OF wf]] Begin_no_blocker [OF wf nd] ok by auto
  with pc(3) obtain er where su: "Setup (k_frames k) (over_conditions (\<lambda>_. c) rule) (s\<lparr>ct_Programs := pc\<rparr>) = (er, s')"
    "requeue = (if er = None then 0 else RequeueInterval st)" by auto
  have "fst (Register (k_frames k) (ors_GVR rule) (ct_Watches s)) = None"
    using Register_fails_iff [of "k_frames k" "ors_GVR rule" "ct_Watches s"] up by blast
  with su(1) have "er = None" by (auto simp: Setup_def Let_def split: prod.splits if_splits)
  moreover have "controller_inv cel (s\<lparr>ct_Programs := pc\<rparr>)" using inv pc(1) by (simp add: controller_inv_def)
  from Setup_inv [OF this su(1)] \<open>er = None\<close> have
    "over_conditions (\<lambda>_. c) rule \<in> set (List_rules (ct_Rules s') (ors_GVR rule))" "Exists (ors_GVR rule) (ct_Watches s')" by simp_all
  ultimately show ?thesis using su(2) by (intro conjI bexI [of _ "over_conditions (\<lambda>_. c) rule"]) simp_all
qed

lemma Reconcile_kept:
  assumes "k_Get k nm (ke_world e) = (Inr rule, w)" and "IsZero (ors_DeletionTimestamp rule)"
    and "OperationRuleSetFinalizer \<in> set (ors_Finalizers rule)"
    and "reconcile_status k st cel rule s (e\<lparr>ke_world := w\<rparr>) = (requeue, err, s', e')"
  shows "Reconcile k st cel ord nm s e = Some (Ended st requeue err, None, s', e')"
  using assms
  by (simp add: Reconcile_def reconcile_body_def kcall_def reconcile_finalizers_def AddFinalizer_def util_AddFinalizer_def)




section \<open>Witnesses\<close>

text \<open>A server that stores one rule set and serves pods.\<close>

definition demo_kube :: "ors \<Rightarrow> unit kube" where
  "demo_kube rule = \<lparr>k_Get = (\<lambda>_ w. (Inr rule, w)), k_Patch = (\<lambda>r w. (Inr r, w)),
     k_UpdateStatus = (\<lambda>_ w. (None, w)), k_Discover = (\<lambda>_ w. (Inr [''pods''], w)),
     k_clock = (\<lambda>_. 1), k_frames = []\<rparr>"

definition demo_kenv :: "unit kenv" where "demo_kenv = \<lparr>ke_world = (), ke_ticks = 0\<rparr>"

definition finalized :: "ors \<Rightarrow> ors" where
  "finalized r = r\<lparr>ors_Finalizers := [OperationRuleSetFinalizer]\<rparr>"

definition deleted :: "ors \<Rightarrow> ors" where
  "deleted r = (finalized r)\<lparr>ors_DeletionTimestamp := Some 5\<rparr>"

lemma demo_rule_facts [simp]:
  "ors_GVR (finalized demo_rs) = pods" "ors_GVR (deleted demo_rs) = pods" "ors_GVR (finalized broken_rs) = pods"
  "ors_DeletionTimestamp (finalized demo_rs) = None" "ors_DeletionTimestamp (finalized broken_rs) = None"
  "ors_DeletionTimestamp (deleted demo_rs) = Some 5"
  "ors_Finalizers (finalized r) = [OperationRuleSetFinalizer]" "ors_Finalizers (deleted r) = [OperationRuleSetFinalizer]"
  "ost_Conditions (ors_Status (finalized demo_rs)) = empty_conditions"
  "ost_Conditions (ors_Status (finalized broken_rs)) = empty_conditions"
  "ost_Conditions (ors_Status (deleted demo_rs)) = empty_conditions"
  by (simp_all add: finalized_def deleted_def demo_rs_def broken_rs_def example_ors_def ors_GVR_eq)

lemma demo_compile [simp]:
  "exprs_compile echo_lib (finalized demo_rs)" "\<not> exprs_compile echo_lib (finalized broken_rs)"
  "exprs_compile echo_lib ((deleted demo_rs)\<lparr>ors_Finalizers := []\<rparr>)"
  by (simp_all add: exprs_compile_def Rules_def finalized_def deleted_def demo_rs_def broken_rs_def example_ors_def
      compiled_def echo_lib_def)

lemma demo_served [simp]: "ors_GVR rule = pods \<Longrightarrow> target_served (demo_kube r) rule e"
  by (simp add: target_served_def demo_kube_def pods_def)

lemma no_durable_empty [simp]: "no_durable empty_conditions"
  by (simp add: no_durable_def empty_conditions_def)

lemma demo_get [simp]: "k_Get (demo_kube r) nm w = (Inr r, w)" "k_Patch (demo_kube r) r' w = (Inr r', w)"
  by (simp_all add: demo_kube_def)

lemma new_not_stopped [simp]: "rt_factory (wc_rt (ct_Watches NewController)) g = None"
  by (simp add: NewController_def NewWatchCache_def)


theorem Reconcile_total_witness:
  "\<exists>requeue s' e'. Reconcile (demo_kube (deleted demo_rs)) demo_settings echo_lib sorted_orders ''vm'' NewController demo_kenv =
     Some (requeue, None, s', e')"
  by (rule Reconcile_total [OF controller_reach.new [of _ demo_sys] orders_ok_sorted])

theorem Validate_verdict_witness:
  "HasBlockerCondition (ost_Conditions (ors_Status (fst (Validate (demo_kube broken_rs) echo_lib
     (over_conditions BeginStagingConditions (finalized broken_rs)) NewProgramCache demo_kenv))))"
proof -
  obtain r pc e where v: "Validate (demo_kube broken_rs) echo_lib
     (over_conditions BeginStagingConditions (finalized broken_rs)) NewProgramCache demo_kenv = (r, pc, e)" by (metis prod_cases3)
  from Validate_verdict [OF cache_ok_New _ _ v] v show ?thesis by simp
qed




end
