(* ===== verification/Logging.thy ===== *)
theory Logging
  imports Settings
begin

text \<open>
  The logging package \<open>lib/logging\<close>. What is logged is an effect, modelled as the list of entries
  written so far. Below the package are \<open>logr\<close>, whose logger carries a V-level, names and values,
  and \<open>zapr\<close> over a zap core at debug level (\<open>ZapBuilder.New\<close>); both are vendored, and modelled
  as far as they decide whether an entry is written. The encoder and the sampling of stack traces
  are not.
\<close>

section \<open>logr over zap\<close>

record logr =
  lr_level :: int
  lr_names :: "string list"
  lr_values :: "any list"

datatype log_entry =
    InfoEntry (le_level: int) (le_names: "string list") (le_values: "any list") (le_msg: string) (le_kv: "any list")
  | ErrorEntry (le_names: "string list") (le_values: "any list") (le_err: goerr) (le_msg: string) (le_kv: "any list")

definition DebugLevel :: int where "DebugLevel = - 1"

definition toZapLevel :: "int \<Rightarrow> int" where
  "toZapLevel lvl = 0 - (if 127 < lvl then 127 else lvl)"

text \<open>The core that \<open>ZapBuilder.New\<close> makes lets a level pass that is at least \<open>DebugLevel\<close>.\<close>

definition sink_Enabled :: "int \<Rightarrow> bool" where
  "sink_Enabled lvl \<longleftrightarrow> DebugLevel \<le> toZapLevel lvl"

definition logr_Enabled :: "logr \<Rightarrow> bool" where
  "logr_Enabled l = sink_Enabled (lr_level l)"

definition logr_Info :: "logr \<Rightarrow> string \<Rightarrow> any list \<Rightarrow> log_entry list \<Rightarrow> log_entry list" where
  "logr_Info l msg kv out =
     (if logr_Enabled l then out @ [InfoEntry (lr_level l) (lr_names l) (lr_values l) msg kv] else out)"

definition logr_Error :: "logr \<Rightarrow> goerr \<Rightarrow> string \<Rightarrow> any list \<Rightarrow> log_entry list \<Rightarrow> log_entry list" where
  "logr_Error l err msg kv out = out @ [ErrorEntry (lr_names l) (lr_values l) err msg kv]"

definition logr_V :: "int \<Rightarrow> logr \<Rightarrow> logr" where
  "logr_V level l = l\<lparr>lr_level := lr_level l + (if level < 0 then 0 else level)\<rparr>"

definition logr_WithValues :: "any list \<Rightarrow> logr \<Rightarrow> logr" where
  "logr_WithValues kv l = l\<lparr>lr_values := lr_values l @ kv\<rparr>"

definition logr_WithName :: "string \<Rightarrow> logr \<Rightarrow> logr" where
  "logr_WithName nm l = l\<lparr>lr_names := lr_names l @ [nm]\<rparr>"

section \<open>Settings of the package\<close>

record log_settings =
  DebugThreshold :: int
  Development :: bool
  Level :: int

definition EnvDevelopment :: string where "EnvDevelopment = ''LOG_DEVELOPMENT''"
definition EnvLevel :: string where "EnvLevel = ''LOG_LEVEL''"

text \<open>\<open>strconv.ParseInt(s, 10, 8)\<close> where it does not fail.\<close>

definition ParseInt8 :: "string \<Rightarrow> int option" where
  "ParseInt8 s =
     (case Atoi s of
        (n, None) \<Rightarrow> if - 128 \<le> n \<and> n \<le> 127 then Some n else None
      | (n, Some err) \<Rightarrow> None)"

definition log_Load :: "environment \<Rightarrow> log_settings \<Rightarrow> log_settings" where
  "log_Load env r =
     (let r = r\<lparr>DebugThreshold := 4\<rparr>;
          r = (case env EnvDevelopment of
                 None \<Rightarrow> r
               | Some s \<Rightarrow> (case ParseBool s of (bv, None) \<Rightarrow> r\<lparr>Development := bv\<rparr> | (bv, Some err) \<Rightarrow> r));
          r = (case env EnvLevel of
                 None \<Rightarrow> r
               | Some s \<Rightarrow> (case ParseInt8 s of Some n \<Rightarrow> r\<lparr>Level := n\<rparr> | None \<Rightarrow> r)) in
      r)"

definition allowed :: "log_settings \<Rightarrow> int \<Rightarrow> bool" where
  "allowed r level \<longleftrightarrow> level \<le> Level r"

definition atDebug :: "log_settings \<Rightarrow> int \<Rightarrow> bool" where
  "atDebug r level \<longleftrightarrow> DebugThreshold r \<le> level"

section \<open>The factory\<close>

definition ZapBuilder_New :: logr where
  "ZapBuilder_New = \<lparr>lr_level = 0, lr_names = [], lr_values = []\<rparr>"

definition ZapBuilder_V :: "log_settings \<Rightarrow> int \<Rightarrow> logr \<Rightarrow> logr" where
  "ZapBuilder_V st level l = (if atDebug st level then logr_V 1 l else logr_V 0 l)"

section \<open>Level loggers\<close>

record level_logger =
  ll_real :: logr
  ll_level :: int

definition WithName :: "string \<Rightarrow> any list \<Rightarrow> level_logger" where
  "WithName nm kvpair =
     (let real = ZapBuilder_New;
          real = logr_WithValues kvpair real;
          real = logr_WithName nm real in
      \<lparr>ll_real = real, ll_level = 0\<rparr>)"

definition ll_Info :: "log_settings \<Rightarrow> level_logger \<Rightarrow> string \<Rightarrow> any list \<Rightarrow> log_entry list \<Rightarrow> log_entry list" where
  "ll_Info st l msg kv out = (if allowed st (ll_level l) then logr_Info (ll_real l) msg kv out else out)"

definition ll_Enabled :: "level_logger \<Rightarrow> bool" where
  "ll_Enabled l = logr_Enabled (ll_real l)"

definition ll_Error :: "level_logger \<Rightarrow> goerr \<Rightarrow> string \<Rightarrow> any list \<Rightarrow> log_entry list \<Rightarrow> log_entry list" where
  "ll_Error l err msg kv out = logr_Error (ll_real l) err msg kv out"

definition ll_V :: "int \<Rightarrow> level_logger \<Rightarrow> level_logger" where
  "ll_V level l = \<lparr>ll_real = logr_V level (ll_real l), ll_level = level\<rparr>"

definition ll_WithValues :: "any list \<Rightarrow> level_logger \<Rightarrow> level_logger" where
  "ll_WithValues kv l = \<lparr>ll_real = logr_WithValues kv (ll_real l), ll_level = ll_level l\<rparr>"

definition ll_WithName :: "string \<Rightarrow> level_logger \<Rightarrow> level_logger" where
  "ll_WithName nm l = \<lparr>ll_real = logr_WithName nm (ll_real l), ll_level = ll_level l\<rparr>"

definition ll_Trace :: "level_logger \<Rightarrow> goerr \<Rightarrow> any list \<Rightarrow> log_entry list \<Rightarrow> log_entry list" where
  "ll_Trace l err kvpair out = logr_Error (ll_real l) err [] kvpair out"

section \<open>Loggers\<close>

record logger =
  lo_Real :: logr
  lo_name :: string
  lo_level :: int

text \<open>\<open>Info\<close> does not look at the level it is given.\<close>

definition lo_Info :: "log_settings \<Rightarrow> logger \<Rightarrow> int \<Rightarrow> string \<Rightarrow> any list \<Rightarrow> log_entry list \<Rightarrow> log_entry list" where
  "lo_Info st l level message kvpair out =
     (if allowed st (lo_level l) then logr_Info (lo_Real l) message kvpair out else out)"

definition lo_Error ::
  "log_settings \<Rightarrow> logger \<Rightarrow> goerr option \<Rightarrow> string \<Rightarrow> any list \<Rightarrow> log_entry list \<Rightarrow> log_entry list"
where
  "lo_Error st l err message kvpair out =
     (case err of
        None \<Rightarrow> out
      | Some e \<Rightarrow>
          if \<not> allowed st (lo_level l) then out
          else
            (case e of
               LibError w d c s \<Rightarrow>
                 (let kvpair = Context e @ kvpair;
                      kvpair = kvpair @ [AStr ''error'', AStr (Error e), AStr ''stacktrace'', AStr (Stack e)] in
                  logr_Info (lo_Real l) message kvpair out)
             | Chained m i \<Rightarrow>
                 (case i of None \<Rightarrow> out | Some e \<Rightarrow> logr_Error (lo_Real l) e message kvpair out)
             | Plain m \<Rightarrow> logr_Error (lo_Real l) e message kvpair out))"

definition lo_Trace :: "log_settings \<Rightarrow> logger \<Rightarrow> goerr option \<Rightarrow> any list \<Rightarrow> log_entry list \<Rightarrow> log_entry list" where
  "lo_Trace st l err kvpair out = lo_Error st l err [] kvpair out"

definition lo_Enabled :: "logger \<Rightarrow> int \<Rightarrow> bool" where
  "lo_Enabled l level = logr_Enabled (lo_Real l)"

definition lo_V :: "log_settings \<Rightarrow> int \<Rightarrow> logger \<Rightarrow> logger" where
  "lo_V st level l = \<lparr>lo_Real = ZapBuilder_V st level (lo_Real l), lo_name = lo_name l, lo_level = level\<rparr>"

section \<open>Properties\<close>

lemma sink_Enabled_iff: "sink_Enabled lvl \<longleftrightarrow> lvl \<le> 1"
  by (auto simp: sink_Enabled_def toZapLevel_def DebugLevel_def)

lemma ParseInt8_range: "ParseInt8 s = Some n \<Longrightarrow> - 128 \<le> n \<and> n \<le> 127"
  by (auto simp: ParseInt8_def split: prod.splits option.splits if_splits)

text \<open>
  Which messages a \<open>Logger\<close> writes: one from \<open>Factory.New\<close>, asked for verbosity \<open>n\<close>, writes exactly
  one entry per message when \<open>n\<close> does not exceed the configured level, and none otherwise: the two
  zap levels that \<open>Factory.V\<close> maps verbosities to are both enabled.
\<close>

theorem logger_verbosity:
  "length (lo_Info st (lo_V st n \<lparr>lo_Real = ZapBuilder_New, lo_name = nm, lo_level = 0\<rparr>) lvl msg kv out) =
     length out + (if n \<le> Level st then 1 else 0)"
  by (simp add: lo_Info_def lo_V_def allowed_def ZapBuilder_V_def ZapBuilder_New_def logr_V_def logr_Info_def
      logr_Enabled_def sink_Enabled_iff)

text \<open>
  C40. The loggers the operator uses are silent from verbosity 2 on: \<open>levelLoggerImpl.V\<close> hands the verbosity
  to \<open>logr\<close> as it is, where the zap core at debug level drops it, so that raising \<open>LOG_LEVEL\<close>
  never brings the \<open>V(4)\<close> messages of the watcher out; verbosities 0 and 1 follow the level.
\<close>

theorem level_logger_verbosity:
  "ll_Info st (ll_V n (WithName nm vals)) msg kv out =
     (if n \<le> 1 \<and> n \<le> Level st then
        out @ [InfoEntry (if n < 0 then 0 else n) [nm] vals msg kv]
      else out)"
  by (auto simp: ll_Info_def ll_V_def WithName_def allowed_def ZapBuilder_New_def logr_V_def logr_Info_def
      logr_WithValues_def logr_WithName_def logr_Enabled_def sink_Enabled_iff)

text \<open>
  Logging an error. \<open>Logger.Error\<close> at an allowed level writes an error of the error package as an info entry
  with the error's context, the message's pairs, the description and the stack; of any other error with
  an \<open>Unwrap\<close> method it writes only what that returns, nothing when that is nil; and an error below
  the level leaves no trace.
\<close>

theorem logger_error_entries:
  assumes "lr_level (lo_Real l) \<le> 1"
  shows "lo_Error st l (Some e) msg kv out =
    out @ (if Level st < lo_level l then []
           else case e of
             LibError w d c s \<Rightarrow>
               [InfoEntry (lr_level (lo_Real l)) (lr_names (lo_Real l)) (lr_values (lo_Real l)) msg
                  (c @ kv @ [AStr ''error'', AStr (if d = [] then Error w else causedBy d (Error w)),
                    AStr ''stacktrace'', AStr (strings_Join s [CHR 0x0A])])]
           | Chained m None \<Rightarrow> []
           | Chained m (Some i) \<Rightarrow> [ErrorEntry (lr_names (lo_Real l)) (lr_values (lo_Real l)) i msg kv]
           | Plain m \<Rightarrow> [ErrorEntry (lr_names (lo_Real l)) (lr_values (lo_Real l)) e msg kv])"
  using assms
  by (cases e) (auto simp: lo_Error_def allowed_def logr_Info_def logr_Error_def logr_Enabled_def sink_Enabled_iff
      Context_def Stack_def split: option.splits)

theorem logger_error_entries_witness:
  "lo_Error \<lparr>DebugThreshold = 4, Development = False, Level = 0\<rparr>
     \<lparr>lo_Real = ZapBuilder_New, lo_name = [], lo_level = 0\<rparr>
     (Some (LibError (Plain ''boom'') ''starting'' [AStr ''gvr'', AStr ''pods''] [''f''])) ''msg'' [] [] =
   [InfoEntry 0 [] [] ''msg'' [AStr ''gvr'', AStr ''pods'', AStr ''error'', AStr (causedBy ''starting'' ''boom''),
      AStr ''stacktrace'', AStr ''f'']]"
  by (subst logger_error_entries) (simp_all add: ZapBuilder_New_def)

text \<open>
  \<open>Load\<close> never fails: a malformed or out-of-range variable leaves its setting as it was, the debug
  threshold becomes 4, and a level that is taken from the environment fits into eight bits.
\<close>

theorem log_Load_keeps:
  "DebugThreshold (log_Load env r) = 4 \<and>
   (Level (log_Load env r) = Level r \<or> (\<exists>s. env EnvLevel = Some s \<and> ParseInt8 s = Some (Level (log_Load env r)) \<and>
      - 128 \<le> Level (log_Load env r) \<and> Level (log_Load env r) \<le> 127)) \<and>
   (Development (log_Load env r) = Development r \<or>
      (\<exists>s. env EnvDevelopment = Some s \<and> ParseBool s = (Development (log_Load env r), None)))"
  using ParseInt8_range by (auto simp: log_Load_def Let_def split: option.splits prod.splits)

end
