(* ===== verification/Manager.thy ===== *)
theory Manager
  imports Reconciler Logging
begin

text \<open>
  The operator's process (\<open>cmd/manager/main.go\<close>) and the construction of its controller
  (\<open>Initialize\<close>, \<open>NewEvaluator\<close>): package initialisation, the command line with Go's \<open>flag\<close> package,
  the TLS and server options, and the sequence of steps up to \<open>Start\<close>. The steps call controller-runtime
  and client-go; what they answer may depend on all earlier calls, so it is a function of the calls made so
  far. The root logger of controller-runtime and the way its servers apply their options are vendored
  code, modelled as far as they decide which logger is used and which protocols are offered.
\<close>

section \<open>Command line flags\<close>

record 'c cli_flag =
  fl_Bool :: bool
  fl_Set :: "string \<Rightarrow> 'c \<Rightarrow> 'c option"

datatype 'c cli_result = Parsed 'c "string list" | ParseExit nat

text \<open>The name, and the value behind the first \<open>=\<close> that is not the first character.\<close>

definition split_flag :: "string \<Rightarrow> string \<times> string option" where
  "split_flag s =
     (let rest = dropWhile (\<lambda>c. c \<noteq> CHR ''='') (tl s) in
      if rest = [] then (s, None)
      else (take 1 s @ takeWhile (\<lambda>c. c \<noteq> CHR ''='') (tl s), Some (tl rest)))"

text \<open>
  \<open>flag.Parse\<close> with \<open>ExitOnError\<close>: the first argument that is not a flag, or \<open>--\<close>, ends the flags; an error
  exits with 2, a request for help with 0.
\<close>

fun flag_parse :: "(string \<Rightarrow> 'c cli_flag option) \<Rightarrow> string list \<Rightarrow> 'c \<Rightarrow> 'c cli_result" where
  "flag_parse formal [] c = Parsed c []"
| "flag_parse formal (s # args) c =
     (if length s < 2 \<or> hd s \<noteq> CHR ''-'' then Parsed c (s # args)
      else if s = ''--'' then Parsed c args
      else
        (let name = (if s ! 1 = CHR ''-'' then drop 2 s else drop 1 s) in
         if name = [] \<or> hd name = CHR ''-'' \<or> hd name = CHR ''='' then ParseExit 2
         else
           (let (name, val) = split_flag name in
            case formal name of
              None \<Rightarrow> ParseExit (if name = ''help'' \<or> name = ''h'' then 0 else 2)
            | Some fl \<Rightarrow>
                if fl_Bool fl then
                  (case fl_Set fl (case val of Some v \<Rightarrow> v | None \<Rightarrow> ''true'') c of
                     None \<Rightarrow> ParseExit 2
                   | Some c \<Rightarrow> flag_parse formal args c)
                else
                  (case (val, args) of
                     (Some v, _) \<Rightarrow> (case fl_Set fl v c of None \<Rightarrow> ParseExit 2 | Some c \<Rightarrow> flag_parse formal args c)
                   | (None, v # args) \<Rightarrow> (case fl_Set fl v c of None \<Rightarrow> ParseExit 2 | Some c \<Rightarrow> flag_parse formal args c)
                   | (None, []) \<Rightarrow> ParseExit 2))))"

record manager_flags =
  metricsAddr :: string
  metricsCertPath :: string
  metricsCertName :: string
  metricsCertKey :: string
  webhookCertPath :: string
  webhookCertName :: string
  webhookCertKey :: string
  enableLeaderElection :: bool
  probeAddr :: string
  secureMetrics :: bool
  enableHTTP2 :: bool
  library_flags :: "(string \<times> string) list"

definition default_flags :: manager_flags where
  "default_flags = \<lparr>metricsAddr = ''0'',
     metricsCertPath = [], metricsCertName = ''tls.crt'', metricsCertKey = ''tls.key'',
     webhookCertPath = [], webhookCertName = ''tls.crt'', webhookCertKey = ''tls.key'',
     enableLeaderElection = False, probeAddr = '':8081'', secureMetrics = True, enableHTTP2 = False,
     library_flags = []\<rparr>"

definition StringVar :: "((string \<Rightarrow> string) \<Rightarrow> 'c \<Rightarrow> 'c) \<Rightarrow> 'c cli_flag" where
  "StringVar upd = \<lparr>fl_Bool = False, fl_Set = (\<lambda>v c. Some (upd (\<lambda>_. v) c))\<rparr>"

definition BoolVar :: "((bool \<Rightarrow> bool) \<Rightarrow> 'c \<Rightarrow> 'c) \<Rightarrow> 'c cli_flag" where
  "BoolVar upd = \<lparr>fl_Bool = True, fl_Set = (\<lambda>v c.
     case ParseBool v of (b, None) \<Rightarrow> Some (upd (\<lambda>_. b) c) | (b, Some err) \<Rightarrow> None)\<rparr>"

definition own_flags :: "(string \<times> manager_flags cli_flag) list" where
  "own_flags = [
     (''metrics-bind-address'', StringVar metricsAddr_update),
     (''health-probe-bind-address'', StringVar probeAddr_update),
     (''leader-elect'', BoolVar enableLeaderElection_update),
     (''metrics-secure'', BoolVar secureMetrics_update),
     (''webhook-cert-path'', StringVar webhookCertPath_update),
     (''webhook-cert-name'', StringVar webhookCertName_update),
     (''webhook-cert-key'', StringVar webhookCertKey_update),
     (''metrics-cert-path'', StringVar metricsCertPath_update),
     (''metrics-cert-name'', StringVar metricsCertName_update),
     (''metrics-cert-key'', StringVar metricsCertKey_update),
     (''enable-http2'', BoolVar enableHTTP2_update)]"

text \<open>
  The libraries register flags of their own: which, whether they are boolean, and which values they take,
  is the argument \<open>library\<close>. Their values are kept as they were set.
\<close>

definition library_flag :: "string \<Rightarrow> bool \<Rightarrow> (string \<Rightarrow> bool) \<Rightarrow> manager_flags cli_flag" where
  "library_flag nm isbool takes = \<lparr>fl_Bool = isbool, fl_Set = (\<lambda>v c.
     if takes v then Some (c\<lparr>library_flags := library_flags c @ [(nm, v)]\<rparr>) else None)\<rparr>"

definition CommandLine :: "(string \<Rightarrow> (bool \<times> (string \<Rightarrow> bool)) option) \<Rightarrow> string \<Rightarrow> manager_flags cli_flag option" where
  "CommandLine library nm =
     (case map_of own_flags nm of
        Some fl \<Rightarrow> Some fl
      | None \<Rightarrow> (case library nm of None \<Rightarrow> None | Some (isbool, takes) \<Rightarrow> Some (library_flag nm isbool takes)))"

section \<open>The root logger\<close>

text \<open>
  The delegating logger of controller-runtime: a sink, \<open>None\<close> being the null sink, and a promise that the
  first \<open>SetLogger\<close> fulfils and drops. A logger derived before that would be a delegating one, which the
  program does not make.
\<close>

record root_log =
  rl_sink :: "logr option"
  rl_promise :: bool

definition rootLog :: root_log where
  "rootLog = \<lparr>rl_sink = None, rl_promise = True\<rparr>"

definition Fulfill :: "logr option \<Rightarrow> root_log \<Rightarrow> root_log" where
  "Fulfill actual l = (if rl_promise l then l\<lparr>rl_sink := actual, rl_promise := False\<rparr> else l)"

definition SetLogger :: "logr \<Rightarrow> root_log \<Rightarrow> root_log" where
  "SetLogger logger root = Fulfill (Some logger) root"

definition root_WithName :: "root_log \<Rightarrow> string \<Rightarrow> logr option" where
  "root_WithName root nm = map_option (logr_WithName nm) (rl_sink root)"

definition log_info :: "logr option \<Rightarrow> string \<Rightarrow> any list \<Rightarrow> log_entry list \<Rightarrow> log_entry list" where
  "log_info log msg kv out = (case log of None \<Rightarrow> out | Some l \<Rightarrow> logr_Info l msg kv out)"

definition log_error :: "logr option \<Rightarrow> goerr \<Rightarrow> string \<Rightarrow> any list \<Rightarrow> log_entry list \<Rightarrow> log_entry list" where
  "log_error log err msg kv out = (case log of None \<Rightarrow> out | Some l \<Rightarrow> logr_Error l err msg kv out)"

section \<open>Package initialisation\<close>

definition zero_settings :: settings where
  "zero_settings = \<lparr>DebounceThreshold = 0, InformerSyncTimeout = 0, K8SAPITimeout = 0, K8SInformerResync = 0,
     RetainCompletedIFOs = False, RequeueInterval = 0, OperatorVersion = []\<rparr>"

text \<open>A left value is the panic. The two registrations with the scheme are calls of the libraries.\<close>

definition settings_init :: "string list \<Rightarrow> environment \<Rightarrow> settings \<Rightarrow> goerr + settings" where
  "settings_init frames env st =
     (let (st, err) = Load frames env st in
      case err of Some e \<Rightarrow> Inl e | None \<Rightarrow> Inr st)"

definition manager_init ::
  "string list \<Rightarrow> environment \<Rightarrow> goerr option \<Rightarrow> goerr option \<Rightarrow> settings \<Rightarrow> root_log \<Rightarrow>
   goerr + settings \<times> root_log \<times> logr option"
where
  "manager_init frames env add_client add_api st root =
     (let (st, err) = Load frames env st in
      case err of
        Some e \<Rightarrow> Inl e
      | None \<Rightarrow>
          (let logger = ZapBuilder_New;
               root = SetLogger logger root;
               log = root_WithName root ''setup'' in
           case add_client of
             Some e \<Rightarrow> Inl e
           | None \<Rightarrow> (case add_api of Some e \<Rightarrow> Inl e | None \<Rightarrow> Inr (st, root, log))))"

section \<open>TLS and server options\<close>

record tls_config =
  NextProtos :: "string list"

type_synonym tls_opt = "tls_config \<Rightarrow> log_entry list \<Rightarrow> tls_config \<times> log_entry list"

definition disableHTTP2 :: "logr option \<Rightarrow> tls_opt" where
  "disableHTTP2 log c out = (c\<lparr>NextProtos := [''http/1.1'']\<rparr>, log_info log ''disabling http/2'' [] out)"

definition tlsOpts :: "logr option \<Rightarrow> manager_flags \<Rightarrow> tls_opt list" where
  "tlsOpts log f = (if \<not> enableHTTP2 f then [disableHTTP2 log] else [])"

record webhook_options =
  wo_CertDir :: string
  wo_CertName :: string
  wo_KeyName :: string
  wo_TLSOpts :: "tls_opt list"

datatype filter_provider = WithAuthenticationAndAuthorization

record metrics_options =
  ms_BindAddress :: string
  ms_SecureServing :: bool
  ms_FilterProvider :: "filter_provider option"
  ms_CertDir :: string
  ms_CertName :: string
  ms_KeyName :: string
  ms_TLSOpts :: "tls_opt list"

record manager_options =
  mo_Metrics :: metrics_options
  mo_WebhookServer :: webhook_options
  mo_HealthProbeBindAddress :: string
  mo_LeaderElection :: bool
  mo_LeaderElectionID :: string

definition webhookServerOptions :: "logr option \<Rightarrow> manager_flags \<Rightarrow> log_entry list \<Rightarrow> webhook_options \<times> log_entry list" where
  "webhookServerOptions log f out =
     (let opts = \<lparr>wo_CertDir = [], wo_CertName = [], wo_KeyName = [], wo_TLSOpts = tlsOpts log f\<rparr> in
      if 0 < length (webhookCertPath f) then
        (opts\<lparr>wo_CertDir := webhookCertPath f, wo_CertName := webhookCertName f, wo_KeyName := webhookCertKey f\<rparr>,
         log_info log ''Initializing webhook certificate watcher using provided certificates''
           [AStr ''webhook-cert-path'', AStr (webhookCertPath f), AStr ''webhook-cert-name'', AStr (webhookCertName f),
            AStr ''webhook-cert-key'', AStr (webhookCertKey f)] out)
      else (opts, out))"

definition metricsServerOptions :: "logr option \<Rightarrow> manager_flags \<Rightarrow> log_entry list \<Rightarrow> metrics_options \<times> log_entry list" where
  "metricsServerOptions log f out =
     (let opts = \<lparr>ms_BindAddress = metricsAddr f, ms_SecureServing = secureMetrics f, ms_FilterProvider = None,
            ms_CertDir = [], ms_CertName = [], ms_KeyName = [], ms_TLSOpts = tlsOpts log f\<rparr>;
          opts = (if secureMetrics f then opts\<lparr>ms_FilterProvider := Some WithAuthenticationAndAuthorization\<rparr> else opts) in
      if 0 < length (metricsCertPath f) then
        (opts\<lparr>ms_CertDir := metricsCertPath f, ms_CertName := metricsCertName f, ms_KeyName := metricsCertKey f\<rparr>,
         log_info log ''Initializing metrics certificate watcher using provided certificates''
           [AStr ''metrics-cert-path'', AStr (metricsCertPath f), AStr ''metrics-cert-name'', AStr (metricsCertName f),
            AStr ''metrics-cert-key'', AStr (metricsCertKey f)] out)
      else (opts, out))"

definition managerOptions :: "manager_flags \<Rightarrow> metrics_options \<Rightarrow> webhook_options \<Rightarrow> manager_options" where
  "managerOptions f metrics webhook = \<lparr>mo_Metrics = metrics, mo_WebhookServer = webhook,
     mo_HealthProbeBindAddress = probeAddr f, mo_LeaderElection = enableLeaderElection f,
     mo_LeaderElectionID = ''21f1c3a5.ifo.kubevirt.io''\<rparr>"

text \<open>How the servers of controller-runtime use them.\<close>

datatype listener = NotServed | PlainHTTP | TLS tls_config

definition apply_tls :: "tls_opt list \<Rightarrow> log_entry list \<Rightarrow> tls_config \<times> log_entry list" where
  "apply_tls ops out = fold (\<lambda>op (c, out). op c out) ops (\<lparr>NextProtos = [''h2'']\<rparr>, out)"

definition metrics_listener :: "metrics_options \<Rightarrow> log_entry list \<Rightarrow> listener \<times> log_entry list" where
  "metrics_listener opts out =
     (if ms_BindAddress opts = ''0'' then (NotServed, out)
      else if \<not> ms_SecureServing opts then (PlainHTTP, out)
      else (let (c, out) = apply_tls (ms_TLSOpts opts) out in (TLS c, out)))"

definition webhook_listener :: "webhook_options \<Rightarrow> log_entry list \<Rightarrow> listener \<times> log_entry list" where
  "webhook_listener opts out = (let (c, out) = apply_tls (wo_TLSOpts opts) out in (TLS c, out))"

section \<open>The steps\<close>

datatype manager_call =
    GetConfig | CreateManager manager_options | NewDynamicClient | NewDiscoveryClient | NewCelEnv
  | AddWatcher | CompleteController | AddHealthzCheck string | AddReadyzCheck string | StartManager

type_synonym manager_answers = "manager_call list \<Rightarrow> manager_call \<Rightarrow> goerr option"

record 'prog process =
  pr_calls :: "manager_call list"
  pr_log :: "log_entry list"
  pr_controller :: "'prog controller option"

datatype outcome = Returned | Exited nat | Panicked goerr

definition ask :: "manager_answers \<Rightarrow> manager_call \<Rightarrow> 'prog process \<Rightarrow> goerr option \<times> 'prog process" where
  "ask ans c p = (ans (pr_calls p) c, p\<lparr>pr_calls := pr_calls p @ [c]\<rparr>)"

definition NewEvaluator :: "manager_answers \<Rightarrow> 'prog process \<Rightarrow> goerr option \<times> 'prog process" where
  "NewEvaluator ans p =
     (case ask ans NewCelEnv p of
        (Some err, p) \<Rightarrow> (Some (errorf ''failed to create program cache'' err), p)
      | (None, p) \<Rightarrow> (None, p))"

definition Initialize :: "manager_answers \<Rightarrow> string list \<Rightarrow> 'prog process \<Rightarrow> goerr option \<times> 'prog process" where
  "Initialize ans frames p =
     (case ask ans NewDiscoveryClient p of
        (Some err, p) \<Rightarrow> (Wrap frames (Some err) [], p)
      | (None, p) \<Rightarrow>
     (case NewEvaluator ans p of
        (Some err, p) \<Rightarrow> (Wrap frames (Some err) [], p)
      | (None, p) \<Rightarrow>
     (case ask ans AddWatcher (p\<lparr>pr_controller := Some NewController\<rparr>) of
        (Some err, p) \<Rightarrow> (Wrap frames (Some err) [], p)
      | (None, p) \<Rightarrow> ask ans CompleteController p)))"

text \<open>A failing step is logged and ends the process with exit code 1.\<close>

definition or_exit ::
  "logr option \<Rightarrow> string \<Rightarrow> any list \<Rightarrow> goerr option \<times> 'prog process \<Rightarrow> ('prog process \<Rightarrow> outcome \<times> 'prog process) \<Rightarrow>
   outcome \<times> 'prog process"
where
  "or_exit log msg kv r k =
     (case r of
        (Some err, p) \<Rightarrow> (Exited 1, p\<lparr>pr_log := log_error log err msg kv (pr_log p)\<rparr>)
      | (None, p) \<Rightarrow> k p)"

text \<open>
  From the configuration to \<open>Start\<close>. \<open>GetConfigOrDie\<close> exits by itself, with a line of its own logger that is
  left out.
\<close>

definition bring_up :: "manager_answers \<Rightarrow> string list \<Rightarrow> logr option \<Rightarrow> manager_options \<Rightarrow> 'prog process \<Rightarrow> outcome \<times> 'prog process" where
  "bring_up ans frames log opts p =
     (case ask ans GetConfig p of
        (Some err, p) \<Rightarrow> (Exited 1, p)
      | (None, p) \<Rightarrow>
      or_exit log ''unable to start manager'' [] (ask ans (CreateManager opts) p) (\<lambda>p.
      or_exit log ''unable to create dynamic client'' [] (ask ans NewDynamicClient p) (\<lambda>p.
      or_exit log ''unable to create discovery client'' [] (ask ans NewDiscoveryClient p) (\<lambda>p.
      or_exit log ''unable to create controller'' [AStr ''controller'', AStr ''OperationRuleSet'']
        (Initialize ans frames p) (\<lambda>p.
      or_exit log ''unable to set up health check'' [] (ask ans (AddHealthzCheck ''healthz'') p) (\<lambda>p.
      or_exit log ''unable to set up ready check'' [] (ask ans (AddReadyzCheck ''readyz'') p) (\<lambda>p.
      or_exit log ''problem running manager'' []
        (ask ans StartManager (p\<lparr>pr_log := log_info log ''starting manager'' [] (pr_log p)\<rparr>)) (\<lambda>p.
      (Returned, p)))))))))"

text \<open>\<open>main\<close> behind the flags.\<close>

definition main :: "manager_answers \<Rightarrow> string list \<Rightarrow> logr option \<Rightarrow> manager_flags \<Rightarrow> 'prog process \<Rightarrow> outcome \<times> 'prog process" where
  "main ans frames log f p =
     (let (webhook, out) = webhookServerOptions log f (pr_log p);
          (metrics, out) = metricsServerOptions log f out in
      bring_up ans frames log (managerOptions f metrics webhook) (p\<lparr>pr_log := out\<rparr>))"

text \<open>
  The whole process: the initialisation of the packages, the flags, the second \<open>SetLogger\<close> with the logger
  \<open>zap_New\<close> makes of the library flags, and \<open>main\<close>. It answers the root logger too.
\<close>

definition run_manager ::
  "manager_answers \<Rightarrow> string list \<Rightarrow> environment \<Rightarrow> goerr option \<Rightarrow> goerr option \<Rightarrow>
   (string \<Rightarrow> (bool \<times> (string \<Rightarrow> bool)) option) \<Rightarrow> ((string \<times> string) list \<Rightarrow> logr) \<Rightarrow> string list \<Rightarrow>
   outcome \<times> 'prog process \<times> root_log"
where
  "run_manager ans frames env add_client add_api library zap_New args =
     (let p = \<lparr>pr_calls = [], pr_log = [], pr_controller = None\<rparr> in
      case settings_init frames env zero_settings of
        Inl err \<Rightarrow> (Panicked err, p, rootLog)
      | Inr st \<Rightarrow>
      (case manager_init frames env add_client add_api st rootLog of
        Inl err \<Rightarrow> (Panicked err, p, rootLog)
      | Inr (st, root, log) \<Rightarrow>
      (case flag_parse (CommandLine library) args default_flags of
        ParseExit code \<Rightarrow> (Exited code, p, root)
      | Parsed f rest \<Rightarrow>
          (let root = SetLogger (zap_New (library_flags f)) root;
               (res, p) = main ans frames log f p in
           (res, p, root)))))"

section \<open>Parsing flags\<close>

definition flag_name :: "string \<Rightarrow> string" where
  "flag_name a = fst (split_flag (if a ! 1 = CHR ''-'' then drop 2 a else drop 1 a))"

text \<open>What every assignment named by an argument keeps, parsing keeps.\<close>

lemma flag_parse_keeps:
  assumes "flag_parse formal args c = Parsed d rest" "I c"
    and "\<And>nm fl v c d. formal nm = Some fl \<Longrightarrow> nm \<in> flag_name ` set args \<Longrightarrow> fl_Set fl v c = Some d \<Longrightarrow> I c \<Longrightarrow> I d"
  shows "I d"
  using assms
proof (induction formal args c rule: flag_parse.induct)
  case (1 formal c)
  then show ?case by simp
next
  case (2 formal s args c)
  let ?nm = "if s ! 1 = CHR ''-'' then drop 2 s else drop 1 s"
  have nm: "flag_name s = fst (split_flag ?nm)" by (simp add: flag_name_def)
  consider "d = c" | (flag) "\<not> (length s < 2 \<or> hd s \<noteq> CHR ''-'')" "s \<noteq> ''--''"
      "\<not> (?nm = [] \<or> hd ?nm = CHR ''-'' \<or> hd ?nm = CHR ''='')"
    using "2.prems"(1) by (auto simp: Let_def split: if_splits)
  then show ?case
  proof cases
    case 1
    then show ?thesis using "2.prems"(2) by simp
  next
    case flag
    obtain name val where sp: "split_flag ?nm = (name, val)" by (cases "split_flag ?nm")
    with flag "2.prems"(1) obtain fl where fl: "formal name = Some fl"
      by (auto simp: Let_def split: option.splits)
    have named: "name \<in> flag_name ` set (s # args)" using nm sp by simp
    have keep: "I c'" if "fl_Set fl v c = Some c'" for v c'
      using "2.prems"(3) [OF fl named that] "2.prems"(2) by simp
    have rest: "\<And>nm fl v c d. formal nm = Some fl \<Longrightarrow> nm \<in> flag_name ` set args \<Longrightarrow>
        fl_Set fl v c = Some d \<Longrightarrow> I c \<Longrightarrow> I d"
      using "2.prems"(3) by simp
    show ?thesis
    proof (cases "fl_Bool fl")
      case True
      with flag sp fl "2.prems"(1) obtain c' where
        set: "fl_Set fl (case val of Some v \<Rightarrow> v | None \<Rightarrow> ''true'') c = Some c'"
          and run: "flag_parse formal args c' = Parsed d rest"
        by (auto simp: Let_def split: option.splits)
      show ?thesis
        by (rule "2.IH"(1) [OF flag(1,2) refl flag(3) refl sp [symmetric] fl True set run keep [OF set] rest])
    next
      case False
      show ?thesis
      proof (cases val)
        case (Some v)
        with False flag sp fl "2.prems"(1) obtain c' where
          set: "fl_Set fl v c = Some c'" and run: "flag_parse formal args c' = Parsed d rest"
          by (auto simp: Let_def split: option.splits)
        show ?thesis
          by (rule "2.IH"(3) [OF flag(1,2) refl flag(3) refl sp [symmetric] fl False refl Some set run keep [OF set] rest])
      next
        case None
        with False flag sp fl "2.prems"(1) obtain v args' c' where
          args: "args = v # args'" and set: "fl_Set fl v c = Some c'"
            and run: "flag_parse formal args' c' = Parsed d rest"
          by (auto simp: Let_def split: option.splits list.splits)
        have rest': "\<And>nm fl v c d. formal nm = Some fl \<Longrightarrow> nm \<in> flag_name ` set args' \<Longrightarrow>
            fl_Set fl v c = Some d \<Longrightarrow> I c \<Longrightarrow> I d"
          using rest args by simp
        show ?thesis
          by (rule "2.IH"(2) [OF flag(1,2) refl flag(3) refl sp [symmetric] fl False refl None args set run keep [OF set] rest'])
      qed
    qed
  qed
qed

text \<open>An argument that names a flag with a value assigns it.\<close>

definition flag_arg :: "string \<Rightarrow> string \<Rightarrow> string" where
  "flag_arg nm v = ''--'' @ nm @ ''='' @ v"

lemma split_flag_arg:
  assumes "nm \<noteq> []" "CHR ''='' \<notin> set nm"
  shows "split_flag (nm @ CHR ''='' # v) = (nm, Some v)"
proof -
  obtain c cs where nm: "nm = c # cs" using assms(1) by (cases nm) auto
  have cs: "\<forall>x \<in> set cs. x \<noteq> CHR ''=''" using assms(2) nm by auto
  show ?thesis
    using cs by (simp add: split_flag_def nm dropWhile_append2 takeWhile_append2)
qed

lemma flag_parse_arg:
  assumes "formal nm = Some fl" "nm \<noteq> []" "CHR ''='' \<notin> set nm" "hd nm \<noteq> CHR ''-''"
  shows "flag_parse formal (flag_arg nm v # args) c =
    (case fl_Set fl v c of None \<Rightarrow> ParseExit 2 | Some c \<Rightarrow> flag_parse formal args c)"
proof -
  have "hd (nm @ CHR ''='' # v) \<noteq> CHR ''-''" "hd (nm @ CHR ''='' # v) \<noteq> CHR ''=''"
    using assms by (cases nm; auto)+
  then show ?thesis
    using assms split_flag_arg [OF assms(2,3), of v] by (simp add: flag_arg_def Let_def split: option.splits)
qed

lemma own_flag: "map_of own_flags nm = Some fl \<Longrightarrow> CommandLine library nm = Some fl"
  by (simp add: CommandLine_def)

lemma fl_Set_simps [simp]:
  "fl_Set (StringVar upd) v c = Some (upd (\<lambda>_. v) c)"
  "fl_Set (BoolVar updb) ''true'' c = Some (updb (\<lambda>_. True) c)"
  "fl_Set (BoolVar updb) ''false'' c = Some (updb (\<lambda>_. False) c)"
  by (simp_all add: StringVar_def BoolVar_def ParseBool_def)

text \<open>What assigning to a boolean flag of the program can do.\<close>

lemma BoolVar_Set: "fl_Set (BoolVar upd) v c = Some d \<Longrightarrow> \<exists>b. d = upd (\<lambda>_. b) c"
  by (auto simp: BoolVar_def split: prod.splits option.splits)

definition show_bool :: "bool \<Rightarrow> string" where
  "show_bool b = (if b then ''true'' else ''false'')"

lemma fl_Set_show_bool [simp]: "fl_Set (BoolVar upd) (show_bool b) c = Some (upd (\<lambda>_. b) c)"
  by (simp add: show_bool_def)

definition render_flags :: "manager_flags \<Rightarrow> string list" where
  "render_flags f = [
     flag_arg ''metrics-bind-address'' (metricsAddr f),
     flag_arg ''health-probe-bind-address'' (probeAddr f),
     flag_arg ''leader-elect'' (show_bool (enableLeaderElection f)),
     flag_arg ''metrics-secure'' (show_bool (secureMetrics f)),
     flag_arg ''webhook-cert-path'' (webhookCertPath f),
     flag_arg ''webhook-cert-name'' (webhookCertName f),
     flag_arg ''webhook-cert-key'' (webhookCertKey f),
     flag_arg ''metrics-cert-path'' (metricsCertPath f),
     flag_arg ''metrics-cert-name'' (metricsCertName f),
     flag_arg ''metrics-cert-key'' (metricsCertKey f),
     flag_arg ''enable-http2'' (show_bool (enableHTTP2 f))]"

text \<open>
  Every configuration of the manager can be given on the command line, and is read back from it: parsing the
  flags written out, each with its value, yields exactly their values, whatever flags the libraries
  register beside them and whatever the values contain.
\<close>

theorem flags_roundtrip:
  "flag_parse (CommandLine library) (render_flags f) default_flags = Parsed (f\<lparr>library_flags := []\<rparr>) []"
  unfolding render_flags_def
  by (simp add: flag_parse_arg [OF own_flag] own_flags_def default_flags_def del: flag_parse.simps(2))

section \<open>The order of the steps\<close>

fun run_steps :: "manager_answers \<Rightarrow> manager_call list \<Rightarrow> manager_call list \<Rightarrow> manager_call list \<times> bool" where
  "run_steps ans done_calls [] = (done_calls, True)"
| "run_steps ans done_calls (c # cs) =
     (case ans done_calls c of None \<Rightarrow> run_steps ans (done_calls @ [c]) cs | Some err \<Rightarrow> (done_calls @ [c], False))"

definition startup_rest :: "manager_options \<Rightarrow> manager_call list" where
  "startup_rest opts = [CreateManager opts, NewDynamicClient, NewDiscoveryClient,
     NewDiscoveryClient, NewCelEnv, AddWatcher, CompleteController,
     AddHealthzCheck ''healthz'', AddReadyzCheck ''readyz'', StartManager]"

definition startup_steps :: "manager_options \<Rightarrow> manager_call list" where
  "startup_steps opts = GetConfig # startup_rest opts"

definition options_of :: "logr option \<Rightarrow> manager_flags \<Rightarrow> manager_options" where
  "options_of log f = managerOptions f (fst (metricsServerOptions log f [])) (fst (webhookServerOptions log f []))"

lemma options_log:
  "fst (metricsServerOptions log f out) = fst (metricsServerOptions log f [])"
  "fst (webhookServerOptions log f out) = fst (webhookServerOptions log f [])"
  by (simp_all add: metricsServerOptions_def webhookServerOptions_def Let_def)

definition controller_made :: "'prog process \<Rightarrow> bool" where
  "controller_made p \<longleftrightarrow> pr_controller p = (if AddWatcher \<in> set (pr_calls p) then Some NewController else None)"

definition follows :: "manager_answers \<Rightarrow> manager_call list \<Rightarrow> 'prog process \<Rightarrow> outcome \<times> 'prog process \<Rightarrow> bool" where
  "follows ans cs p r \<longleftrightarrow>
     run_steps ans (pr_calls p) cs = (pr_calls (snd r), fst r = Returned) \<and>
     fst r \<in> {Returned, Exited 1} \<and> controller_made (snd r)"

lemma follows_end: "controller_made p \<Longrightarrow> follows ans [] p (Returned, p)"
  by (simp add: follows_def)

lemma follows_ask:
  assumes "\<And>q. pr_calls q = pr_calls p @ [c] \<Longrightarrow> controller_made q \<Longrightarrow> follows ans cs q (k q)"
    and "controller_made p" "c \<noteq> AddWatcher"
  shows "follows ans (c # cs) p (or_exit log msg kv (ask ans c p) k)"
proof (cases "ans (pr_calls p) c")
  case None
  let ?q = "p\<lparr>pr_calls := pr_calls p @ [c]\<rparr>"
  have "follows ans cs ?q (k ?q)" using assms by (auto simp: controller_made_def)
  then show ?thesis using None by (simp add: follows_def or_exit_def ask_def)
next
  case (Some err)
  then show ?thesis using assms(2,3) by (simp add: follows_def or_exit_def ask_def controller_made_def)
qed

lemma follows_ask_logged:
  assumes "\<And>q. pr_calls q = pr_calls p @ [c] \<Longrightarrow> controller_made q \<Longrightarrow> follows ans cs q (k q)"
    and "controller_made p" "c \<noteq> AddWatcher"
  shows "follows ans (c # cs) p (or_exit log msg kv (ask ans c (p\<lparr>pr_log := out\<rparr>)) k)"
  using follows_ask [of "p\<lparr>pr_log := out\<rparr>" c ans cs k log msg kv] assms
  by (simp add: follows_def controller_made_def)

lemma follows_Initialize:
  assumes "\<And>q. AddWatcher \<in> set (pr_calls q) \<Longrightarrow> controller_made q \<Longrightarrow> follows ans cs q (k q)"
    and "controller_made p" "AddWatcher \<notin> set (pr_calls p)"
  shows "follows ans ([NewDiscoveryClient, NewCelEnv, AddWatcher, CompleteController] @ cs) p
    (or_exit log msg kv (Initialize ans frames p) k)"
proof -
  let ?q = "p\<lparr>pr_controller := Some NewController,
    pr_calls := pr_calls p @ [NewDiscoveryClient, NewCelEnv, AddWatcher, CompleteController]\<rparr>"
  have "follows ans cs ?q (k ?q)" by (rule assms(1)) (simp_all add: controller_made_def)
  moreover have "Wrap frames (Some err) [] \<noteq> None" for err
    by (simp add: Wrap_def split: goerr.splits)
  ultimately show ?thesis using assms(2,3)
    by (auto simp: follows_def or_exit_def ask_def Initialize_def NewEvaluator_def controller_made_def
        split: option.splits)
qed

lemma bring_up_follows:
  assumes "pr_calls p = []" "controller_made p"
  shows "follows ans (startup_steps opts) p (bring_up ans frames log opts p)"
proof (cases "ans [] GetConfig")
  case None
  let ?p = "p\<lparr>pr_calls := [GetConfig]\<rparr>"
  have get: "ask ans GetConfig p = (None, ?p)" using None assms(1) by (simp add: ask_def)
  have "follows ans (startup_rest opts) ?p (bring_up ans frames log opts p)"
    unfolding bring_up_def get startup_rest_def prod.case option.case
    apply (rule follows_ask, rule follows_ask, rule follows_ask)
    apply (rule follows_Initialize [simplified])
    apply (rule follows_ask, rule follows_ask, rule follows_ask_logged)
    apply (rule follows_end)
    using assms apply (simp_all add: controller_made_def)
    done
  then show ?thesis using None assms(1) by (simp add: follows_def startup_steps_def)
next
  case (Some err)
  then show ?thesis using assms
    by (simp add: bring_up_def ask_def follows_def startup_steps_def controller_made_def)
qed

text \<open>
  C36. The manager is started last. \<open>main\<close> makes its eleven calls in a fixed order and stops at the first that
  fails: the calls made are exactly those up to and including it, the process then exits with code 1, and
  it returns normally only when \<open>Start\<close>, the last one, has returned without an error. The caches and the
  watcher are made new, once, when the CEL environment is there and before the watcher is handed to the manager.
\<close>

theorem manager_steps:
  fixes p :: "'prog process"
  assumes "pr_calls p = []" "pr_controller p = None"
    and "main ans frames log f p = (res, q)"
    and "run_steps ans [] (startup_steps (options_of log f)) = (calls, ok)"
  shows "pr_calls q = calls \<and> res = (if ok then Returned else Exited 1) \<and>
    pr_controller q = (if AddWatcher \<in> set calls then Some NewController else None)"
proof -
  obtain w out where w: "webhookServerOptions log f (pr_log p) = (w, out)" by fastforce
  obtain m out' where m: "metricsServerOptions log f out = (m, out')" by fastforce
  have "options_of log f = managerOptions f m w"
    using options_log(1) [of log f out] options_log(2) [of log f "pr_log p"] w m by (simp add: options_of_def)
  then have main: "main ans frames log f p = bring_up ans frames log (options_of log f) (p\<lparr>pr_log := out'\<rparr>)"
    using w m by (simp add: main_def)
  have "follows ans (startup_steps (options_of log f)) (p\<lparr>pr_log := out'\<rparr>) (main ans frames log f p)"
    unfolding main by (rule bring_up_follows) (use assms(1,2) in \<open>simp_all add: controller_made_def\<close>)
  then show ?thesis
    using assms(1,3,4) by (auto simp: follows_def controller_made_def)
qed

theorem manager_steps_witness:
  fixes p :: "'prog process"
  shows "pr_controller (snd (main (\<lambda>calls c. if c = NewCelEnv then Some (Plain ''no env'') else None) [] None default_flags
     \<lparr>pr_calls = [], pr_log = [], pr_controller = (None :: 'prog controller option)\<rparr>)) = None"
proof -
  let ?ans = "\<lambda>calls c. if c = NewCelEnv then Some (Plain ''no env'') else None"
  let ?p = "\<lparr>pr_calls = [], pr_log = [], pr_controller = (None :: 'prog controller option)\<rparr>"
  let ?o = "options_of None default_flags"
  have steps: "run_steps ?ans [] (startup_steps ?o) =
    ([GetConfig, CreateManager ?o, NewDynamicClient, NewDiscoveryClient, NewDiscoveryClient, NewCelEnv], False)"
    by (simp add: startup_steps_def startup_rest_def)
  obtain res q where run: "main ?ans [] None default_flags ?p = (res, q)" by fastforce
  show ?thesis using manager_steps [OF _ _ run steps] run by simp
qed

section \<open>What is served\<close>

lemma apply_tls_tlsOpts:
  "fst (apply_tls (tlsOpts log f) out) = \<lparr>NextProtos = [if enableHTTP2 f then ''h2'' else ''http/1.1'']\<rparr>"
  by (simp add: apply_tls_def tlsOpts_def disableHTTP2_def)

lemma served:
  "fst (webhook_listener (mo_WebhookServer (options_of log f)) out) =
     TLS \<lparr>NextProtos = [if enableHTTP2 f then ''h2'' else ''http/1.1'']\<rparr>"
  "fst (metrics_listener (mo_Metrics (options_of log f)) out) =
     (if metricsAddr f = ''0'' then NotServed
      else if secureMetrics f then TLS \<lparr>NextProtos = [if enableHTTP2 f then ''h2'' else ''http/1.1'']\<rparr>
      else PlainHTTP)"
  "ms_FilterProvider (mo_Metrics (options_of log f)) =
     (if secureMetrics f then Some WithAuthenticationAndAuthorization else None)"
  using apply_tls_tlsOpts [of log f out]
  by (auto simp: options_of_def managerOptions_def webhookServerOptions_def metricsServerOptions_def Let_def
      webhook_listener_def metrics_listener_def split: prod.splits)

lemma CommandLine_cases:
  assumes "CommandLine library nm = Some fl"
  shows "map_of own_flags nm = Some fl \<or>
    map_of own_flags nm = None \<and> (\<exists>isbool takes. fl = library_flag nm isbool takes)"
  using assms by (auto simp: CommandLine_def split: option.splits prod.splits)

text \<open>A field that only one flag assigns keeps its value when no argument names that flag.\<close>

lemma CommandLine_frame:
  assumes "CommandLine library nm = Some fl" "fl_Set fl v c = Some d"
  shows "nm \<noteq> ''enable-http2'' \<Longrightarrow> enableHTTP2 d = enableHTTP2 c"
    and "nm \<noteq> ''metrics-secure'' \<Longrightarrow> secureMetrics d = secureMetrics c"
    and "nm \<noteq> ''metrics-bind-address'' \<Longrightarrow> metricsAddr d = metricsAddr c"
  using CommandLine_cases [OF assms(1)] assms(2)
  by (auto simp: own_flags_def library_flag_def split: if_splits dest!: BoolVar_Set)

lemma unnamed_flag_default:
  assumes "flag_parse (CommandLine library) args default_flags = Parsed f rest" "nm \<notin> flag_name ` set args"
    and "\<And>nm' fl v c d. CommandLine library nm' = Some fl \<Longrightarrow> fl_Set fl v c = Some d \<Longrightarrow> nm' \<noteq> nm \<Longrightarrow> g d = g c"
  shows "g f = g default_flags"
  by (rule flag_parse_keeps [OF assms(1), of "\<lambda>c. g c = g default_flags"])
    (use assms(2,3) in fastforce)+

lemma unnamed_defaults:
  assumes "flag_parse (CommandLine library) args default_flags = Parsed f rest"
  shows "''enable-http2'' \<notin> flag_name ` set args \<Longrightarrow> \<not> enableHTTP2 f"
    and "''metrics-secure'' \<notin> flag_name ` set args \<Longrightarrow> secureMetrics f"
    and "''metrics-bind-address'' \<notin> flag_name ` set args \<Longrightarrow> metricsAddr f = ''0''"
  using unnamed_flag_default [OF assms, of _ enableHTTP2, OF _ CommandLine_frame(1)]
    unnamed_flag_default [OF assms, of _ secureMetrics, OF _ CommandLine_frame(2)]
    unnamed_flag_default [OF assms, of _ metricsAddr, OF _ CommandLine_frame(3)]
  by (simp_all add: default_flags_def)

text \<open>
  C35. The servers are secure unless the command line says otherwise. When no argument names \<open>enable-http2\<close>, both
  servers offer HTTP/1.1 only, whatever else is given; when none names \<open>metrics-secure\<close>, the metrics are
  not served in the clear, and always behind the filter that authenticates and authorises; and when none
  names \<open>metrics-bind-address\<close> they are not served at all.
\<close>

theorem secure_by_default:
  assumes "flag_parse (CommandLine library) args default_flags = Parsed f rest"
  shows "(''enable-http2'' \<notin> flag_name ` set args \<longrightarrow>
      fst (webhook_listener (mo_WebhookServer (options_of log f)) out) = TLS \<lparr>NextProtos = [''http/1.1'']\<rparr> \<and>
      fst (metrics_listener (mo_Metrics (options_of log f)) out)
        \<in> {NotServed, PlainHTTP, TLS \<lparr>NextProtos = [''http/1.1'']\<rparr>}) \<and>
    (''metrics-secure'' \<notin> flag_name ` set args \<longrightarrow>
      fst (metrics_listener (mo_Metrics (options_of log f)) out) \<noteq> PlainHTTP \<and>
      ms_FilterProvider (mo_Metrics (options_of log f)) = Some WithAuthenticationAndAuthorization) \<and>
    (''metrics-bind-address'' \<notin> flag_name ` set args \<longrightarrow>
      fst (metrics_listener (mo_Metrics (options_of log f)) out) = NotServed)"
  using unnamed_defaults [OF assms] by (simp add: served)

theorem secure_by_default_witness:
  "fst (metrics_listener (mo_Metrics (options_of None (default_flags\<lparr>metricsAddr := '':8443''\<rparr>))) [])
     \<in> {NotServed, PlainHTTP, TLS \<lparr>NextProtos = [''http/1.1'']\<rparr>} - {PlainHTTP}"
proof -
  have parse: "flag_parse (CommandLine (\<lambda>_. None)) [flag_arg ''metrics-bind-address'' '':8443''] default_flags =
      Parsed (default_flags\<lparr>metricsAddr := '':8443''\<rparr>) []"
    by (simp add: flag_parse_arg [OF own_flag] own_flags_def del: flag_parse.simps(2))
  have nm: "flag_name ` set [flag_arg ''metrics-bind-address'' '':8443''] = {''metrics-bind-address''}"
    by (simp add: flag_name_def flag_arg_def split_flag_def Let_def)
  show ?thesis using secure_by_default [OF parse, of None "[]"] nm by auto
qed

section \<open>Which logger is used\<close>

lemma SetLogger_once: "SetLogger b (SetLogger a root) = SetLogger a root"
  by (simp add: SetLogger_def Fulfill_def)

lemma manager_init_root:
  assumes "manager_init frames env add_client add_api st rootLog = Inr (st', root, log)"
  shows "root = SetLogger ZapBuilder_New rootLog \<and> log = Some (logr_WithName ''setup'' ZapBuilder_New)"
  using assms by (auto simp: manager_init_def Let_def root_WithName_def SetLogger_def Fulfill_def rootLog_def
      split: prod.splits option.splits)

text \<open>
  The logging flags have no effect. \<open>main\<close> makes a logger of the \<open>--zap-*\<close> flags it binds and parses and sets it,
  but the root logger was fulfilled when the package was initialised and takes no second one: whatever logger
  the flags would make, the process does the same, and every process that gets past its initialisation
  logs through the logger of the logging package.
\<close>

theorem zap_flags_ignored:
  "run_manager ans frames env add_client add_api library zap_New args =
   (run_manager ans frames env add_client add_api library zap_New' args :: outcome \<times> 'prog process \<times> root_log)"
  "case (run_manager ans frames env add_client add_api library zap_New args :: outcome \<times> 'prog process \<times> root_log) of
     (res, p, root) \<Rightarrow> (\<exists>err. res = Panicked err) \<or> rl_sink root = Some ZapBuilder_New"
proof -
  show "run_manager ans frames env add_client add_api library zap_New args =
     (run_manager ans frames env add_client add_api library zap_New' args :: outcome \<times> 'prog process \<times> root_log)"
    unfolding run_manager_def
    by (auto simp: Let_def SetLogger_once dest!: manager_init_root split: sum.splits cli_result.splits prod.splits)
  have sink: "rl_sink (SetLogger ZapBuilder_New rootLog) = Some ZapBuilder_New"
    by (simp add: SetLogger_def Fulfill_def rootLog_def)
  show "case (run_manager ans frames env add_client add_api library zap_New args :: outcome \<times> 'prog process \<times> root_log) of
     (res, p, root) \<Rightarrow> (\<exists>err. res = Panicked err) \<or> rl_sink root = Some ZapBuilder_New"
    unfolding run_manager_def
    by (auto simp: Let_def SetLogger_once sink dest!: manager_init_root split: sum.splits cli_result.splits prod.splits)
qed

end
