(* ===== verification/Command_Line.thy ===== *)
theory Command_Line
  imports Settings "HOL-Library.Multiset"
begin

text \<open>
  The command line of the programs built on cobra: the parser of \<open>pflag\<close> (flags with values, optional
  values and shorthands, interspersed with arguments) and the part of cobra that finds the command, parses its
  flags, checks its arguments and required flags, and runs it; both are vendored. The commands cobra adds by itself
  (\<open>help\<close>, \<open>completion\<close>, \<open>__complete\<close>) are found here, and what they do is left out: they run no code of the program.
  What none of the programs sets is left out as well: versions, deprecations, hooks before and after a run, flag groups,
  allowed unknown flags, disabled flag parsing, prefix matching, name normalisation. The variables the flags point to are
  the type \<open>'c\<close>; usage texts are not modelled. The locale \<open>flag_settings\<close> is the contract between the flags of a program
  and its variables.
\<close>

section \<open>Flags\<close>

record 'c pflag =
  pf_Name :: string
  pf_Shorthand :: string
  pf_NoOptDefVal :: string
  pf_Required :: bool
  pf_Set :: "string \<Rightarrow> 'c \<Rightarrow> 'c option"

datatype cli_error =
    InvalidSyntax string
  | NotExist string
  | NotExistShort char string
  | ValueRequired string
  | InvalidValue string string
  | ErrHelp
  | UnknownCommand string
  | WrongArgs nat nat
  | RequiredFlags "string list"

text \<open>What a flag set keeps while it parses: the variables, the flags that were set, the arguments.\<close>

record 'c flag_state =
  ps_vars :: 'c
  ps_changed :: "string list"
  ps_args :: "string list"

definition Lookup :: "string \<Rightarrow> 'c pflag list \<Rightarrow> 'c pflag option" where
  "Lookup name fs = find (\<lambda>fl. pf_Name fl = name) fs"

definition ShorthandLookup :: "char \<Rightarrow> 'c pflag list \<Rightarrow> 'c pflag option" where
  "ShorthandLookup c fs = find (\<lambda>fl. pf_Shorthand fl = [c]) fs"

definition FlagSet_Set :: "'c pflag \<Rightarrow> string \<Rightarrow> 'c flag_state \<Rightarrow> cli_error + 'c flag_state" where
  "FlagSet_Set fl val s =
     (case pf_Set fl val (ps_vars s) of
        None \<Rightarrow> Inl (InvalidValue (pf_Name fl) val)
      | Some vars \<Rightarrow>
          Inr (s\<lparr>ps_vars := vars,
            ps_changed := (if pf_Name fl \<in> set (ps_changed s) then ps_changed s else ps_changed s @ [pf_Name fl])\<rparr>))"

section \<open>Parsing\<close>

text \<open>\<open>strings.SplitN (s, "=", 2)\<close>: the part before the first \<open>=\<close>, and what follows it, if there is one.\<close>

definition split_eq :: "string \<Rightarrow> string \<times> string option" where
  "split_eq s =
     (case dropWhile (\<lambda>c. c \<noteq> CHR ''='') s of
        [] \<Rightarrow> (s, None)
      | _ # val \<Rightarrow> (takeWhile (\<lambda>c. c \<noteq> CHR ''='') s, Some val))"

definition parseLongArg ::
  "'c pflag list \<Rightarrow> string \<Rightarrow> string list \<Rightarrow> 'c flag_state \<Rightarrow> cli_error + string list \<times> 'c flag_state"
where
  "parseLongArg fs s a st =
     (let name = drop 2 s in
      if name = [] \<or> hd name = CHR ''-'' \<or> hd name = CHR ''='' then Inl (InvalidSyntax s)
      else
        (let (name, val) = split_eq name in
         case Lookup name fs of
           None \<Rightarrow> Inl (if name = ''help'' then ErrHelp else NotExist name)
         | Some fl \<Rightarrow>
             (case (case val of
                      Some v \<Rightarrow> Some (v, a)
                    | None \<Rightarrow>
                        if pf_NoOptDefVal fl \<noteq> [] then Some (pf_NoOptDefVal fl, a)
                        else (case a of v # a \<Rightarrow> Some (v, a) | [] \<Rightarrow> None)) of
                None \<Rightarrow> Inl (ValueRequired name)
              | Some (v, a) \<Rightarrow>
                  (case FlagSet_Set fl v st of Inl err \<Rightarrow> Inl err | Inr st \<Rightarrow> Inr (a, st)))))"

text \<open>One letter of a group of shorthands: the letters and the arguments that are left.\<close>

definition parseSingleShortArg ::
  "'c pflag list \<Rightarrow> string \<Rightarrow> string list \<Rightarrow> 'c flag_state \<Rightarrow> cli_error + string \<times> string list \<times> 'c flag_state"
where
  "parseSingleShortArg fs shorthands args st =
     (if HasPrefix shorthands ''test.'' then Inr ([], args, st)
      else
        (let c = hd shorthands; outShorts = tl shorthands in
         case ShorthandLookup c fs of
           None \<Rightarrow> Inl (if c = CHR ''h'' then ErrHelp else NotExistShort c shorthands)
         | Some fl \<Rightarrow>
             (case (if length shorthands > 2 \<and> shorthands ! 1 = CHR ''='' then Some (drop 2 shorthands, [], args)
                    else if pf_NoOptDefVal fl \<noteq> [] then Some (pf_NoOptDefVal fl, outShorts, args)
                    else if length shorthands > 1 then Some (tl shorthands, [], args)
                    else (case args of v # args \<Rightarrow> Some (v, outShorts, args) | [] \<Rightarrow> None)) of
                None \<Rightarrow> Inl (ValueRequired [c])
              | Some (v, outShorts, outArgs) \<Rightarrow>
                  (case FlagSet_Set fl v st of Inl err \<Rightarrow> Inl err | Inr st \<Rightarrow> Inr (outShorts, outArgs, st)))))"

lemma parseSingleShortArg_shrinks:
  assumes "parseSingleShortArg fs shorthands args st = Inr (outShorts, outArgs, st')" "shorthands \<noteq> []"
  shows "length outShorts < length shorthands" and "length outArgs \<le> length args"
  using assms
  by (auto simp: parseSingleShortArg_def Let_def split: if_splits option.splits sum.splits list.splits)

text \<open>Every letter of the group is parsed against the arguments behind the group.\<close>

function parseShorts ::
  "'c pflag list \<Rightarrow> string \<Rightarrow> string list \<Rightarrow> string list \<Rightarrow> 'c flag_state \<Rightarrow> cli_error + string list \<times> 'c flag_state"
where
  "parseShorts fs shorthands args a st =
     (if shorthands = [] then Inr (a, st)
      else
        (case parseSingleShortArg fs shorthands args st of
           Inl err \<Rightarrow> Inl err
         | Inr (shorthands, a, st) \<Rightarrow> parseShorts fs shorthands args a st))"
  by auto
termination
  by (relation "measure (\<lambda>(fs, shorthands, args, a, st). length shorthands)")
    (auto dest: parseSingleShortArg_shrinks)

declare parseShorts.simps [simp del]

definition parseShortArg ::
  "'c pflag list \<Rightarrow> string \<Rightarrow> string list \<Rightarrow> 'c flag_state \<Rightarrow> cli_error + string list \<times> 'c flag_state"
where
  "parseShortArg fs s args st = parseShorts fs (tl s) args args st"

lemma parseShorts_shrinks:
  "parseShorts fs shorthands args a st = Inr (a', st') \<Longrightarrow> length a \<le> length args \<Longrightarrow> length a' \<le> length args"
proof (induction fs shorthands args a st rule: parseShorts.induct)
  case (1 fs shorthands args a st)
  show ?case
  proof (cases "shorthands = []")
    case True
    with "1.prems" show ?thesis by (simp add: parseShorts.simps)
  next
    case False
    with "1.prems"(1) obtain sh a1 st1
      where p: "parseSingleShortArg fs shorthands args st = Inr (sh, a1, st1)"
        and r: "parseShorts fs sh args a1 st1 = Inr (a', st')"
      by (subst (asm) parseShorts.simps) (auto split: sum.splits prod.splits)
    show ?thesis
      using "1.IH" [OF False p refl refl r] parseSingleShortArg_shrinks(2) [OF p False] by simp
  qed
qed

lemma parseLongArg_shrinks:
  "parseLongArg fs s args st = Inr (a, st') \<Longrightarrow> length a \<le> length args"
  by (auto simp: parseLongArg_def Let_def split: if_splits option.splits sum.splits prod.splits list.splits)

text \<open>Flags and arguments may be interspersed; \<open>--\<close> ends the flags.\<close>

function parseArgs :: "'c pflag list \<Rightarrow> string list \<Rightarrow> 'c flag_state \<Rightarrow> cli_error + 'c flag_state" where
  "parseArgs fs [] st = Inr st"
| "parseArgs fs (s # args) st =
     (if s = [] \<or> hd s \<noteq> CHR ''-'' \<or> length s = 1 then parseArgs fs args (st\<lparr>ps_args := ps_args st @ [s]\<rparr>)
      else if s ! 1 = CHR ''-'' then
        (if length s = 2 then Inr (st\<lparr>ps_args := ps_args st @ args\<rparr>)
         else
           (case parseLongArg fs s args st of Inl err \<Rightarrow> Inl err | Inr (args, st) \<Rightarrow> parseArgs fs args st))
      else
        (case parseShortArg fs s args st of Inl err \<Rightarrow> Inl err | Inr (args, st) \<Rightarrow> parseArgs fs args st))"
  by pat_completeness auto
termination
  by (relation "measure (\<lambda>(fs, args, st). length args)")
    (auto simp: parseShortArg_def dest!: parseLongArg_shrinks parseShorts_shrinks)

declare parseArgs.simps(2) [simp del]

section \<open>Commands\<close>

text \<open>
  A command: its usage line, its aliases, its own and its persistent flags, the number of arguments
  \<open>ExactArgs\<close> asks for, if \<open>Args\<close> is set, what it runs, \<open>None\<close> for a command of cobra's own, and its subcommands.
\<close>

datatype ('c, 'r) Command =
  Command (cb_Use: string) (cb_Aliases: "string list") (cb_Flags: "'c pflag list")
    (cb_PersistentFlags: "'c pflag list") (cb_Args: "nat option") (cb_Run: "'r option")
    (cb_commands: "('c, 'r) Command list")

definition cb_Name :: "('c, 'r) Command \<Rightarrow> string" where
  "cb_Name c = takeWhile (\<lambda>x. x \<noteq> CHR '' '') (cb_Use c)"

definition AddCommand :: "('c, 'r) Command \<Rightarrow> ('c, 'r) Command \<Rightarrow> ('c, 'r) Command" where
  "AddCommand x c = Command (cb_Use c) (cb_Aliases c) (cb_Flags c) (cb_PersistentFlags c) (cb_Args c) (cb_Run c)
     (cb_commands c @ [x])"

text \<open>
  The flags a command parses: its own, its persistent ones, those its parents hand down. A flag is not
  added to a set that has one of its name.
\<close>

definition AddFlagSet :: "'c pflag list \<Rightarrow> 'c pflag list \<Rightarrow> 'c pflag list" where
  "AddFlagSet fs newSet = foldl (\<lambda>fs fl. if Lookup (pf_Name fl) fs = None then fs @ [fl] else fs) fs newSet"

definition merged_flags :: "'c pflag list \<Rightarrow> ('c, 'r) Command \<Rightarrow> 'c pflag list" where
  "merged_flags parents c = AddFlagSet (AddFlagSet (cb_Flags c) (cb_PersistentFlags c)) parents"

definition hasNoOptDefVal :: "string \<Rightarrow> 'c pflag list \<Rightarrow> bool" where
  "hasNoOptDefVal name fs =
     (case Lookup name fs of None \<Rightarrow> False | Some fl \<Rightarrow> pf_NoOptDefVal fl \<noteq> [])"

definition shortHasNoOptDefVal :: "string \<Rightarrow> 'c pflag list \<Rightarrow> bool" where
  "shortHasNoOptDefVal name fs =
     (case name of
        [] \<Rightarrow> False
      | c # _ \<Rightarrow> (case ShorthandLookup c fs of None \<Rightarrow> False | Some fl \<Rightarrow> pf_NoOptDefVal fl \<noteq> []))"

text \<open>An argument that takes the next one as its value, as far as these flags tell.\<close>

definition takes_value :: "'c pflag list \<Rightarrow> string \<Rightarrow> bool" where
  "takes_value fs s \<longleftrightarrow>
     HasPrefix s ''--'' \<and> CHR ''='' \<notin> set s \<and> \<not> hasNoOptDefVal (drop 2 s) fs \<or>
     HasPrefix s ''-'' \<and> CHR ''='' \<notin> set s \<and> length s = 2 \<and> \<not> shortHasNoOptDefVal (drop 1 s) fs"

fun stripFlags :: "'c pflag list \<Rightarrow> string list \<Rightarrow> string list \<Rightarrow> string list" where
  "stripFlags fs [] commands = commands"
| "stripFlags fs (s # args) commands =
     (if s = ''--'' then commands
      else if takes_value fs s then
        (case args of
           [] \<Rightarrow> commands
         | [v] \<Rightarrow> commands
         | v # a # args \<Rightarrow> stripFlags fs (a # args) commands)
      else if s \<noteq> [] \<and> \<not> HasPrefix s ''-'' then stripFlags fs args (commands @ [s])
      else stripFlags fs args commands)"

fun argsMinusFirstX :: "'c pflag list \<Rightarrow> string \<Rightarrow> string list \<Rightarrow> string list" where
  "argsMinusFirstX fs x [] = []"
| "argsMinusFirstX fs x (s # args) =
     (if s = ''--'' then s # args
      else if takes_value fs s then
        (case args of [] \<Rightarrow> [s] | v # args \<Rightarrow> s # v # argsMinusFirstX fs x args)
      else if \<not> HasPrefix s ''-'' \<and> s = x then args
      else s # argsMinusFirstX fs x args)"

definition findNext :: "('c, 'r) Command \<Rightarrow> string \<Rightarrow> ('c, 'r) Command option" where
  "findNext c nxt = find (\<lambda>cmd. cb_Name cmd = nxt \<or> nxt \<in> set (cb_Aliases cmd)) (cb_commands c)"

lemma findNext_size: "findNext c nxt = Some cmd \<Longrightarrow> size cmd < size c"
proof -
  assume "findNext c nxt = Some cmd"
  then have "cmd \<in> set (cb_commands c)" by (auto simp: findNext_def find_Some_iff)
  then have "size cmd \<le> size_list size (cb_commands c)" by (simp add: size_list_estimation')
  then show ?thesis by (cases c) simp
qed

text \<open>What is found: the command, the flags handed down to it, whether it is the root, the arguments left.\<close>

record ('c, 'r) found =
  fd_cmd :: "('c, 'r) Command"
  fd_parents :: "'c pflag list"
  fd_root :: bool
  fd_args :: "string list"

function innerfind ::
  "'c pflag list \<Rightarrow> bool \<Rightarrow> ('c, 'r) Command \<Rightarrow> string list \<Rightarrow> ('c, 'r) found"
where
  "innerfind parents isroot c innerArgs =
     (let fs = merged_flags parents c in
      case stripFlags fs innerArgs [] of
        [] \<Rightarrow> \<lparr>fd_cmd = c, fd_parents = parents, fd_root = isroot, fd_args = innerArgs\<rparr>
      | nextSubCmd # _ \<Rightarrow>
          (case findNext c nextSubCmd of
             Some cmd \<Rightarrow>
               innerfind (cb_PersistentFlags c @ parents) False cmd (argsMinusFirstX fs nextSubCmd innerArgs)
           | None \<Rightarrow> \<lparr>fd_cmd = c, fd_parents = parents, fd_root = isroot, fd_args = innerArgs\<rparr>))"
  by auto
termination
  by (relation "measure (\<lambda>(parents, isroot, c, innerArgs). size c)") (auto dest: findNext_size)

declare innerfind.simps [simp del]

definition legacyArgs :: "bool \<Rightarrow> ('c, 'r) Command \<Rightarrow> string list \<Rightarrow> cli_error option" where
  "legacyArgs isroot cmd args =
     (if cb_commands cmd = [] then None
      else if isroot then (case args of [] \<Rightarrow> None | a # _ \<Rightarrow> Some (UnknownCommand a))
      else None)"

definition Find :: "('c, 'r) Command \<Rightarrow> string list \<Rightarrow> ('c, 'r) found \<times> cli_error option" where
  "Find c args =
     (let fd = innerfind [] True c args in
      if cb_Args (fd_cmd fd) = None then
        (fd, legacyArgs (fd_root fd) (fd_cmd fd)
           (stripFlags (merged_flags (fd_parents fd) (fd_cmd fd)) (fd_args fd) []))
      else (fd, None))"

section \<open>Execution\<close>

text \<open>The variable of the flag \<open>help\<close>, which every command has, is beside those of the program.\<close>

type_synonym 'c vars = "'c \<times> bool"

definition bool_set :: "string \<Rightarrow> bool option" where
  "bool_set s = (case ParseBool s of (b, None) \<Rightarrow> Some b | (b, Some err) \<Rightarrow> None)"

definition StringVarP :: "((string \<Rightarrow> string) \<Rightarrow> 'c \<Rightarrow> 'c) \<Rightarrow> string \<Rightarrow> string \<Rightarrow> 'c vars pflag" where
  "StringVarP upd name shorthand =
     \<lparr>pf_Name = name, pf_Shorthand = shorthand, pf_NoOptDefVal = [], pf_Required = False,
      pf_Set = (\<lambda>s (c, help). Some (upd (\<lambda>_. s) c, help))\<rparr>"

definition BoolVarP :: "((bool \<Rightarrow> bool) \<Rightarrow> 'c \<Rightarrow> 'c) \<Rightarrow> string \<Rightarrow> string \<Rightarrow> 'c vars pflag" where
  "BoolVarP upd name shorthand =
     \<lparr>pf_Name = name, pf_Shorthand = shorthand, pf_NoOptDefVal = ''true'', pf_Required = False,
      pf_Set = (\<lambda>s (c, help). map_option (\<lambda>b. (upd (\<lambda>_. b) c, help)) (bool_set s))\<rparr>"

definition help_flag :: "'c vars pflag" where
  "help_flag =
     \<lparr>pf_Name = ''help'', pf_Shorthand = ''h'', pf_NoOptDefVal = ''true'', pf_Required = False,
      pf_Set = (\<lambda>s (c, help). map_option (\<lambda>b. (c, b)) (bool_set s))\<rparr>"

definition InitDefaultHelpFlag :: "'c vars pflag list \<Rightarrow> 'c vars pflag list" where
  "InitDefaultHelpFlag fs = (case Lookup ''help'' fs of None \<Rightarrow> fs @ [help_flag] | Some _ \<Rightarrow> fs)"

text \<open>\<open>MarkFlagRequired\<close> fails for a name that is no flag.\<close>

definition MarkFlagRequired :: "string \<Rightarrow> 'c pflag list \<Rightarrow> 'c pflag list option" where
  "MarkFlagRequired name fs =
     (case Lookup name fs of
        None \<Rightarrow> None
      | Some _ \<Rightarrow> Some (map (\<lambda>fl. if pf_Name fl = name then fl\<lparr>pf_Required := True\<rparr> else fl) fs))"

definition ValidateArgs :: "nat option \<Rightarrow> string list \<Rightarrow> cli_error option" where
  "ValidateArgs n args =
     (case n of
        None \<Rightarrow> None
      | Some n \<Rightarrow> if length args \<noteq> n then Some (WrongArgs n (length args)) else None)"

definition ValidateRequiredFlags :: "'c pflag list \<Rightarrow> string list \<Rightarrow> cli_error option" where
  "ValidateRequiredFlags fs changed =
     (let missingFlagNames = sort_strings (map pf_Name (filter (\<lambda>fl. pf_Required fl \<and> pf_Name fl \<notin> set changed) fs)) in
      if length missingFlagNames > 0 then Some (RequiredFlags missingFlagNames) else None)"

text \<open>
  What becomes of a command line: a function of the program is to be run with the variables and the
  arguments, cobra shows a help text, one of cobra's own commands runs, or there is an error.
\<close>

datatype ('c, 'r) outcome =
  Runs 'r 'c "string list" | ShowsHelp | OwnCommand string | Fails cli_error

definition execute :: "('c vars, 'r) found \<Rightarrow> 'c \<Rightarrow> ('c, 'r) outcome" where
  "execute fd vars =
     (let c = fd_cmd fd;
          fs = InitDefaultHelpFlag (merged_flags (fd_parents fd) c) in
      case parseArgs fs (fd_args fd) \<lparr>ps_vars = (vars, False), ps_changed = [], ps_args = []\<rparr> of
        Inl err \<Rightarrow> if err = ErrHelp then ShowsHelp else Fails err
      | Inr st \<Rightarrow>
          if snd (ps_vars st) then ShowsHelp
          else
            (case ValidateArgs (cb_Args c) (ps_args st) of
               Some err \<Rightarrow> Fails err
             | None \<Rightarrow>
                 (case ValidateRequiredFlags fs (ps_changed st) of
                    Some err \<Rightarrow> Fails err
                  | None \<Rightarrow>
                      (case cb_Run c of
                         None \<Rightarrow> OwnCommand (cb_Name c)
                       | Some run \<Rightarrow> Runs run (fst (ps_vars st)) (ps_args st)))))"

text \<open>The commands cobra adds before it looks for the command.\<close>

definition own_command :: "string \<Rightarrow> string list \<Rightarrow> ('c, 'r) Command" where
  "own_command use aliases = Command use aliases [] [] None None []"

definition helpCommand :: "('c, 'r) Command" where "helpCommand = own_command ''help [command]'' []"

definition completeCmd :: "('c, 'r) Command" where
  "completeCmd = own_command ''__complete [command-line]'' [''__completeNoDesc'']"

definition completionCmd :: "('c, 'r) Command" where "completionCmd = own_command ''completion'' []"

definition InitDefaultHelpCmd :: "('c, 'r) Command \<Rightarrow> ('c, 'r) Command" where
  "InitDefaultHelpCmd c = (if cb_commands c = [] then c else AddCommand helpCommand c)"

definition initCompleteCmd :: "string list \<Rightarrow> ('c, 'r) Command \<Rightarrow> ('c, 'r) Command" where
  "initCompleteCmd args c =
     (let c' = AddCommand completeCmd c in
      case Find c' args of
        (fd, err) \<Rightarrow> if err \<noteq> None \<or> cb_Name (fd_cmd fd) \<noteq> ''__complete'' then c else c')"

definition InitDefaultCompletionCmd :: "string list \<Rightarrow> ('c, 'r) Command \<Rightarrow> ('c, 'r) Command" where
  "InitDefaultCompletionCmd args c =
     (if \<exists>cmd \<in> set (cb_commands c). cb_Name cmd = ''completion'' \<or> ''completion'' \<in> set (cb_Aliases cmd) then c
      else
        (let hasSubCommands = (\<exists>cmd \<in> set (cb_commands c). cb_Name cmd \<notin> {''__complete'', ''help''});
             c' = AddCommand completionCmd c in
         if hasSubCommands then c'
         else
           (case Find c' args of
              (fd, err) \<Rightarrow>
                if err \<noteq> None \<or> cb_Name (fd_cmd fd) \<noteq> ''completion'' \<and>
                   (cb_Name (fd_cmd fd) \<noteq> ''__complete'' \<or> length (fd_args fd) \<le> 1 \<or> hd (fd_args fd) \<noteq> ''completion'')
                then c else c')))"

definition ExecuteC :: "('c vars, 'r) Command \<Rightarrow> string list \<Rightarrow> 'c \<Rightarrow> ('c, 'r) outcome" where
  "ExecuteC c args vars =
     (let c = InitDefaultCompletionCmd args (initCompleteCmd args (InitDefaultHelpCmd c)) in
      case Find c args of
        (fd, Some err) \<Rightarrow> Fails err
      | (fd, None) \<Rightarrow>
          if cb_Run (fd_cmd fd) = None then OwnCommand (cb_Name (fd_cmd fd)) else execute fd vars)"

section \<open>Command lines in their plain form\<close>

text \<open>The argument \<open>--name=value\<close>.\<close>

definition long :: "string \<times> string \<Rightarrow> string" where
  "long s = ''--'' @ fst s @ CHR ''='' # snd s"

definition flag_name :: "string \<Rightarrow> bool" where
  "flag_name n \<longleftrightarrow> n \<noteq> [] \<and> hd n \<noteq> CHR ''-'' \<and> CHR ''='' \<notin> set n"

definition word :: "string \<Rightarrow> bool" where
  "word s \<longleftrightarrow> s \<noteq> [] \<and> hd s \<noteq> CHR ''-''"

lemma word_no_dash: "word s \<Longrightarrow> \<not> HasPrefix s (CHR ''-'' # p)"
  by (cases s) (auto simp: word_def)

lemma split_eq_name: "CHR ''='' \<notin> set n \<Longrightarrow> split_eq (n @ CHR ''='' # v) = (n, Some v)"
  by (induction n) (auto simp: split_eq_def split: list.splits)

lemma takes_value_long [simp]: "\<not> takes_value fs (long s)"
  by (simp add: takes_value_def long_def)

lemma takes_value_word: "word s \<Longrightarrow> \<not> takes_value fs s"
  by (simp add: takes_value_def word_no_dash)

lemma long_not_dashes [simp]: "long s \<noteq> ''--''" "HasPrefix (long s) ''-''"
  by (simp_all add: long_def)

lemma stripFlags_longs [simp]: "stripFlags fs (map long xs @ rest) acc = stripFlags fs rest acc"
  by (induction xs) simp_all

lemma stripFlags_all_longs [simp]: "stripFlags fs (map long xs) acc = acc"
  using stripFlags_longs [of fs xs "[]" acc] by simp

lemma stripFlags_word:
  "word s \<Longrightarrow> stripFlags fs (s # rest) acc = stripFlags fs rest (acc @ [s])"
  by (cases s) (auto simp: takes_value_word word_no_dash word_def)

lemma argsMinusFirstX_longs:
  "word x \<Longrightarrow> argsMinusFirstX fs x (map long xs @ x # rest) = map long xs @ rest"
proof (induction xs)
  case Nil
  then show ?case by (cases x) (auto simp: takes_value_word word_no_dash word_def)
next
  case (Cons s xs)
  then show ?case by simp
qed

lemma parseArgs_long:
  assumes "flag_name (fst s)" "Lookup (fst s) fs = Some fl"
  shows "parseArgs fs (long s # args) st =
    (case FlagSet_Set fl (snd s) st of Inl err \<Rightarrow> Inl err | Inr st \<Rightarrow> parseArgs fs args st)"
proof -
  have "parseLongArg fs (long s) args st =
      (case FlagSet_Set fl (snd s) st of Inl err \<Rightarrow> Inl err | Inr st \<Rightarrow> Inr (args, st))"
    using assms split_eq_name [of "fst s" "snd s"]
    by (cases "fst s") (auto simp: parseLongArg_def long_def flag_name_def split: sum.splits)
  then show ?thesis
    by (simp add: parseArgs.simps(2)) (simp add: long_def split: sum.splits)
qed

lemma parseArgs_dashes: "parseArgs fs (''--'' # args) st = Inr (st\<lparr>ps_args := ps_args st @ args\<rparr>)"
  by (simp add: parseArgs.simps(2))

text \<open>
  A shorthand letter followed by its value, or alone when the flag takes none, is read like the long form.
\<close>

lemma parseShorts_letter:
  assumes "ShorthandLookup c fs = Some fl"
  shows "pf_NoOptDefVal fl = [] \<Longrightarrow> parseShorts fs [c] (v # args) a st =
      (case FlagSet_Set fl v st of Inl err \<Rightarrow> Inl err | Inr st \<Rightarrow> Inr (args, st))"
    and "pf_NoOptDefVal fl \<noteq> [] \<Longrightarrow> parseShorts fs [c] args a st =
      (case FlagSet_Set fl (pf_NoOptDefVal fl) st of Inl err \<Rightarrow> Inl err | Inr st \<Rightarrow> Inr (args, st))"
  using assms by (subst parseShorts.simps, auto simp: parseSingleShortArg_def parseShorts.simps split: sum.splits)+

lemma parseArgs_letter:
  "c \<noteq> CHR ''-'' \<Longrightarrow> parseArgs fs ([CHR ''-'', c] # args) st =
     (case parseShorts fs [c] args args st of Inl err \<Rightarrow> Inl err | Inr (args, st) \<Rightarrow> parseArgs fs args st)"
  by (simp add: parseArgs.simps(2) parseShortArg_def)

lemma shorthand_as_long:
  assumes "ShorthandLookup c fs = Some fl" "Lookup (pf_Name fl) fs = Some fl" "flag_name (pf_Name fl)" "c \<noteq> CHR ''-''"
  shows "pf_NoOptDefVal fl = [] \<Longrightarrow>
      parseArgs fs ([CHR ''-'', c] # v # args) st = parseArgs fs (long (pf_Name fl, v) # args) st"
    and "pf_NoOptDefVal fl \<noteq> [] \<Longrightarrow>
      parseArgs fs ([CHR ''-'', c] # args) st = parseArgs fs (long (pf_Name fl, pf_NoOptDefVal fl) # args) st"
  using assms
  by (simp_all add: parseArgs_long parseArgs_letter parseShorts_letter split: sum.splits)

section \<open>Which flags a command line sets\<close>

definition mentions :: "string list \<Rightarrow> string \<Rightarrow> bool" where
  "mentions args n \<longleftrightarrow> (\<exists>a \<in> set args. HasPrefix a (''--'' @ n))"

definition has_shorthand :: "'c pflag list \<Rightarrow> string \<Rightarrow> bool" where
  "has_shorthand fs n \<longleftrightarrow> (\<exists>fl \<in> set fs. pf_Name fl = n \<and> pf_Shorthand fl \<noteq> [])"

lemma mentions_mono: "mentions a n \<Longrightarrow> set a \<subseteq> set args \<Longrightarrow> mentions (s # args) n"
  by (auto simp: mentions_def)

lemma FlagSet_Set_changed:
  "FlagSet_Set fl v st = Inr st' \<Longrightarrow> set (ps_changed st') = insert (pf_Name fl) (set (ps_changed st))"
  by (auto simp: FlagSet_Set_def split: option.splits if_splits)

lemma HasPrefix_append: "HasPrefix (p @ s) (p @ q) = HasPrefix s q"
  by (induction p) auto

lemma split_eq_prefix: "split_eq s = (n, v) \<Longrightarrow> HasPrefix s n"
  by (auto simp: split_eq_def HasPrefix_iff split: list.splits)
    (metis takeWhile_dropWhile_id)

lemma parseLongArg_changed:
  assumes "parseLongArg fs s args st = Inr (a, st')" "HasPrefix s ''--''"
  shows "\<exists>n. set (ps_changed st') = insert n (set (ps_changed st)) \<and> HasPrefix s (''--'' @ n)"
    and "set a \<subseteq> set args"
proof -
  obtain n v where sp: "split_eq (drop 2 s) = (n, v)" by force
  obtain r where s: "s = ''--'' @ r" using assms(2) by (auto simp: HasPrefix_iff)
  have "HasPrefix s (''--'' @ n)"
    using split_eq_prefix [OF sp] unfolding s by (simp add: HasPrefix_append)
  moreover from assms(1) sp have "\<exists>fl w. Lookup n fs = Some fl \<and> FlagSet_Set fl w st = Inr st' \<and> set a \<subseteq> set args"
    by (auto simp: parseLongArg_def Let_def split: if_splits option.splits sum.splits list.splits)
  then obtain fl w where "Lookup n fs = Some fl" "FlagSet_Set fl w st = Inr st'" "set a \<subseteq> set args" by blast
  ultimately show "\<exists>n. set (ps_changed st') = insert n (set (ps_changed st)) \<and> HasPrefix s (''--'' @ n)"
    and "set a \<subseteq> set args"
    by (auto dest!: FlagSet_Set_changed simp: Lookup_def find_Some_iff)
qed

lemma ShorthandLookup_has: "ShorthandLookup c fs = Some fl \<Longrightarrow> has_shorthand fs (pf_Name fl)"
  by (auto simp: ShorthandLookup_def has_shorthand_def find_Some_iff intro!: bexI [of _ fl] nth_mem)

lemma parseSingleShortArg_changed:
  assumes "parseSingleShortArg fs sh args st = Inr (sh', a, st')"
  shows "\<forall>n \<in> set (ps_changed st') - set (ps_changed st). has_shorthand fs n" and "set a \<subseteq> set args"
  using assms
  by (auto simp: parseSingleShortArg_def Let_def
      split: if_splits option.splits sum.splits list.splits dest!: FlagSet_Set_changed ShorthandLookup_has)

lemma parseShorts_changed:
  "parseShorts fs sh args a st = Inr (a', st') \<Longrightarrow> set a \<subseteq> set args \<Longrightarrow>
   (\<forall>n \<in> set (ps_changed st') - set (ps_changed st). has_shorthand fs n) \<and> set a' \<subseteq> set args"
proof (induction fs sh args a st rule: parseShorts.induct)
  case (1 fs sh args a st)
  show ?case
  proof (cases "sh = []")
    case True
    with "1.prems" show ?thesis by (simp add: parseShorts.simps)
  next
    case False
    with "1.prems"(1) obtain sh1 a1 st1
      where p: "parseSingleShortArg fs sh args st = Inr (sh1, a1, st1)"
        and r: "parseShorts fs sh1 args a1 st1 = Inr (a', st')"
      by (subst (asm) parseShorts.simps) (auto split: sum.splits prod.splits)
    from parseSingleShortArg_changed [OF p] have h: "\<forall>n \<in> set (ps_changed st1) - set (ps_changed st). has_shorthand fs n"
      and a1: "set a1 \<subseteq> set args" by auto
    from "1.IH" [OF False p refl refl r a1] h show ?thesis by blast
  qed
qed

lemma parseArgs_changed:
  "parseArgs fs args st = Inr st' \<Longrightarrow>
   \<forall>n \<in> set (ps_changed st') - set (ps_changed st). mentions args n \<or> has_shorthand fs n"
proof (induction fs args st rule: parseArgs.induct)
  case (1 fs st)
  then show ?case by simp
next
  case (2 fs s args st)
  consider (word) "s = [] \<or> hd s \<noteq> CHR ''-'' \<or> length s = 1"
    | (dashes) "s = ''--''"
    | (long) "\<not> (s = [] \<or> hd s \<noteq> CHR ''-'' \<or> length s = 1)" "s ! 1 = CHR ''-''" "length s \<noteq> 2"
    | (short) "\<not> (s = [] \<or> hd s \<noteq> CHR ''-'' \<or> length s = 1)" "s ! 1 \<noteq> CHR ''-''"
    by (cases s; cases "tl s") auto
  then show ?case
  proof cases
    case word
    from 2(1) [OF word] 2(4) word show ?thesis
      by (auto simp: parseArgs.simps(2) mentions_def)
  next
    case dashes
    with 2(4) show ?thesis by (auto simp: parseArgs.simps(2))
  next
    case long
    with 2(4) obtain a1 st1 where p: "parseLongArg fs s args st = Inr (a1, st1)" "parseArgs fs a1 st1 = Inr st'"
      by (auto simp: parseArgs.simps(2) split: sum.splits prod.splits)
    from long have pre: "HasPrefix s ''--''" by (cases s; cases "tl s") auto
    have ih: "\<forall>n \<in> set (ps_changed st') - set (ps_changed st1). mentions a1 n \<or> has_shorthand fs n"
      using 2(2) [OF long p(1) refl p(2)] .
    from parseLongArg_changed(1) [OF p(1) pre] obtain m
      where m: "set (ps_changed st1) = insert m (set (ps_changed st))" "HasPrefix s (''--'' @ m)" by blast
    from parseLongArg_changed(2) [OF p(1) pre] ih
    have "\<forall>n \<in> set (ps_changed st') - insert m (set (ps_changed st)). mentions (s # args) n \<or> has_shorthand fs n"
      unfolding m(1) by (blast intro: mentions_mono)
    moreover have "mentions (s # args) m" using m(2) by (simp add: mentions_def)
    ultimately show ?thesis by blast
  next
    case short
    with 2(4) obtain a1 st1 where p: "parseShortArg fs s args st = Inr (a1, st1)" "parseArgs fs a1 st1 = Inr st'"
      by (auto simp: parseArgs.simps(2) split: sum.splits prod.splits)
    have ih: "\<forall>n \<in> set (ps_changed st') - set (ps_changed st1). mentions a1 n \<or> has_shorthand fs n"
      using 2(3) [OF short p(1) refl p(2)] .
    from parseShorts_changed [OF p(1) [unfolded parseShortArg_def]] ih show ?thesis
      by (blast intro: mentions_mono)
  qed
qed

section \<open>Finding the command of a plain command line\<close>

text \<open>What may end a command line: nothing, or \<open>--\<close> and arguments.\<close>

definition ends :: "string list \<Rightarrow> string list \<Rightarrow> bool" where
  "ends rest pos \<longleftrightarrow> rest = [] \<and> pos = [] \<or> rest = ''--'' # pos"

lemma ends_simps [simp]: "ends [] []" "ends (''--'' # pos) pos"
  by (simp_all add: ends_def)

lemma stripFlags_ends: "ends rest pos \<Longrightarrow> stripFlags fs rest acc = acc"
  by (auto simp: ends_def)

lemma parseArgs_ends: "ends rest pos \<Longrightarrow> parseArgs fs rest st = Inr (st\<lparr>ps_args := ps_args st @ pos\<rparr>)"
  by (auto simp: ends_def parseArgs_dashes)

lemma AddCommand_sel [simp]:
  "cb_Args (AddCommand x c) = cb_Args c" "cb_Run (AddCommand x c) = cb_Run c"
  "cb_Use (AddCommand x c) = cb_Use c" "cb_Flags (AddCommand x c) = cb_Flags c"
  "cb_PersistentFlags (AddCommand x c) = cb_PersistentFlags c" "cb_commands (AddCommand x c) = cb_commands c @ [x]"
  by (simp_all add: AddCommand_def)

lemma find_append: "find P (xs @ ys) = (case find P xs of None \<Rightarrow> find P ys | Some x \<Rightarrow> Some x)"
  by (induction xs) auto

lemma findNext_AddCommand:
  "findNext (AddCommand x c) n =
     (case findNext c n of
        None \<Rightarrow> if cb_Name x = n \<or> n \<in> set (cb_Aliases x) then Some x else None
      | Some cmd \<Rightarrow> Some cmd)"
  by (simp add: findNext_def find_append split: option.splits)

text \<open>A command with some of cobra's own commands behind its own ones.\<close>

definition extends :: "('c, 'r) Command \<Rightarrow> ('c, 'r) Command \<Rightarrow> bool" where
  "extends c c' \<longleftrightarrow>
     (\<exists>xs. cb_commands c' = cb_commands c @ xs \<and> set xs \<subseteq> {helpCommand, completeCmd, completionCmd}) \<and>
     cb_Args c' = cb_Args c \<and> cb_Run c' = cb_Run c \<and> cb_Use c' = cb_Use c \<and>
     cb_Flags c' = cb_Flags c \<and> cb_PersistentFlags c' = cb_PersistentFlags c"

lemma extends_refl: "extends c c"
  by (simp add: extends_def)

lemma extends_Add: "extends c c' \<Longrightarrow> x \<in> {helpCommand, completeCmd, completionCmd} \<Longrightarrow> extends c (AddCommand x c')"
  by (auto simp: extends_def)

definition with_own :: "string list \<Rightarrow> ('c, 'r) Command \<Rightarrow> ('c, 'r) Command" where
  "with_own args c = InitDefaultCompletionCmd args (initCompleteCmd args (InitDefaultHelpCmd c))"

lemma extends_own: "extends c (with_own args c)"
proof -
  have "extends c (InitDefaultHelpCmd c)"
    by (simp add: InitDefaultHelpCmd_def extends_refl extends_Add)
  then have "extends c (initCompleteCmd args (InitDefaultHelpCmd c))"
    by (auto simp: initCompleteCmd_def Let_def extends_Add split: prod.splits)
  then show ?thesis
    by (auto simp: with_own_def InitDefaultCompletionCmd_def Let_def extends_Add split: prod.splits)
qed

lemma findNext_extends:
  assumes "extends c c'" "findNext c n = Some cmd"
  shows "findNext c' n = Some cmd"
  using assms by (auto simp: extends_def findNext_def find_append)

lemma merged_extends: "extends c c' \<Longrightarrow> merged_flags parents c' = merged_flags parents c"
  by (simp add: extends_def merged_flags_def)

lemma innerfind_sub:
  assumes "word sub" "findNext c sub = Some cmd" "ends rest pos"
  shows "innerfind parents isroot c (map long xs @ sub # map long ys @ rest) =
    \<lparr>fd_cmd = cmd, fd_parents = cb_PersistentFlags c @ parents, fd_root = False, fd_args = map long (xs @ ys) @ rest\<rparr>"
proof -
  have "stripFlags fs (map long xs @ sub # map long ys @ rest) [] = [sub]" for fs :: "'a pflag list"
    using assms(1,3) by (simp only: stripFlags_longs stripFlags_word stripFlags_ends append_Nil)
  moreover have "argsMinusFirstX fs sub (map long xs @ sub # map long ys @ rest) = map long (xs @ ys) @ rest" for fs :: "'a pflag list"
    using assms(1) by (simp add: argsMinusFirstX_longs)
  moreover have "innerfind (cb_PersistentFlags c @ parents) False cmd (map long (xs @ ys) @ rest) =
      \<lparr>fd_cmd = cmd, fd_parents = cb_PersistentFlags c @ parents, fd_root = False, fd_args = map long (xs @ ys) @ rest\<rparr>"
    using assms(3) by (subst innerfind.simps) (simp add: stripFlags_ends del: map_append)
  ultimately show ?thesis
    using assms(2) by (subst innerfind.simps) (simp add: Let_def)
qed

lemma innerfind_root:
  assumes "ends rest pos"
  shows "innerfind parents isroot c (map long xs @ rest) =
    \<lparr>fd_cmd = c, fd_parents = parents, fd_root = isroot, fd_args = map long xs @ rest\<rparr>"
  using assms by (subst innerfind.simps) (simp add: stripFlags_ends)

lemma ExecuteC_own:
  "ExecuteC c args vars =
     (case Find (with_own args c) args of
        (fd, Some err) \<Rightarrow> Fails err
      | (fd, None) \<Rightarrow> if cb_Run (fd_cmd fd) = None then OwnCommand (cb_Name (fd_cmd fd)) else execute fd vars)"
  by (simp add: ExecuteC_def with_own_def)

lemma ExecuteC_sub:
  assumes "word sub" "findNext c sub = Some cmd" "ends rest pos" "cb_Run cmd \<noteq> None"
  shows "ExecuteC c (map long xs @ sub # map long ys @ rest) vars =
    execute \<lparr>fd_cmd = cmd, fd_parents = cb_PersistentFlags c, fd_root = False, fd_args = map long (xs @ ys) @ rest\<rparr> vars"
proof -
  let ?args = "map long xs @ sub # map long ys @ rest"
  have e: "extends c (with_own ?args c)" by (rule extends_own)
  have "cb_PersistentFlags (with_own ?args c) = cb_PersistentFlags c" using e by (simp add: extends_def)
  with innerfind_sub [OF assms(1) findNext_extends [OF e assms(2)] assms(3), of "[]" True xs ys] assms(4)
  show ?thesis by (auto simp: ExecuteC_own Find_def legacyArgs_def Let_def)
qed

text \<open>\<open>execute\<close> looks at the flags, the arguments asked for and what is to be run only.\<close>

lemma execute_extends:
  assumes "extends c c'" "cb_Run c \<noteq> None"
  shows "execute \<lparr>fd_cmd = c', fd_parents = parents, fd_root = r, fd_args = args\<rparr> vars =
    execute \<lparr>fd_cmd = c, fd_parents = parents, fd_root = r', fd_args = args\<rparr> vars"
proof -
  have "cb_Args c' = cb_Args c" "cb_Run c' = cb_Run c" "merged_flags parents c' = merged_flags parents c"
    using assms(1) by (simp_all add: extends_def merged_extends)
  then show ?thesis using assms(2) by (auto simp: execute_def Let_def split: sum.splits option.splits)
qed

lemma ExecuteC_root:
  assumes "ends rest pos" "cb_Run c \<noteq> None"
  shows "ExecuteC c (map long xs @ rest) vars =
    execute \<lparr>fd_cmd = c, fd_parents = [], fd_root = True, fd_args = map long xs @ rest\<rparr> vars"
proof -
  let ?args = "map long xs @ rest"
  have e: "extends c (with_own ?args c)" by (rule extends_own)
  have "cb_Run (with_own ?args c) = cb_Run c" using e by (simp add: extends_def)
  with assms execute_extends [OF e assms(2)] show ?thesis
    by (auto simp: ExecuteC_own Find_def Let_def innerfind_root [OF assms(1)] legacyArgs_def stripFlags_ends [OF assms(1)])
qed

section \<open>Settings\<close>

text \<open>What a setting \<open>--name=value\<close> does to the variables, and when it is taken whatever they are.\<close>

definition assign :: "'c pflag list \<Rightarrow> string \<times> string \<Rightarrow> 'c \<Rightarrow> 'c" where
  "assign fs s vars =
     (case Lookup (fst s) fs of
        None \<Rightarrow> vars
      | Some fl \<Rightarrow> (case pf_Set fl (snd s) vars of None \<Rightarrow> vars | Some vars \<Rightarrow> vars))"

definition accepts :: "'c pflag list \<Rightarrow> string \<times> string \<Rightarrow> bool" where
  "accepts fs s \<longleftrightarrow>
     flag_name (fst s) \<and> (\<exists>fl. Lookup (fst s) fs = Some fl \<and> (\<forall>vars. pf_Set fl (snd s) vars \<noteq> None))"

lemma parseArgs_setting:
  assumes "accepts fs s"
  shows "\<exists>ch. parseArgs fs (long s # args) st =
      parseArgs fs args (st\<lparr>ps_vars := assign fs s (ps_vars st), ps_changed := ch\<rparr>) \<and>
    set ch = insert (fst s) (set (ps_changed st))"
proof -
  from assms obtain fl where fl: "flag_name (fst s)" "Lookup (fst s) fs = Some fl" "\<forall>vars. pf_Set fl (snd s) vars \<noteq> None"
    by (auto simp: accepts_def)
  from fl(3) obtain vars where v: "pf_Set fl (snd s) (ps_vars st) = Some vars" by blast
  have "pf_Name fl = fst s" using fl(2) by (auto simp: Lookup_def find_Some_iff)
  with v fl(2) have "\<exists>ch. FlagSet_Set fl (snd s) st = Inr (st\<lparr>ps_vars := assign fs s (ps_vars st), ps_changed := ch\<rparr>) \<and>
      set ch = insert (fst s) (set (ps_changed st))"
    by (intro exI [of _ "if fst s \<in> set (ps_changed st) then ps_changed st else ps_changed st @ [fst s]"])
      (auto simp: FlagSet_Set_def assign_def)
  with parseArgs_long [OF fl(1,2), of args st] show ?thesis by (auto simp del: insert_iff)
qed

lemma parseArgs_settings:
  "\<forall>s \<in> set xs. accepts fs s \<Longrightarrow>
   \<exists>ch. parseArgs fs (map long xs @ rest) st =
       parseArgs fs rest (st\<lparr>ps_vars := fold (assign fs) xs (ps_vars st), ps_changed := ch\<rparr>) \<and>
     set ch = fst ` set xs \<union> set (ps_changed st)"
proof (induction xs arbitrary: st)
  case Nil
  show ?case by (rule exI [of _ "ps_changed st"]) simp
next
  case (Cons s xs)
  from Cons.prems parseArgs_setting [of fs s "map long xs @ rest" st] obtain ch
    where 1: "parseArgs fs (map long (s # xs) @ rest) st =
        parseArgs fs (map long xs @ rest) (st\<lparr>ps_vars := assign fs s (ps_vars st), ps_changed := ch\<rparr>)"
      "set ch = insert (fst s) (set (ps_changed st))" by auto
  from Cons.prems Cons.IH [of "st\<lparr>ps_vars := assign fs s (ps_vars st), ps_changed := ch\<rparr>"] 1 show ?case by auto
qed

text \<open>
  Settings that do not interfere may be given in any order, and those that set a default may be left out.
\<close>

lemma fold_settings:
  assumes "distinct xs" "distinct ws" "set xs \<subseteq> set ws"
    and comm: "\<And>x y. x \<in> set ws \<Longrightarrow> y \<in> set ws \<Longrightarrow> f x \<circ> f y = f y \<circ> f x"
    and default: "\<And>x. x \<in> set ws - set xs \<Longrightarrow> f x d = d"
  shows "fold f xs d = fold f ws d"
proof -
  let ?m = "filter (\<lambda>x. x \<notin> set xs) ws"
  have "fold f ?m d = d"
    using default by (intro fold_invariant [where Q = "\<lambda>x. x \<in> set ws - set xs" and P = "\<lambda>e. e = d"]) auto
  then have "fold f xs d = fold f (?m @ xs) d" by simp
  also have "mset (?m @ xs) = mset ws"
    using assms(1-3) by (subst set_eq_iff_mset_eq_distinct [symmetric]) auto
  then have "fold f (?m @ xs) = fold f ws"
    using comm assms(3) by (intro fold_multiset_equiv) auto
  finally show ?thesis .
qed

text \<open>
  The contract of a set of flags with the variables they set: every value of the variables has a list of
  settings, which do not interfere, which give that value from the defaults, and which change nothing
  when they set a default. Then any settings of a value that leave out defaults only give that value.
\<close>

locale flag_settings =
  fixes assigns :: "string \<times> string \<Rightarrow> 'v \<Rightarrow> 'v"
    and settings_of :: "'c \<Rightarrow> (string \<times> string) list"
    and vars_of :: "'c \<Rightarrow> 'v"
    and defaults :: 'c
  assumes distinct_settings: "distinct (settings_of v)"
    and settings_commute: "s \<in> set (settings_of v) \<Longrightarrow> t \<in> set (settings_of v) \<Longrightarrow> assigns s \<circ> assigns t = assigns t \<circ> assigns s"
    and settings_read: "fold assigns (settings_of v) (vars_of defaults) = vars_of v"
    and settings_default: "s \<in> set (settings_of defaults) \<Longrightarrow> assigns s (vars_of defaults) = vars_of defaults"
begin

lemma read_back:
  assumes "distinct xs" "set xs \<subseteq> set (settings_of v)"
    and "\<forall>s \<in> set (settings_of v). s \<in> set xs \<or> s \<in> set (settings_of defaults)"
  shows "fold assigns xs (vars_of defaults) = vars_of v"
proof -
  have "fold assigns xs (vars_of defaults) = fold assigns (settings_of v) (vars_of defaults)"
    using assms distinct_settings by (intro fold_settings settings_commute settings_default) auto
  then show ?thesis by (simp add: settings_read)
qed

end

lemma execute_settings:
  assumes fs: "InitDefaultHelpFlag (merged_flags parents c) = fs"
    and "\<forall>s \<in> set xs. accepts fs s" "ends rest pos" "fold (assign fs) xs (vars, False) = (vars', False)"
    and "cb_Run c = Some run" "ValidateArgs (cb_Args c) pos = None"
    and "\<forall>fl \<in> set fs. pf_Required fl \<longrightarrow> pf_Name fl \<in> fst ` set xs"
  shows "execute \<lparr>fd_cmd = c, fd_parents = parents, fd_root = r, fd_args = map long xs @ rest\<rparr> vars = Runs run vars' pos"
proof -
  from parseArgs_settings [OF assms(2), of rest "\<lparr>ps_vars = (vars, False), ps_changed = [], ps_args = []\<rparr>"]
  obtain ch where "parseArgs fs (map long xs @ rest) \<lparr>ps_vars = (vars, False), ps_changed = [], ps_args = []\<rparr> =
      Inr \<lparr>ps_vars = (vars', False), ps_changed = ch, ps_args = pos\<rparr>" "set ch = fst ` set xs"
    using assms(3,4) by (auto simp: parseArgs_ends)
  moreover from this(2) assms(7) have "ValidateRequiredFlags fs ch = None"
    by (auto simp: ValidateRequiredFlags_def Let_def filter_empty_conv sort_strings_def)
  ultimately show ?thesis using assms(5,6) by (simp add: execute_def fs)
qed

section \<open>Refusals\<close>

lemma stripFlags_append: "stripFlags fs args (a @ b) = a @ stripFlags fs args b"
  by (induction fs args b arbitrary: a rule: stripFlags.induct) (auto split: list.splits)

lemma stripFlags_first: "\<exists>ws. stripFlags fs (map long xs @ sub # rest) [] = sub # ws" if "word sub"
  using stripFlags_append [of fs rest "[sub]" "[]"] that by (simp only: stripFlags_longs stripFlags_word append_Nil) simp

text \<open>The names of cobra's own commands.\<close>

definition own_names :: "string set" where
  "own_names = {''help'', ''completion'', ''__complete'', ''__completeNoDesc''}"

lemma own_found:
  assumes "extends c c'" "findNext c n = None" "findNext c' n = Some cmd"
  shows "cmd \<in> {helpCommand, completeCmd, completionCmd}" and "n \<in> own_names"
proof -
  from assms obtain xs where "find (\<lambda>cmd. cb_Name cmd = n \<or> n \<in> set (cb_Aliases cmd)) xs = Some cmd"
      "set xs \<subseteq> {helpCommand, completeCmd, completionCmd}"
    by (auto simp: extends_def findNext_def find_append)
  then have "cmd \<in> set xs" "cb_Name cmd = n \<or> n \<in> set (cb_Aliases cmd)" "set xs \<subseteq> {helpCommand, completeCmd, completionCmd}"
    by (auto simp: find_Some_iff)
  then show "cmd \<in> {helpCommand, completeCmd, completionCmd}" by blast
  with \<open>cb_Name cmd = n \<or> n \<in> set (cb_Aliases cmd)\<close> show "n \<in> own_names"
    by (auto simp: own_names_def helpCommand_def completeCmd_def completionCmd_def own_command_def cb_Name_def)
qed

lemma ExecuteC_unknown:
  assumes "word sub" "findNext c sub = None" "sub \<notin> own_names" "cb_Args c = None" "cb_commands c \<noteq> []"
  shows "ExecuteC c (map long xs @ sub # rest) vars = Fails (UnknownCommand sub)"
proof -
  let ?args = "map long xs @ sub # rest"
  let ?c = "with_own ?args c"
  have e: "extends c ?c" by (rule extends_own)
  then have c: "cb_Args ?c = None" "cb_commands ?c \<noteq> []" using assms(4,5) by (auto simp: extends_def)
  have "findNext ?c sub = None" using own_found(2) [OF e assms(2)] assms(3) by (cases "findNext ?c sub") auto
  moreover obtain ws where ws: "stripFlags (merged_flags [] ?c) ?args [] = sub # ws"
    using stripFlags_first [OF assms(1)] by blast
  ultimately have "innerfind [] True ?c ?args = \<lparr>fd_cmd = ?c, fd_parents = [], fd_root = True, fd_args = ?args\<rparr>"
    by (subst innerfind.simps) (simp add: Let_def)
  then show ?thesis using c ws by (simp add: ExecuteC_own Find_def legacyArgs_def Let_def)
qed

lemma execute_wrong_args:
  assumes "InitDefaultHelpFlag (merged_flags parents c) = fs" "\<forall>s \<in> set xs. accepts fs s" "ends rest pos"
    and "snd (fold (assign fs) xs (vars, False)) = False" "ValidateArgs (cb_Args c) pos = Some err"
  shows "execute \<lparr>fd_cmd = c, fd_parents = parents, fd_root = r, fd_args = map long xs @ rest\<rparr> vars = Fails err"
proof -
  from parseArgs_settings [OF assms(2), of rest "\<lparr>ps_vars = (vars, False), ps_changed = [], ps_args = []\<rparr>"]
  obtain ch where "parseArgs fs (map long xs @ rest) \<lparr>ps_vars = (vars, False), ps_changed = [], ps_args = []\<rparr> =
      Inr \<lparr>ps_vars = fold (assign fs) xs (vars, False), ps_changed = ch, ps_args = pos\<rparr>"
    using assms(3) by (auto simp: parseArgs_ends)
  then show ?thesis using assms(4,5) by (simp add: execute_def assms(1))
qed

text \<open>A program without subcommands runs its function itself, or one of cobra's own commands runs.\<close>

lemma innerfind_own:
  "cmd \<in> {helpCommand, completeCmd, completionCmd} \<Longrightarrow> fd_cmd (innerfind parents isroot cmd args) = cmd"
  by (subst innerfind.simps)
    (auto simp: findNext_def helpCommand_def completeCmd_def completionCmd_def own_command_def Let_def split: list.splits)

lemma own_Run: "cmd \<in> {helpCommand, completeCmd, completionCmd} \<Longrightarrow> cb_Run cmd = None"
  by (auto simp: helpCommand_def completeCmd_def completionCmd_def own_command_def)

lemma ExecuteC_leaf:
  assumes "cb_commands c = []" "ExecuteC c args vars = Runs run v pos"
  shows "execute \<lparr>fd_cmd = c, fd_parents = [], fd_root = True, fd_args = args\<rparr> vars = Runs run v pos"
proof -
  let ?c = "with_own args c"
  have e: "extends c ?c" by (rule extends_own)
  from assms(2) obtain fd where fd: "Find ?c args = (fd, None)" "cb_Run (fd_cmd fd) \<noteq> None" "execute fd vars = Runs run v pos"
    by (auto simp: ExecuteC_own split: prod.splits option.splits if_splits)
  from fd(1) have inner: "fd = innerfind [] True ?c args" by (auto simp: Find_def Let_def split: if_splits)
  have none: "findNext c n = None" for n using assms(1) by (simp add: findNext_def)
  have "fd = \<lparr>fd_cmd = ?c, fd_parents = [], fd_root = True, fd_args = args\<rparr>"
  proof (cases "stripFlags (merged_flags [] ?c) args []")
    case Nil
    then show ?thesis unfolding inner by (subst innerfind.simps) (simp add: Let_def)
  next
    case (Cons n ns)
    show ?thesis
    proof (cases "findNext ?c n")
      case None
      with Cons show ?thesis unfolding inner by (subst innerfind.simps) (simp add: Let_def)
    next
      case (Some cmd)
      from own_found(1) [OF e none Some] have own: "cmd \<in> {helpCommand, completeCmd, completionCmd}" .
      have "fd_cmd fd = cmd"
        unfolding inner using Cons Some innerfind_own [OF own] by (subst innerfind.simps) (simp add: Let_def)
      with own_Run [OF own] fd(2) show ?thesis by simp
    qed
  qed
  moreover from this fd(2) e have "cb_Run c \<noteq> None" by (auto simp: extends_def)
  ultimately show ?thesis using execute_extends [OF e, of "[]" True args vars True] fd(3) by simp
qed

lemma Runs_required:
  assumes "execute \<lparr>fd_cmd = c, fd_parents = parents, fd_root = r, fd_args = args\<rparr> vars = Runs run v pos"
    and "fs = InitDefaultHelpFlag (merged_flags parents c)"
    and "fl \<in> set fs" "pf_Required fl" "\<not> has_shorthand fs (pf_Name fl)"
  shows "mentions args (pf_Name fl)"
proof -
  from assms(1,2) obtain st where st: "parseArgs fs args \<lparr>ps_vars = (vars, False), ps_changed = [], ps_args = []\<rparr> = Inr st"
      "ValidateRequiredFlags fs (ps_changed st) = None"
    by (auto simp: execute_def Let_def split: sum.splits if_splits option.splits)
  from st(2) assms(3,4) have "pf_Name fl \<in> set (ps_changed st)"
    by (auto simp: ValidateRequiredFlags_def Let_def sort_strings_def filter_empty_conv split: if_splits)
  with parseArgs_changed [OF st(1)] assms(5) show ?thesis by auto
qed

end
