(* ===== verification/Plugin_Model.thy ===== *)
theory Plugin_Model
  imports Operations "HOL-Library.Product_Lexorder"
begin

text \<open>
  The forest of operations that the kubectl plugin shows (\<open>pkg/plugin/model\<close>). Nodes are mutated
  through pointers, so they live in a heap, a list indexed by address, which a forest carries with
  it; addresses are compared as the code compares pointers. The recursions over children take
  fuel, \<open>None\<close> being a recursion that has not ended; for the forests the code builds the number
  of nodes is enough, which is proved. The range over the map of groups visits them in the order
  of an argument.
\<close>

section \<open>Nodes and forests\<close>

record node =
  n_IFO :: ifo
  n_Siblings :: "ifo list"
  n_Children :: "nat list"
  n_Parent :: "nat option"

record forest =
  f_nodes :: "node list"
  f_Roots :: "nat list"
  f_Orphans :: "nat list"

fun collectNodes :: "nat \<Rightarrow> node list \<Rightarrow> nat \<Rightarrow> nat list option" where
  "collectNodes 0 h n = None"
| "collectNodes (Suc fuel) h n =
     (case those (map (collectNodes fuel h) (n_Children (h ! n))) of
        None \<Rightarrow> None
      | Some rest \<Rightarrow> Some (n # concat rest))"

definition AllNodes :: "nat \<Rightarrow> forest \<Rightarrow> nat list option" where
  "AllNodes fuel f =
     (case those (map (collectNodes fuel (f_nodes f)) (f_Roots f)) of
        None \<Rightarrow> None
      | Some rest \<Rightarrow> Some (concat rest @ f_Orphans f))"

section \<open>Trees by owner reference\<close>

definition new_node :: "ifo \<Rightarrow> node" where
  "new_node x = \<lparr>n_IFO = x, n_Siblings = [], n_Children = [], n_Parent = None\<rparr>"

definition subject_uid :: "ifo \<Rightarrow> string" where
  "subject_uid x = sr_UID (is_Subject (ifo_Spec x))"

fun index_loop :: "ifo list \<Rightarrow> node list \<Rightarrow> (string \<rightharpoonup> nat) \<Rightarrow> node list \<times> (string \<rightharpoonup> nat)" where
  "index_loop [] nodes bySubjectUID = (nodes, bySubjectUID)"
| "index_loop (x # xs) nodes bySubjectUID =
     (let uid = subject_uid x in
      case (if uid \<noteq> [] then bySubjectUID uid else None) of
        Some existing \<Rightarrow>
          index_loop xs
            (nodes[existing := (nodes ! existing)\<lparr>n_Siblings := n_Siblings (nodes ! existing) @ [x]\<rparr>]) bySubjectUID
      | None \<Rightarrow>
          index_loop xs (nodes @ [new_node x])
            (if uid \<noteq> [] then bySubjectUID(uid \<mapsto> length nodes) else bySubjectUID))"

text \<open>The first owner reference whose UID is the subject of a node.\<close>

fun first_parent :: "(string \<rightharpoonup> nat) \<Rightarrow> owner_ref list \<Rightarrow> nat option" where
  "first_parent bySubjectUID [] = None"
| "first_parent bySubjectUID (own # owns) =
     (case bySubjectUID (or_UID own) of Some p \<Rightarrow> Some p | None \<Rightarrow> first_parent bySubjectUID owns)"

definition link :: "nat \<Rightarrow> nat \<Rightarrow> node list \<Rightarrow> node list" where
  "link n p h =
     (let h = h[n := (h ! n)\<lparr>n_Parent := Some p\<rparr>] in
      h[p := (h ! p)\<lparr>n_Children := n_Children (h ! p) @ [n]\<rparr>])"

fun link_loop :: "(string \<rightharpoonup> nat) \<Rightarrow> nat list \<Rightarrow> node list \<Rightarrow> node list" where
  "link_loop bySubjectUID [] h = h"
| "link_loop bySubjectUID (n # ns) h =
     (case first_parent bySubjectUID (sr_OwnerReferences (is_Subject (ifo_Spec (n_IFO (h ! n))))) of
        Some p \<Rightarrow> link_loop bySubjectUID ns (link n p h)
      | None \<Rightarrow> link_loop bySubjectUID ns h)"

definition buildOwnerRefTrees :: "ifo list \<Rightarrow> forest" where
  "buildOwnerRefTrees ifos =
     (let (nodes, bySubjectUID) = index_loop ifos [] Map.empty;
          nodes = link_loop bySubjectUID [0..<length nodes] nodes in
      \<lparr>f_nodes = nodes,
       f_Roots = filter (\<lambda>n. n_Parent (nodes ! n) = None) [0..<length nodes],
       f_Orphans = []\<rparr>)"

section \<open>Correlation by label\<close>

type_synonym group_key = "string \<times> string"

definition groupKey :: "ifo \<Rightarrow> group_key" where
  "groupKey x = (get_str (ifo_Labels x) LabelCorrelationGroup, sr_Namespace (is_Subject (ifo_Spec x)))"

fun group_loop ::
  "node list \<Rightarrow> nat list \<Rightarrow> (group_key \<rightharpoonup> nat list) \<Rightarrow> nat list \<Rightarrow> (group_key \<rightharpoonup> nat list) \<times> nat list"
where
  "group_loop h [] groups remaining = (groups, remaining)"
| "group_loop h (root # roots) groups remaining =
     (let group = get_str (ifo_Labels (n_IFO (h ! root))) LabelCorrelationGroup in
      if group = [] then group_loop h roots groups (remaining @ [root])
      else
        (let key = groupKey (n_IFO (h ! root)) in
         group_loop h roots
           (groups(key \<mapsto> (case groups key of None \<Rightarrow> [] | Some ns \<Rightarrow> ns) @ [root])) remaining))"

definition by_creation :: "node list \<Rightarrow> nat \<Rightarrow> nat \<Rightarrow> int" where
  "by_creation h a b = time_Compare (ifo_CreationTimestamp (n_IFO (h ! a))) (ifo_CreationTimestamp (n_IFO (h ! b)))"

definition findGroupRoot :: "node list \<Rightarrow> nat list \<Rightarrow> nat option" where
  "findGroupRoot h nodes =
     (let candidates = filter (\<lambda>n. get_str (ifo_Labels (n_IFO (h ! n))) LabelCorrelationRole = CorrelationRoleRoot) nodes in
      if length candidates = 0 then None
      else if length candidates = 1 then Some (candidates ! 0)
      else Some (SortFunc (by_creation h) candidates ! 0))"

fun adopt_loop :: "nat \<Rightarrow> nat list \<Rightarrow> node list \<Rightarrow> node list" where
  "adopt_loop rootNode [] h = h"
| "adopt_loop rootNode (n # ns) h = adopt_loop rootNode ns (if n = rootNode then h else link n rootNode h)"

fun correlate_loop ::
  "(group_key \<rightharpoonup> nat list) \<Rightarrow> group_key list \<Rightarrow> node list \<Rightarrow> nat list \<Rightarrow> node list \<times> nat list"
where
  "correlate_loop groups [] h remaining = (h, remaining)"
| "correlate_loop groups (key # keys) h remaining =
     (let nodes = (case groups key of None \<Rightarrow> [] | Some ns \<Rightarrow> ns) in
      case findGroupRoot h nodes of
        None \<Rightarrow> correlate_loop groups keys h (remaining @ nodes)
      | Some rootNode \<Rightarrow>
          correlate_loop groups keys (adopt_loop rootNode nodes h) (remaining @ [rootNode]))"

text \<open>\<open>order\<close> gives the order in which the map of groups is visited.\<close>

definition Correlate :: "((group_key \<rightharpoonup> nat list) \<Rightarrow> group_key list) \<Rightarrow> forest \<Rightarrow> forest" where
  "Correlate order f =
     (let (groups, remaining) = group_loop (f_nodes f) (f_Roots f) Map.empty [];
          (h, remaining) = correlate_loop groups (order groups) (f_nodes f) remaining in
      f\<lparr>f_nodes := h, f_Roots := remaining\<rparr>)"

section \<open>Sorting\<close>

definition compareNodes :: "node list \<Rightarrow> nat \<Rightarrow> nat \<Rightarrow> int" where
  "compareNodes h a b =
     (let x = ifo_Spec (n_IFO (h ! a)); y = ifo_Spec (n_IFO (h ! b));
          c = strings_Compare (is_Component x) (is_Component y) in
      if c \<noteq> 0 then c
      else
        (let c = strings_Compare (sr_Kind (is_Subject x)) (sr_Kind (is_Subject y)) in
         if c \<noteq> 0 then c
         else strings_Compare (sr_Name (is_Subject x)) (sr_Name (is_Subject y))))"

fun sortChildren :: "nat \<Rightarrow> node list \<Rightarrow> nat \<Rightarrow> node list option" where
  "sortChildren 0 h n = None"
| "sortChildren (Suc fuel) h n =
     (let children = SortFunc (compareNodes h) (n_Children (h ! n)) in
      foldl (\<lambda>h c. case h of None \<Rightarrow> None | Some h \<Rightarrow> sortChildren fuel h c)
        (Some (h[n := (h ! n)\<lparr>n_Children := children\<rparr>])) children)"

definition sortForest :: "nat \<Rightarrow> forest \<Rightarrow> forest option" where
  "sortForest fuel f =
     (let roots = SortFunc (compareNodes (f_nodes f)) (f_Roots f) in
      case foldl (\<lambda>h r. case h of None \<Rightarrow> None | Some h \<Rightarrow> sortChildren fuel h r) (Some (f_nodes f)) roots of
        None \<Rightarrow> None
      | Some h \<Rightarrow> Some (f\<lparr>f_nodes := h, f_Roots := roots,
          f_Orphans := SortFunc (compareNodes h) (f_Orphans f)\<rparr>))"

text \<open>\<open>BuildForest\<close> with any correlators; the standard set is the one by label.\<close>

definition BuildForest :: "nat \<Rightarrow> ifo list \<Rightarrow> (forest \<Rightarrow> forest) list \<Rightarrow> forest option" where
  "BuildForest fuel ifos correlators =
     sortForest fuel (foldl (\<lambda>f c. c f) (buildOwnerRefTrees ifos) correlators)"

definition DefaultCorrelators :: "((group_key \<rightharpoonup> nat list) \<Rightarrow> group_key list) \<Rightarrow> (forest \<Rightarrow> forest) list" where
  "DefaultCorrelators order = [Correlate order]"

section \<open>Consistent heaps\<close>

definition consistent :: "node list \<Rightarrow> bool" where
  "consistent h \<longleftrightarrow>
     (\<forall>n < length h. \<forall>c \<in> set (n_Children (h ! n)). c < length h \<and> n_Parent (h ! c) = Some n) \<and>
     (\<forall>c < length h. \<forall>p. n_Parent (h ! c) = Some p \<longrightarrow> p < length h \<and> c \<in> set (n_Children (h ! p))) \<and>
     (\<forall>n < length h. distinct (n_Children (h ! n)))"

lemma consistentD:
  assumes "consistent h"
  shows "n < length h \<Longrightarrow> c \<in> set (n_Children (h ! n)) \<Longrightarrow> c < length h \<and> n_Parent (h ! c) = Some n"
    and "c < length h \<Longrightarrow> n_Parent (h ! c) = Some p \<Longrightarrow> p < length h \<and> c \<in> set (n_Children (h ! p))"
    and "n < length h \<Longrightarrow> distinct (n_Children (h ! n))"
  using assms unfolding consistent_def by blast+

text \<open>The distance of a node from the root above it; a node on a cycle has none.\<close>

inductive at_depth :: "node list \<Rightarrow> nat \<Rightarrow> nat \<Rightarrow> bool" for h where
  top: "n_Parent (h ! n) = None \<Longrightarrow> at_depth h n 0"
| under: "n_Parent (h ! n) = Some p \<Longrightarrow> at_depth h p d \<Longrightarrow> at_depth h n (Suc d)"

inductive_cases at_depth_0E: "at_depth h n 0"
inductive_cases at_depth_SucE: "at_depth h n (Suc d)"

definition rooted :: "node list \<Rightarrow> nat \<Rightarrow> bool" where
  "rooted h n \<longleftrightarrow> n < length h \<and> (\<exists>d. at_depth h n d)"

definition up :: "node list \<Rightarrow> nat \<Rightarrow> nat \<Rightarrow> bool" where
  "up h m p \<longleftrightarrow> n_Parent (h ! m) = Some p"

lemma at_depth_unique: "at_depth h n d \<Longrightarrow> at_depth h n d' \<Longrightarrow> d = d'"
proof (induction arbitrary: d' rule: at_depth.induct)
  case (top n)
  then show ?case by (auto elim: at_depth.cases)
next
  case (under n p d)
  from under.prems under.hyps(1) obtain e where "d' = Suc e" "at_depth h p e" by (auto elim: at_depth.cases)
  with under.IH show ?case by simp
qed

lemma depths_below: "at_depth h n d \<Longrightarrow> consistent h \<Longrightarrow> n < length h \<Longrightarrow> i \<le> d \<Longrightarrow> \<exists>m < length h. at_depth h m i"
proof (induction arbitrary: i rule: at_depth.induct)
  case (top n)
  then show ?case by (auto intro: at_depth.top)
next
  case (under n p d)
  show ?case
  proof (cases "i = Suc d")
    case True
    with under show ?thesis by (auto intro: at_depth.under)
  next
    case False
    with under consistentD(2) show ?thesis by (metis le_Suc_eq)
  qed
qed

lemma depth_bound:
  assumes "at_depth h n d" "consistent h" "n < length h"
  shows "d < length h"
proof -
  from depths_below [OF assms] have "\<forall>i \<in> {..d}. \<exists>m. m < length h \<and> at_depth h m i" by auto
  then obtain f where f: "\<forall>i \<in> {..d}. f i < length h \<and> at_depth h (f i) i" by metis
  then have "inj_on f {..d}" by (metis at_depth_unique inj_onI)
  moreover have "f ` {..d} \<subseteq> {..<length h}" using f by auto
  ultimately have "card {..d} \<le> card {..<length h}" by (metis card_inj_on_le finite_lessThan)
  then show ?thesis by simp
qed

lemma those_Some: "those xs = Some ys \<longleftrightarrow> xs = map Some ys"
  by (induction xs arbitrary: ys) (auto split: option.splits)

lemma those_total: "(\<forall>x \<in> set xs. \<exists>y. f x = Some y) \<Longrightarrow> \<exists>ys. those (map f xs) = Some ys"
  by (induction xs) (auto split: option.split)

lemma collectNodes_total:
  "consistent h \<Longrightarrow> n < length h \<Longrightarrow> at_depth h n d \<Longrightarrow> length h \<le> d + fuel \<Longrightarrow> \<exists>xs. collectNodes fuel h n = Some xs"
proof (induction fuel arbitrary: n d)
  case 0
  with depth_bound show ?case by fastforce
next
  case (Suc fuel)
  have "\<exists>xs. collectNodes fuel h c = Some xs" if "c \<in> set (n_Children (h ! n))" for c
  proof -
    have c: "c < length h" "n_Parent (h ! c) = Some n" using consistentD(1) [OF Suc.prems(1,2) that] by blast+
    then have "at_depth h c (Suc d)" using Suc.prems(3) by (blast intro: at_depth.under)
    moreover have "length h \<le> Suc d + fuel" using Suc.prems(4) by simp
    ultimately show ?thesis using Suc.IH [OF Suc.prems(1) c(1)] by blast
  qed
  then obtain ys where "those (map (collectNodes fuel h) (n_Children (h ! n))) = Some ys"
    using those_total [of "n_Children (h ! n)" "collectNodes fuel h"] by blast
  then show ?case by simp
qed

lemma up_length: "(up h)\<^sup>*\<^sup>* m n \<Longrightarrow> consistent h \<Longrightarrow> m < length h \<Longrightarrow> n < length h"
proof (induction rule: rtranclp_induct)
  case base
  then show ?case by simp
next
  case (step y z)
  then show ?case using consistentD(2) [of h y z] by (simp add: up_def)
qed

lemma collectNodes_set:
  "consistent h \<Longrightarrow> n < length h \<Longrightarrow> collectNodes fuel h n = Some xs \<Longrightarrow>
   set xs = {m. m < length h \<and> (up h)\<^sup>*\<^sup>* m n}"
proof (induction fuel arbitrary: n xs)
  case 0
  then show ?case by simp
next
  case (Suc fuel)
  from Suc.prems(3) obtain yss where ys: "map (collectNodes fuel h) (n_Children (h ! n)) = map Some yss" "xs = n # concat yss"
    by (auto simp: those_Some split: option.splits)
  have sub: "set ys = {m. m < length h \<and> (up h)\<^sup>*\<^sup>* m c}" if "(c, ys) \<in> set (zip (n_Children (h ! n)) yss)" for c ys
  proof -
    from that obtain i where i: "i < length (n_Children (h ! n))" "i < length yss" "c = n_Children (h ! n) ! i" "ys = yss ! i"
      by (auto simp: in_set_zip)
    then have "collectNodes fuel h c = Some ys" using arg_cong [OF ys(1), of "\<lambda>l. l ! i"] by simp
    moreover have "c < length h" using i consistentD(1) [OF Suc.prems(1,2)] by simp
    ultimately show ?thesis using Suc.IH Suc.prems(1) by blast
  qed
  have len: "length yss = length (n_Children (h ! n))" using ys(1) by (metis length_map)
  show ?case
  proof (intro set_eqI iffI)
    fix m assume "m \<in> set xs"
    then consider "m = n" | ys where "ys \<in> set yss" "m \<in> set ys" using ys(2) by auto
    then show "m \<in> {m. m < length h \<and> (up h)\<^sup>*\<^sup>* m n}"
    proof cases
      case 1
      with Suc.prems(2) show ?thesis by simp
    next
      case (2 ys)
      then obtain i where "i < length yss" "ys = yss ! i" by (auto simp: in_set_conv_nth)
      then have z: "(n_Children (h ! n) ! i, ys) \<in> set (zip (n_Children (h ! n)) yss)" "n_Children (h ! n) ! i \<in> set (n_Children (h ! n))"
        using len by (auto simp: in_set_zip)
      have "m < length h \<and> (up h)\<^sup>*\<^sup>* m (n_Children (h ! n) ! i)"
        using sub [OF z(1)] 2(2) \<open>ys = yss ! i\<close> by blast
      moreover have "up h (n_Children (h ! n) ! i) n" using consistentD(1) [OF Suc.prems(1,2) z(2)] by (simp add: up_def)
      ultimately show ?thesis by (blast intro: rtranclp.rtrancl_into_rtrancl)
    qed
  next
    fix m assume m: "m \<in> {m. m < length h \<and> (up h)\<^sup>*\<^sup>* m n}"
    then have "(up h)\<^sup>*\<^sup>* m n" by simp
    then show "m \<in> set xs"
    proof (cases rule: rtranclp.cases)
      case rtrancl_refl
      with ys(2) show ?thesis by simp
    next
      case (rtrancl_into_rtrancl c)
      have "c < length h" using up_length rtrancl_into_rtrancl(1) Suc.prems(1) m by blast
      with rtrancl_into_rtrancl(2) have "c \<in> set (n_Children (h ! n))" using consistentD(2) [OF Suc.prems(1)] by (simp add: up_def)
      then obtain i where i: "i < length (n_Children (h ! n))" "c = n_Children (h ! n) ! i" by (auto simp: in_set_conv_nth)
      then have "(c, yss ! i) \<in> set (zip (n_Children (h ! n)) yss)" using len by (auto simp: in_set_zip)
      from sub [OF this] m rtrancl_into_rtrancl(1) have "m \<in> set (yss ! i)" by simp
      moreover have "yss ! i \<in> set yss" using i len by simp
      ultimately show ?thesis using ys(2) by auto
    qed
  qed
qed

lemma up_linear: "(up h)\<^sup>*\<^sup>* m a \<Longrightarrow> (up h)\<^sup>*\<^sup>* m b \<Longrightarrow> (up h)\<^sup>*\<^sup>* a b \<or> (up h)\<^sup>*\<^sup>* b a"
proof (induction rule: converse_rtranclp_induct)
  case base
  then show ?case by simp
next
  case (step y z)
  from step.prems show ?case
  proof (cases rule: converse_rtranclpE)
    case base
    with step show ?thesis by (meson converse_rtranclp_into_rtranclp)
  next
    case (step y')
    with step.hyps(1) step.IH show ?thesis by (simp add: up_def)
  qed
qed

lemma up_depth: "(up h)\<^sup>*\<^sup>* a b \<Longrightarrow> at_depth h a k \<Longrightarrow> at_depth h b j \<Longrightarrow> j \<le> k \<and> (j = k \<longrightarrow> a = b)"
proof (induction arbitrary: k rule: converse_rtranclp_induct)
  case base
  then show ?case using at_depth_unique by blast
next
  case (step y z)
  from step.prems(1) step.hyps(1) obtain k' where "k = Suc k'" "at_depth h z k'" by (auto simp: up_def elim: at_depth.cases)
  with step.IH step.prems(2) show ?case by fastforce
qed

lemma disjoint_below:
  assumes "at_depth h a k" "at_depth h b k" "a \<noteq> b"
  shows "{m. m < length h \<and> (up h)\<^sup>*\<^sup>* m a} \<inter> {m. m < length h \<and> (up h)\<^sup>*\<^sup>* m b} = {}"
  using up_linear [of h _ a b] up_depth [of h a b] up_depth [of h b a] assms by blast

lemma distinct_concat_disjoint:
  assumes "distinct ns" and "length yss = length ns" and "\<And>i. i < length ns \<Longrightarrow> distinct (yss ! i) \<and> set (yss ! i) = S (ns ! i)"
    and "\<And>a b. a \<in> set ns \<Longrightarrow> b \<in> set ns \<Longrightarrow> a \<noteq> b \<Longrightarrow> S a \<inter> S b = {}"
  shows "distinct (concat yss)"
  using assms
proof (induction ns arbitrary: yss)
  case Nil
  then show ?case by simp
next
  case (Cons n ns)
  then obtain ys zss where yss: "yss = ys # zss" by (cases yss) auto
  have tail: "distinct (zss ! i) \<and> set (zss ! i) = S (ns ! i)" if "i < length ns" for i
    using Cons.prems(3) [of "Suc i"] that yss by simp
  have "distinct (concat zss)"
    using Cons.prems tail yss by (intro Cons.IH) auto
  moreover have "distinct ys" "set ys = S n" using Cons.prems(3) [of 0] yss by simp_all
  moreover have "set ys \<inter> set (concat zss) = {}"
  proof -
    have "set ys \<inter> set (zss ! i) = {}" if "i < length ns" for i
    proof -
      have "ns ! i \<in> set ns" "n \<noteq> ns ! i" using that Cons.prems(1) by auto
      then have "S n \<inter> S (ns ! i) = {}" using Cons.prems(4) by simp
      then show ?thesis using tail [OF that] \<open>set ys = S n\<close> by simp
    qed
    then have "set ys \<inter> set zs = {}" if "zs \<in> set zss" for zs
      using that Cons.prems(2) yss by (metis Suc_inject in_set_conv_nth length_Cons)
    then show ?thesis by auto
  qed
  ultimately show ?case using yss by simp
qed

lemma collectNodes_distinct:
  "consistent h \<Longrightarrow> n < length h \<Longrightarrow> at_depth h n d \<Longrightarrow> collectNodes fuel h n = Some xs \<Longrightarrow> distinct xs"
proof (induction fuel arbitrary: n d xs)
  case 0
  then show ?case by simp
next
  case (Suc fuel)
  let ?cs = "n_Children (h ! n)" and ?S = "\<lambda>c. {m. m < length h \<and> (up h)\<^sup>*\<^sup>* m c}"
  from Suc.prems(4) obtain yss where ys: "map (collectNodes fuel h) ?cs = map Some yss" "xs = n # concat yss"
    by (auto simp: those_Some split: option.splits)
  have len: "length yss = length ?cs" using ys(1) by (metis length_map)
  have child: "c < length h \<and> at_depth h c (Suc d)" if "c \<in> set ?cs" for c
    using consistentD(1) [OF Suc.prems(1,2) that] Suc.prems(3) by (blast intro: at_depth.under)
  have each: "distinct (yss ! i) \<and> set (yss ! i) = ?S (?cs ! i)" if "i < length ?cs" for i
  proof -
    have "collectNodes fuel h (?cs ! i) = Some (yss ! i)" using that len arg_cong [OF ys(1), of "\<lambda>l. l ! i"] by simp
    then show ?thesis
      using Suc.IH child [of "?cs ! i"] that Suc.prems(1) collectNodes_set nth_mem by blast
  qed
  have "distinct (concat yss)"
    using consistentD(3) [OF Suc.prems(1,2)] len each child disjoint_below
    by (intro distinct_concat_disjoint [where ns = ?cs and S = ?S]) blast+
  moreover have "n \<notin> set (concat yss)"
  proof
    assume "n \<in> set (concat yss)"
    then obtain ys' where "ys' \<in> set yss" "n \<in> set ys'" by auto
    then obtain i where i: "i < length ?cs" "n \<in> set (yss ! i)" using len by (metis in_set_conv_nth)
    then have "(up h)\<^sup>*\<^sup>* n (?cs ! i)" using each by blast
    moreover have "at_depth h (?cs ! i) (Suc d)" using child [of "?cs ! i"] i(1) by simp
    ultimately show False using up_depth Suc.prems(3) by fastforce
  qed
  ultimately show ?case using ys(2) by simp
qed

section \<open>Good forests\<close>

definition forest_ok :: "forest \<Rightarrow> bool" where
  "forest_ok f \<longleftrightarrow> consistent (f_nodes f) \<and> distinct (f_Roots f) \<and>
     set (f_Roots f) = {n. n < length (f_nodes f) \<and> n_Parent (f_nodes f ! n) = None} \<and> f_Orphans f = []"

lemma root_above: "at_depth h m d \<Longrightarrow> consistent h \<Longrightarrow> m < length h \<Longrightarrow>
    \<exists>r < length h. n_Parent (h ! r) = None \<and> (up h)\<^sup>*\<^sup>* m r"
proof (induction rule: at_depth.induct)
  case (top n)
  then show ?case by blast
next
  case (under n p d)
  from under.hyps(1) under.prems have "p < length h" using consistentD(2) by blast
  with under obtain r where "r < length h" "n_Parent (h ! r) = None" "(up h)\<^sup>*\<^sup>* p r" by blast
  moreover have "up h n p" using under.hyps(1) by (simp add: up_def)
  ultimately show ?case by (meson converse_rtranclp_into_rtranclp)
qed

lemma below_root_depth: "(up h)\<^sup>*\<^sup>* m r \<Longrightarrow> n_Parent (h ! r) = None \<Longrightarrow> \<exists>d. at_depth h m d"
proof (induction rule: converse_rtranclp_induct)
  case base
  then show ?case by (blast intro: at_depth.top)
next
  case (step y z)
  then show ?case unfolding up_def by (blast intro: at_depth.under)
qed

lemma AllNodes_rooted:
  assumes "forest_ok f" and "length (f_nodes f) \<le> fuel"
  shows "\<exists>xs. AllNodes fuel f = Some xs \<and> distinct xs \<and> set xs = {n. rooted (f_nodes f) n}"
proof -
  let ?h = "f_nodes f" and ?S = "\<lambda>c. {m. m < length (f_nodes f) \<and> (up (f_nodes f))\<^sup>*\<^sup>* m c}"
  have con: "consistent ?h" and roots: "set (f_Roots f) = {n. n < length ?h \<and> n_Parent (?h ! n) = None}"
    and dr: "distinct (f_Roots f)" and orph: "f_Orphans f = []"
    using assms(1) by (simp_all add: forest_ok_def)
  have top: "r < length ?h \<and> at_depth ?h r 0" if "r \<in> set (f_Roots f)" for r
    using that roots by (auto intro: at_depth.top)
  have "\<forall>r \<in> set (f_Roots f). \<exists>xs. collectNodes fuel ?h r = Some xs"
    using collectNodes_total [OF con] top assms(2) by (metis add_0)
  then obtain yss where ys: "those (map (collectNodes fuel ?h) (f_Roots f)) = Some yss"
    using those_total [of "f_Roots f" "collectNodes fuel ?h"] by blast
  then have mp: "map (collectNodes fuel ?h) (f_Roots f) = map Some yss" by (simp add: those_Some)
  then have len: "length yss = length (f_Roots f)" by (metis length_map)
  have each: "distinct (yss ! i) \<and> set (yss ! i) = ?S (f_Roots f ! i)" if "i < length (f_Roots f)" for i
  proof -
    have "collectNodes fuel ?h (f_Roots f ! i) = Some (yss ! i)" using that len arg_cong [OF mp, of "\<lambda>l. l ! i"] by simp
    moreover have "f_Roots f ! i < length ?h" "at_depth ?h (f_Roots f ! i) 0" using top [of "f_Roots f ! i"] that by simp_all
    ultimately show ?thesis using collectNodes_set [OF con] collectNodes_distinct [OF con] by simp
  qed
  have "distinct (concat yss)"
    using dr len each top disjoint_below by (intro distinct_concat_disjoint [where ns = "f_Roots f" and S = ?S]) blast+
  moreover have "set (concat yss) = {n. rooted ?h n}"
  proof -
    have "set (concat yss) = (\<Union>i < length (f_Roots f). ?S (f_Roots f ! i))" 
    proof -
      have "set yss = (\<lambda>i. yss ! i) ` {..<length yss}" by (auto simp: set_conv_nth)
      then have "set (concat yss) = (\<Union>i < length yss. set (yss ! i))" by simp
      then show ?thesis using each len by simp
    qed
    also have "\<dots> = (\<Union>r \<in> set (f_Roots f). ?S r)"
    proof -
      have "set (f_Roots f) = (\<lambda>i. f_Roots f ! i) ` {..<length (f_Roots f)}" by (auto simp: set_conv_nth)
      then show ?thesis by simp
    qed
    also have "\<dots> = {n. rooted ?h n}"
    proof (intro set_eqI iffI)
      fix m assume "m \<in> (\<Union>r \<in> set (f_Roots f). ?S r)"
      then obtain r where "m < length ?h" "(up ?h)\<^sup>*\<^sup>* m r" "n_Parent (?h ! r) = None" using roots by blast
      then show "m \<in> {n. rooted ?h n}" using below_root_depth unfolding rooted_def by blast
    next
      fix m assume "m \<in> {n. rooted ?h n}"
      then obtain d where m: "m < length ?h" "at_depth ?h m d" unfolding rooted_def by blast
      from root_above [OF m(2) con m(1)] m(1) roots show "m \<in> (\<Union>r \<in> set (f_Roots f). ?S r)" by blast
    qed
    finally show ?thesis .
  qed
  ultimately show ?thesis using ys orph by (simp add: AllNodes_def)
qed

section \<open>Linking\<close>

lemma link_simps:
  assumes "n < length h" "p < length h"
  shows "length (link n p h) = length h"
    and "n_Parent (link n p h ! m) = (if m = n then Some p else n_Parent (h ! m))"
    and "n_Children (link n p h ! m) = (if m = p then n_Children (h ! p) @ [n] else n_Children (h ! m))"
    and "n_IFO (link n p h ! m) = n_IFO (h ! m)" and "n_Siblings (link n p h ! m) = n_Siblings (h ! m)"
  using assms by (cases "m = n"; cases "m = p"; simp add: link_def Let_def)+

lemma consistent_link:
  assumes con: "consistent h" and n: "n < length h" "n_Parent (h ! n) = None" and p: "p < length h"
  shows "consistent (link n p h)"
proof -
  note ls = link_simps [OF n(1) p]
  have fresh: "n \<notin> set (n_Children (h ! m))" if "m < length h" for m
    using consistentD(1) [OF con that] n(2) by fastforce
  show ?thesis
    unfolding consistent_def ls(1)
  proof (intro conjI allI impI ballI)
    fix m c assume m: "m < length h" "c \<in> set (n_Children (link n p h ! m))"
    then consider "m = p" "c = n" | "c \<in> set (n_Children (h ! m))" by (auto simp: ls(3) split: if_splits)
    then show "c < length h" and "n_Parent (link n p h ! c) = Some m"
      using consistentD(1) [OF con m(1)] fresh [OF m(1)] n(1) by (cases; auto simp: ls(2))+
  next
    fix c q assume c: "c < length h" "n_Parent (link n p h ! c) = Some q"
    then show "q < length h" and "c \<in> set (n_Children (link n p h ! q))"
      using consistentD(2) [OF con c(1)] p by (auto simp: ls(2,3) split: if_splits)
  next
    fix m assume m: "m < length h"
    then show "distinct (n_Children (link n p h ! m))"
      using consistentD(3) [OF con] fresh p by (auto simp: ls(3))
  qed
qed

text \<open>Hanging one root below another keeps every rooted node rooted, and roots no other.\<close>

lemma rooted_link:
  assumes "consistent h" and n: "n < length h" "n_Parent (h ! n) = None"
    and p: "p < length h" "n_Parent (h ! p) = None" and "n \<noteq> p"
  shows "rooted (link n p h) m \<longleftrightarrow> rooted h m"
proof -
  note ls = link_simps [OF n(1) p(1)]
  have pd: "at_depth (link n p h) p 0" using assms(6) p(2) by (intro at_depth.top) (simp add: ls(2))
  have nd: "at_depth (link n p h) n (Suc 0)" using pd by (intro at_depth.under [of _ _ p]) (simp_all add: ls(2))
  have "\<exists>d'. at_depth (link n p h) m d'" if "at_depth h m d" for m d
    using that
  proof (induction rule: at_depth.induct)
    case (top m)
    show ?case
    proof (cases "m = n")
      case False
      with top have "n_Parent (link n p h ! m) = None" by (simp add: ls(2))
      then show ?thesis by (blast intro: at_depth.top)
    qed (use nd in blast)
  next
    case (under m q d)
    then obtain d' where "at_depth (link n p h) q d'" by blast
    moreover have "m \<noteq> n" using under.hyps(1) n(2) by auto
    moreover from this have "n_Parent (link n p h ! m) = Some q" using under.hyps(1) by (simp add: ls(2))
    ultimately show ?case by (blast intro: at_depth.under)
  qed
  moreover have "\<exists>d. at_depth h m d" if "at_depth (link n p h) m d'" for m d'
    using that
  proof (induction rule: at_depth.induct)
    case (top m)
    then have "n_Parent (h ! m) = None" by (auto simp: ls(2) split: if_splits)
    then show ?case by (blast intro: at_depth.top)
  next
    case (under m q d)
    show ?case
    proof (cases "m = n")
      case True
      then show ?thesis using n(2) by (blast intro: at_depth.top)
    next
      case False
      with under.hyps(1) have "n_Parent (h ! m) = Some q" by (simp add: ls(2))
      with under.IH show ?thesis by (blast intro: at_depth.under)
    qed
  qed
  ultimately show ?thesis by (auto simp: rooted_def ls(1))
qed

section \<open>The trees by owner reference are good\<close>

definition node_ifos :: "node list \<Rightarrow> ifo list" where
  "node_ifos h = concat (map (\<lambda>n. n_IFO n # n_Siblings n) h)"

definition index_ok :: "node list \<Rightarrow> (string \<rightharpoonup> nat) \<Rightarrow> bool" where
  "index_ok h m \<longleftrightarrow>
     (\<forall>uid i. m uid = Some i \<longrightarrow> i < length h \<and> uid \<noteq> [] \<and> subject_uid (n_IFO (h ! i)) = uid) \<and>
     (\<forall>n < length h. n_Children (h ! n) = [] \<and> n_Parent (h ! n) = None \<and>
        (subject_uid (n_IFO (h ! n)) \<noteq> [] \<longrightarrow> m (subject_uid (n_IFO (h ! n))) = Some n) \<and>
        (\<forall>x \<in> set (n_Siblings (h ! n)). subject_uid x = subject_uid (n_IFO (h ! n))))"

lemma node_ifos_append: "node_ifos (xs @ y # ys) = node_ifos xs @ (n_IFO y # n_Siblings y) @ node_ifos ys"
  by (simp add: node_ifos_def)

lemma mset_node_ifos_sibling:
  assumes "i < length h"
  shows "mset (node_ifos (h[i := (h ! i)\<lparr>n_Siblings := n_Siblings (h ! i) @ [x]\<rparr>])) = add_mset x (mset (node_ifos h))"
proof -
  have "node_ifos h = node_ifos (take i h @ h ! i # drop (Suc i) h)"
    using id_take_nth_drop [OF assms] by (rule arg_cong)
  moreover have "h[i := y] = take i h @ y # drop (Suc i) h" for y using assms by (rule upd_conv_take_nth_drop)
  ultimately show ?thesis by (simp only: node_ifos_append) simp
qed

lemma index_ok_new:
  assumes ix: "index_ok h m" and new: "subject_uid x = [] \<or> m (subject_uid x) = None"
  shows "index_ok (h @ [new_node x]) (if subject_uid x \<noteq> [] then m(subject_uid x \<mapsto> length h) else m)"
    (is "index_ok ?h ?m")
proof -
  have 1: "i < length ?h \<and> u \<noteq> [] \<and> subject_uid (n_IFO (?h ! i)) = u" if "?m u = Some i" for u i
  proof (cases "u = subject_uid x \<and> u \<noteq> []")
    case True
    with that have "i = length h" by (auto split: if_splits)
    with True show ?thesis by (auto simp: new_node_def)
  next
    case False
    with that have "m u = Some i" by (auto split: if_splits)
    with ix have "i < length h \<and> u \<noteq> [] \<and> subject_uid (n_IFO (h ! i)) = u" unfolding index_ok_def by blast
    then show ?thesis by (simp add: nth_append)
  qed
  have 2: "n_Children (?h ! n) = [] \<and> n_Parent (?h ! n) = None \<and>
      (subject_uid (n_IFO (?h ! n)) \<noteq> [] \<longrightarrow> ?m (subject_uid (n_IFO (?h ! n))) = Some n) \<and>
      (\<forall>y \<in> set (n_Siblings (?h ! n)). subject_uid y = subject_uid (n_IFO (?h ! n)))" if "n < length ?h" for n
  proof (cases "n = length h")
    case True
    then show ?thesis by (simp add: new_node_def)
  next
    case False
    with that have n: "n < length h" by simp
    with ix have "n_Children (h ! n) = [] \<and> n_Parent (h ! n) = None \<and>
        (subject_uid (n_IFO (h ! n)) \<noteq> [] \<longrightarrow> m (subject_uid (n_IFO (h ! n))) = Some n) \<and>
        (\<forall>y \<in> set (n_Siblings (h ! n)). subject_uid y = subject_uid (n_IFO (h ! n)))"
      unfolding index_ok_def by blast
    with new n show ?thesis by (auto simp: nth_append)
  qed
  show ?thesis unfolding index_ok_def using 1 2 by blast
qed

lemma index_ok_sibling:
  assumes "index_ok h m" and "i < length h" and "subject_uid x = subject_uid (n_IFO (h ! i))"
  shows "index_ok (h[i := (h ! i)\<lparr>n_Siblings := n_Siblings (h ! i) @ [x]\<rparr>]) m" (is "index_ok ?h m")
proof -
  have sel: "n_IFO (?h ! k) = n_IFO (h ! k)" "n_Children (?h ! k) = n_Children (h ! k)" "n_Parent (?h ! k) = n_Parent (h ! k)"
    "n_Siblings (?h ! k) = (if k = i then n_Siblings (h ! i) @ [x] else n_Siblings (h ! k))" for k
    using assms(2) by (cases "k = i"; simp)+
  show ?thesis using assms(1,3) unfolding index_ok_def sel length_list_update by auto
qed

lemma index_loop_spec:
  "index_ok h m \<Longrightarrow> index_loop xs h m = (h', m') \<Longrightarrow>
   index_ok h' m' \<and> mset (node_ifos h') = mset (node_ifos h) + mset xs \<and>
   (\<forall>x \<in> set xs. subject_uid x \<noteq> [] \<longrightarrow> m' (subject_uid x) \<noteq> None) \<and> (\<forall>u. m u \<noteq> None \<longrightarrow> m' u \<noteq> None)"
proof (induction xs arbitrary: h m)
  case Nil
  then show ?case by simp
next
  case (Cons x xs)
  let ?uid = "subject_uid x"
  show ?case
  proof (cases "if ?uid \<noteq> [] then m ?uid else None")
    case None
    let ?m = "if ?uid \<noteq> [] then m(?uid \<mapsto> length h) else m"
    have "index_ok (h @ [new_node x]) ?m"
      using Cons.prems(1) None by (intro index_ok_new) (auto split: if_splits)
    moreover have "index_loop xs (h @ [new_node x]) ?m = (h', m')" using Cons.prems(2) None by (simp add: Let_def)
    ultimately have "index_ok h' m' \<and> mset (node_ifos h') = mset (node_ifos (h @ [new_node x])) + mset xs \<and>
      (\<forall>x \<in> set xs. subject_uid x \<noteq> [] \<longrightarrow> m' (subject_uid x) \<noteq> None) \<and> (\<forall>u. ?m u \<noteq> None \<longrightarrow> m' u \<noteq> None)"
      by (rule Cons.IH)
    moreover have "\<forall>u. m u \<noteq> None \<longrightarrow> ?m u \<noteq> None" "?uid \<noteq> [] \<longrightarrow> ?m ?uid \<noteq> None" by simp_all
    ultimately show ?thesis by (auto simp: node_ifos_def new_node_def)
  next
    case (Some i)
    then have i: "?uid \<noteq> []" "m ?uid = Some i" by (auto split: if_splits)
    then have il: "i < length h" "subject_uid (n_IFO (h ! i)) = ?uid" using Cons.prems(1) by (auto simp: index_ok_def)
    let ?h = "h[i := (h ! i)\<lparr>n_Siblings := n_Siblings (h ! i) @ [x]\<rparr>]"
    have "index_ok ?h m"
      using Cons.prems(1) il by (intro index_ok_sibling) simp_all
    moreover have "index_loop xs ?h m = (h', m')" using Cons.prems(2) i by (simp add: Let_def)
    ultimately have "index_ok h' m' \<and> mset (node_ifos h') = mset (node_ifos ?h) + mset xs \<and>
      (\<forall>x \<in> set xs. subject_uid x \<noteq> [] \<longrightarrow> m' (subject_uid x) \<noteq> None) \<and> (\<forall>u. m u \<noteq> None \<longrightarrow> m' u \<noteq> None)"
      by (rule Cons.IH)
    then show ?thesis using mset_node_ifos_sibling [OF il(1), of x] i by auto
  qed
qed

lemma first_parent_mem: "first_parent m owns = Some p \<Longrightarrow> \<exists>own \<in> set owns. m (or_UID own) = Some p"
  by (induction owns) (auto split: option.splits)

lemma link_loop_spec:
  assumes m: "\<forall>uid i. m uid = Some i \<longrightarrow> i < len"
  shows "consistent h \<Longrightarrow> length h = len \<Longrightarrow> distinct ns \<Longrightarrow> \<forall>n \<in> set ns. n < len \<and> n_Parent (h ! n) = None \<Longrightarrow>
   consistent (link_loop m ns h) \<and> length (link_loop m ns h) = len \<and>
   (\<forall>k. n_IFO (link_loop m ns h ! k) = n_IFO (h ! k) \<and> n_Siblings (link_loop m ns h ! k) = n_Siblings (h ! k)) \<and>
   (\<forall>k. n_Parent (link_loop m ns h ! k) =
      (if k \<in> set ns then first_parent m (sr_OwnerReferences (is_Subject (ifo_Spec (n_IFO (h ! k))))) else n_Parent (h ! k)))"
proof (induction ns arbitrary: h)
  case Nil
  then show ?case by simp
next
  case (Cons n ns)
  let ?fp = "first_parent m (sr_OwnerReferences (is_Subject (ifo_Spec (n_IFO (h ! n)))))"
  have n: "n < length h" "n_Parent (h ! n) = None" "n \<notin> set ns" using Cons.prems by auto
  show ?case
  proof (cases ?fp)
    case None
    have eq: "link_loop m (n # ns) h = link_loop m ns h" using None by simp
    have ds: "distinct ns" "\<forall>k \<in> set ns. k < len \<and> n_Parent (h ! k) = None" using Cons.prems(3,4) by simp_all
    note ih = Cons.IH [OF Cons.prems(1,2) ds]
    have "n_Parent (link_loop m ns h ! k) =
      (if k \<in> set (n # ns) then first_parent m (sr_OwnerReferences (is_Subject (ifo_Spec (n_IFO (h ! k))))) else n_Parent (h ! k))" for k
      using ih n None by (cases "k = n") simp_all
    then show ?thesis unfolding eq using ih by blast
  next
    case (Some p)
    then have p: "p < length h" using first_parent_mem m Cons.prems(2) by blast
    note ls = link_simps [OF n(1) p]
    have eq: "link_loop m (n # ns) h = link_loop m ns (link n p h)" using Some by simp
    have "consistent (link n p h)" by (rule consistent_link [OF Cons.prems(1) n(1,2) p])
    moreover have "length (link n p h) = len" using ls(1) Cons.prems(2) by simp
    moreover have "distinct ns" using Cons.prems(3) by simp
    moreover have "\<forall>k \<in> set ns. k < len \<and> n_Parent (link n p h ! k) = None"
    proof
      fix k assume "k \<in> set ns"
      with Cons.prems(4) n(3) show "k < len \<and> n_Parent (link n p h ! k) = None" by (cases "k = n") (simp_all add: ls(2))
    qed
    ultimately have ih: "consistent (link_loop m ns (link n p h)) \<and> length (link_loop m ns (link n p h)) = len \<and>
     (\<forall>k. n_IFO (link_loop m ns (link n p h) ! k) = n_IFO (link n p h ! k) \<and>
        n_Siblings (link_loop m ns (link n p h) ! k) = n_Siblings (link n p h ! k)) \<and>
     (\<forall>k. n_Parent (link_loop m ns (link n p h) ! k) =
      (if k \<in> set ns then first_parent m (sr_OwnerReferences (is_Subject (ifo_Spec (n_IFO (link n p h ! k)))))
       else n_Parent (link n p h ! k)))" by (rule Cons.IH)
    have "n_Parent (link_loop m ns (link n p h) ! k) =
      (if k \<in> set (n # ns) then first_parent m (sr_OwnerReferences (is_Subject (ifo_Spec (n_IFO (h ! k))))) else n_Parent (h ! k))" for k
      using ih n(3) Some by (cases "k = n") (simp_all add: ls)
    moreover have "n_IFO (link_loop m ns (link n p h) ! k) = n_IFO (h ! k) \<and>
        n_Siblings (link_loop m ns (link n p h) ! k) = n_Siblings (h ! k)" for k
      using ih by (simp add: ls)
    ultimately show ?thesis unfolding eq using ih by blast
  qed
qed

lemma index_consistent: "index_ok h m \<Longrightarrow> consistent h"
  by (auto simp: index_ok_def consistent_def)

lemma buildOwnerRefTrees_spec:
  fixes ifos
  defines "f \<equiv> buildOwnerRefTrees ifos"
  shows "forest_ok f \<and> mset (node_ifos (f_nodes f)) = mset ifos \<and>
    (\<exists>m. (\<forall>uid i. m uid = Some i \<longrightarrow> i < length (f_nodes f) \<and> uid \<noteq> [] \<and> subject_uid (n_IFO (f_nodes f ! i)) = uid) \<and>
       (\<forall>x \<in> set ifos. subject_uid x \<noteq> [] \<longrightarrow> m (subject_uid x) \<noteq> None) \<and>
       (\<forall>n < length (f_nodes f). subject_uid (n_IFO (f_nodes f ! n)) \<noteq> [] \<longrightarrow>
          m (subject_uid (n_IFO (f_nodes f ! n))) = Some n) \<and>
       (\<forall>n < length (f_nodes f). n_Parent (f_nodes f ! n) =
          first_parent m (sr_OwnerReferences (is_Subject (ifo_Spec (n_IFO (f_nodes f ! n))))))) \<and>
    (\<forall>n < length (f_nodes f). \<forall>x \<in> set (n_Siblings (f_nodes f ! n)). subject_uid x = subject_uid (n_IFO (f_nodes f ! n)))"
proof -
  obtain h m where hm: "index_loop ifos [] Map.empty = (h, m)" by force
  have "index_ok [] Map.empty" by (simp add: index_ok_def)
  from index_loop_spec [OF this hm] have ix: "index_ok h m" "mset (node_ifos h) = mset ifos"
    "\<forall>x \<in> set ifos. subject_uid x \<noteq> [] \<longrightarrow> m (subject_uid x) \<noteq> None" by (simp_all add: node_ifos_def)
  have ml: "\<forall>uid i. m uid = Some i \<longrightarrow> i < length h" using ix(1) by (simp add: index_ok_def)
  have np: "\<forall>n \<in> set [0..<length h]. n < length h \<and> n_Parent (h ! n) = None" using ix(1) by (simp add: index_ok_def)
  let ?h = "link_loop m [0..<length h] h"
  from link_loop_spec [OF ml index_consistent [OF ix(1)] refl _ np] have ll: "consistent ?h" "length ?h = length h"
    "\<And>k. n_IFO (?h ! k) = n_IFO (h ! k) \<and> n_Siblings (?h ! k) = n_Siblings (h ! k)"
    "\<And>k. k < length h \<Longrightarrow> n_Parent (?h ! k) = first_parent m (sr_OwnerReferences (is_Subject (ifo_Spec (n_IFO (h ! k)))))"
    by simp_all
  have f: "f = \<lparr>f_nodes = ?h, f_Roots = filter (\<lambda>n. n_Parent (?h ! n) = None) [0..<length ?h], f_Orphans = []\<rparr>"
    by (simp add: f_def buildOwnerRefTrees_def hm Let_def)
  have "node_ifos ?h = node_ifos h"
    unfolding node_ifos_def using ll(2,3) by (intro arg_cong [of _ _ concat] nth_equalityI) simp_all
  then have "mset (node_ifos (f_nodes f)) = mset ifos" using ix(2) by (simp add: f)
  moreover have "forest_ok f" using ll(1,2) by (auto simp: f forest_ok_def)
  moreover have "\<forall>uid i. m uid = Some i \<longrightarrow> i < length (f_nodes f) \<and> uid \<noteq> [] \<and> subject_uid (n_IFO (f_nodes f ! i)) = uid"
    using ix(1) ll(2,3) by (simp add: f index_ok_def)
  moreover have "\<forall>n < length (f_nodes f). subject_uid (n_IFO (f_nodes f ! n)) \<noteq> [] \<longrightarrow>
          m (subject_uid (n_IFO (f_nodes f ! n))) = Some n"
    using ix(1) ll(2,3) by (simp add: f index_ok_def)
  moreover have "\<forall>n < length (f_nodes f). n_Parent (f_nodes f ! n) =
          first_parent m (sr_OwnerReferences (is_Subject (ifo_Spec (n_IFO (f_nodes f ! n)))))"
    using ll(2-4) by (simp add: f)
  moreover have "\<forall>n < length (f_nodes f). \<forall>x \<in> set (n_Siblings (f_nodes f ! n)). subject_uid x = subject_uid (n_IFO (f_nodes f ! n))"
    using ix(1) ll(2,3) by (simp add: f index_ok_def)
  ultimately show ?thesis using ix(3) by blast
qed

section \<open>The label correlator keeps the forest good\<close>

text \<open>Two heaps with the same operations in the same nodes.\<close>

definition same_payload :: "node list \<Rightarrow> node list \<Rightarrow> bool" where
  "same_payload h h' \<longleftrightarrow> length h' = length h \<and>
     (\<forall>k. n_IFO (h' ! k) = n_IFO (h ! k) \<and> n_Siblings (h' ! k) = n_Siblings (h ! k))"

lemma same_payload_trans: "same_payload a b \<Longrightarrow> same_payload b c \<Longrightarrow> same_payload a c"
  by (simp add: same_payload_def)

lemma same_payload_ifos: "same_payload h h' \<Longrightarrow> node_ifos h' = node_ifos h"
  unfolding node_ifos_def same_payload_def by (intro arg_cong [of _ _ concat] nth_equalityI) simp_all

lemma adopt_loop_spec:
  "consistent h \<Longrightarrow> r < length h \<Longrightarrow> n_Parent (h ! r) = None \<Longrightarrow> distinct ns \<Longrightarrow>
   \<forall>n \<in> set ns. n < length h \<and> n_Parent (h ! n) = None \<Longrightarrow>
   consistent (adopt_loop r ns h) \<and> same_payload h (adopt_loop r ns h) \<and>
   (\<forall>m. rooted (adopt_loop r ns h) m \<longleftrightarrow> rooted h m) \<and>
   (\<forall>k. n_Parent (adopt_loop r ns h ! k) = (if k \<in> set ns \<and> k \<noteq> r then Some r else n_Parent (h ! k)))"
proof (induction ns arbitrary: h)
  case Nil
  then show ?case by (simp add: same_payload_def)
next
  case (Cons n ns)
  have n: "n < length h" "n_Parent (h ! n) = None" "n \<notin> set ns" using Cons.prems(4,5) by simp_all
  have ds: "distinct ns" "\<forall>k \<in> set ns. k < length h \<and> n_Parent (h ! k) = None" using Cons.prems(4,5) by simp_all
  show ?case
  proof (cases "n = r")
    case True
    note ih = Cons.IH [OF Cons.prems(1-3) ds]
    have "n_Parent (adopt_loop r ns h ! k) = (if k \<in> set (n # ns) \<and> k \<noteq> r then Some r else n_Parent (h ! k))" for k
      using ih True by (cases "k = r") simp_all
    then show ?thesis using ih True by simp
  next
    case False
    let ?h = "link n r h"
    note ls = link_simps [OF n(1) Cons.prems(2)]
    have con: "consistent ?h" by (rule consistent_link [OF Cons.prems(1) n(1,2) Cons.prems(2)])
    have r: "r < length ?h" "n_Parent (?h ! r) = None" using Cons.prems(2,3) False by (simp_all add: ls)
    have "\<forall>k \<in> set ns. k < length ?h \<and> n_Parent (?h ! k) = None"
    proof
      fix k assume "k \<in> set ns"
      with ds(2) n(3) show "k < length ?h \<and> n_Parent (?h ! k) = None" by (cases "k = n") (simp_all add: ls)
    qed
    note ih = Cons.IH [OF con r ds(1) this]
    have "n_Parent (adopt_loop r ns ?h ! k) = (if k \<in> set (n # ns) \<and> k \<noteq> r then Some r else n_Parent (h ! k))" for k
      using ih False n(3) by (cases "k = n") (simp_all add: ls)
    moreover have "same_payload h ?h" by (simp add: same_payload_def ls)
    with ih have "same_payload h (adopt_loop r ns ?h)" using same_payload_trans by blast
    moreover have "rooted ?h m \<longleftrightarrow> rooted h m" for m
      by (rule rooted_link [OF Cons.prems(1) n(1,2) Cons.prems(2,3) False])
    ultimately show ?thesis using ih False by simp
  qed
qed

lemma findGroupRoot_Some:
  assumes "findGroupRoot h nodes = Some r"
  shows "r \<in> set nodes \<and> get_str (ifo_Labels (n_IFO (h ! r))) LabelCorrelationRole = CorrelationRoleRoot"
proof -
  let ?c = "filter (\<lambda>n. get_str (ifo_Labels (n_IFO (h ! n))) LabelCorrelationRole = CorrelationRoleRoot) nodes"
  have ne: "?c \<noteq> []" using assms by (auto simp: findGroupRoot_def Let_def)
  have "r \<in> set ?c"
  proof (cases "length ?c = 1")
    case True
    then have "r = ?c ! 0" using assms ne by (auto simp: findGroupRoot_def Let_def split: if_splits)
    with ne show ?thesis by (metis length_greater_0_conv nth_mem)
  next
    case False
    with assms ne have "r = SortFunc (by_creation h) ?c ! 0" by (auto simp: findGroupRoot_def Let_def)
    moreover have "0 < length (SortFunc (by_creation h) ?c)" using ne by simp
    ultimately show ?thesis by (metis nth_mem set_SortFunc)
  qed
  then show ?thesis by simp
qed

definition group_nodes :: "(group_key \<rightharpoonup> nat list) \<Rightarrow> group_key \<Rightarrow> nat list" where
  "group_nodes groups key = (case groups key of None \<Rightarrow> [] | Some ns \<Rightarrow> ns)"

lemma correlate_loop_spec:
  "consistent h \<Longrightarrow> distinct (remaining @ concat (map (group_nodes groups) keys)) \<Longrightarrow>
   set (remaining @ concat (map (group_nodes groups) keys)) = {n. n < length h \<and> n_Parent (h ! n) = None} \<Longrightarrow>
   correlate_loop groups keys h remaining = (h', remaining') \<Longrightarrow>
   consistent h' \<and> same_payload h h' \<and> (\<forall>m. rooted h' m \<longleftrightarrow> rooted h m) \<and> distinct remaining' \<and>
   set remaining' = {n. n < length h' \<and> n_Parent (h' ! n) = None}"
proof (induction keys arbitrary: h remaining)
  case Nil
  then show ?case by (simp add: same_payload_def)
next
  case (Cons key keys)
  let ?ns = "group_nodes groups key" and ?rest = "concat (map (group_nodes groups) keys)"
  show ?case
  proof (cases "findGroupRoot h ?ns")
    case None
    then have "correlate_loop groups keys h (remaining @ ?ns) = (h', remaining')"
      using Cons.prems(4) by (simp add: group_nodes_def Let_def)
    with Cons.IH [OF Cons.prems(1), of "remaining @ ?ns"] Cons.prems(2,3) show ?thesis by simp
  next
    case (Some r)
    from findGroupRoot_Some [OF Some] have rin: "r \<in> set ?ns" by simp
    have free: "\<forall>n \<in> set ?ns. n < length h \<and> n_Parent (h ! n) = None" using Cons.prems(3) by auto
    have dns: "distinct ?ns" using Cons.prems(2) by simp
    let ?h = "adopt_loop r ?ns h"
    from adopt_loop_spec [OF Cons.prems(1) _ _ dns free] free rin have ad: "consistent ?h" "same_payload h ?h"
      "\<And>m. rooted ?h m \<longleftrightarrow> rooted h m"
      "\<And>k. n_Parent (?h ! k) = (if k \<in> set ?ns \<and> k \<noteq> r then Some r else n_Parent (h ! k))" by auto
    have len: "length ?h = length h" using ad(2) by (simp add: same_payload_def)
    have "correlate_loop groups keys ?h (remaining @ [r]) = (h', remaining')"
      using Cons.prems(4) Some by (simp add: group_nodes_def Let_def)
    moreover have "distinct ((remaining @ [r]) @ ?rest)" using Cons.prems(2) rin by auto
    moreover have "set ((remaining @ [r]) @ ?rest) = {n. n < length ?h \<and> n_Parent (?h ! n) = None}"
    proof -
      have "{n. n < length ?h \<and> n_Parent (?h ! n) = None} = {n. n < length h \<and> n_Parent (h ! n) = None} - (set ?ns - {r})"
        using ad(4) len free rin by auto
      also have "\<dots> = set (remaining @ ?ns @ ?rest) - (set ?ns - {r})" using Cons.prems(3) by simp
      also have "\<dots> = set ((remaining @ [r]) @ ?rest)" using Cons.prems(2) rin by auto
      finally show ?thesis by simp
    qed
    ultimately have "consistent h' \<and> same_payload ?h h' \<and> (\<forall>m. rooted h' m \<longleftrightarrow> rooted ?h m) \<and> distinct remaining' \<and>
       set remaining' = {n. n < length h' \<and> n_Parent (h' ! n) = None}" using Cons.IH [OF ad(1)] by blast
    then show ?thesis using ad(3) same_payload_trans [OF ad(2)] by simp
  qed
qed

definition in_group :: "node list \<Rightarrow> group_key \<Rightarrow> nat \<Rightarrow> bool" where
  "in_group h key r \<longleftrightarrow> get_str (ifo_Labels (n_IFO (h ! r))) LabelCorrelationGroup \<noteq> [] \<and> groupKey (n_IFO (h ! r)) = key"

lemma group_loop_spec:
  "group_loop h roots groups remaining = (groups', remaining') \<Longrightarrow>
   remaining' = remaining @ filter (\<lambda>r. get_str (ifo_Labels (n_IFO (h ! r))) LabelCorrelationGroup = []) roots \<and>
   (\<forall>key. group_nodes groups' key = group_nodes groups key @ filter (in_group h key) roots) \<and>
   dom groups' = dom groups \<union> {key. \<exists>r \<in> set roots. in_group h key r}"
proof (induction roots arbitrary: groups remaining)
  case Nil
  then show ?case by simp
next
  case (Cons r roots)
  show ?case
  proof (cases "get_str (ifo_Labels (n_IFO (h ! r))) LabelCorrelationGroup = []")
    case True
    with Cons.prems have "group_loop h roots groups (remaining @ [r]) = (groups', remaining')" by simp
    from Cons.IH [OF this] True show ?thesis by (auto simp: in_group_def)
  next
    case False
    let ?k = "groupKey (n_IFO (h ! r))"
    let ?g = "groups(?k \<mapsto> group_nodes groups ?k @ [r])"
    have "group_loop h roots ?g remaining = (groups', remaining')" using False Cons.prems by (simp add: Let_def group_nodes_def)
    note ih = Cons.IH [OF this]
    have "group_nodes ?g key = group_nodes groups key @ filter (in_group h key) [r]" for key
      using False by (simp add: group_nodes_def in_group_def)
    moreover have "group_nodes groups' key = group_nodes groups key @ filter (in_group h key) (r # roots)" for key
    proof -
      have "group_nodes groups' key = group_nodes ?g key @ filter (in_group h key) roots" using ih by blast
      then show ?thesis using \<open>group_nodes ?g key = group_nodes groups key @ filter (in_group h key) [r]\<close> by simp
    qed
    moreover have "dom groups' = dom groups \<union> {key. \<exists>q \<in> set (r # roots). in_group h key q}"
    proof -
      have "dom ?g = dom groups \<union> {key. in_group h key r}" using False by (auto simp: in_group_def)
      moreover have "dom groups' = dom ?g \<union> {key. \<exists>q \<in> set roots. in_group h key q}" using ih by blast
      ultimately show ?thesis by auto
    qed
    moreover have "remaining' = remaining @ filter (\<lambda>r. get_str (ifo_Labels (n_IFO (h ! r))) LabelCorrelationGroup = []) (r # roots)"
      using ih False by simp
    ultimately show ?thesis by blast
  qed
qed

lemma findGroupRoot_payload: "same_payload h h' \<Longrightarrow> findGroupRoot h' ns = findGroupRoot h ns"
proof -
  assume p: "same_payload h h'"
  then have "by_creation h' = by_creation h" by (simp add: by_creation_def same_payload_def fun_eq_iff)
  moreover have "n_IFO (h' ! k) = n_IFO (h ! k)" for k using p by (simp add: same_payload_def)
  ultimately show ?thesis by (simp only: findGroupRoot_def)
qed

definition adopted :: "node list \<Rightarrow> (group_key \<rightharpoonup> nat list) \<Rightarrow> group_key list \<Rightarrow> nat \<Rightarrow> nat \<Rightarrow> bool" where
  "adopted h groups keys k r \<longleftrightarrow> k \<noteq> r \<and>
     (\<exists>key \<in> set keys. k \<in> set (group_nodes groups key) \<and> findGroupRoot h (group_nodes groups key) = Some r)"

lemma correlate_loop_parents:
  "consistent h \<Longrightarrow> distinct (concat (map (group_nodes groups) keys)) \<Longrightarrow>
   \<forall>n \<in> set (concat (map (group_nodes groups) keys)). n < length h \<and> n_Parent (h ! n) = None \<Longrightarrow>
   correlate_loop groups keys h remaining = (h', remaining') \<Longrightarrow>
   n_Parent (h' ! k) = Some r \<longleftrightarrow> n_Parent (h ! k) = Some r \<or> adopted h groups keys k r"
proof (induction keys arbitrary: h remaining)
  case Nil
  then show ?case by (simp add: adopted_def)
next
  case (Cons key keys)
  let ?ns = "group_nodes groups key" and ?rest = "concat (map (group_nodes groups) keys)"
  have rest: "distinct ?rest" "\<forall>n \<in> set ?rest. n < length h \<and> n_Parent (h ! n) = None"
    "set ?ns \<inter> set ?rest = {}" using Cons.prems(2,3) by auto
  show ?case
  proof (cases "findGroupRoot h ?ns")
    case None
    then have "correlate_loop groups keys h (remaining @ ?ns) = (h', remaining')"
      using Cons.prems(4) by (simp add: group_nodes_def Let_def)
    from Cons.IH [OF Cons.prems(1) rest(1,2) this] None show ?thesis by (auto simp: adopted_def)
  next
    case (Some q)
    from findGroupRoot_Some [OF Some] have qin: "q \<in> set ?ns" by simp
    have free: "\<forall>n \<in> set ?ns. n < length h \<and> n_Parent (h ! n) = None" using Cons.prems(3) by auto
    have dns: "distinct ?ns" using Cons.prems(2) by simp
    let ?h = "adopt_loop q ?ns h"
    from adopt_loop_spec [OF Cons.prems(1) _ _ dns free] free qin have ad: "consistent ?h" "same_payload h ?h"
      "\<And>k. n_Parent (?h ! k) = (if k \<in> set ?ns \<and> k \<noteq> q then Some q else n_Parent (h ! k))" by auto
    have len: "length ?h = length h" using ad(2) by (simp add: same_payload_def)
    have "correlate_loop groups keys ?h (remaining @ [q]) = (h', remaining')"
      using Cons.prems(4) Some by (simp add: group_nodes_def Let_def)
    moreover have "\<forall>n \<in> set ?rest. n < length ?h \<and> n_Parent (?h ! n) = None"
      using rest(2,3) ad(3) len by auto
    ultimately have ih: "n_Parent (h' ! k) = Some r \<longleftrightarrow> n_Parent (?h ! k) = Some r \<or> adopted ?h groups keys k r"
      using Cons.IH [OF ad(1) rest(1)] by blast
    have "adopted ?h groups keys k r = adopted h groups keys k r"
      unfolding adopted_def findGroupRoot_payload [OF ad(2)] by (rule refl)
    moreover have "adopted h groups (key # keys) k r \<longleftrightarrow> k \<noteq> r \<and> k \<in> set ?ns \<and> r = q \<or> adopted h groups keys k r"
      using Some by (auto simp: adopted_def)
    moreover have "n_Parent (h ! k) \<noteq> Some r" if "k \<in> set ?ns" using free that by auto
    ultimately show ?thesis using ih ad(3) by auto
  qed
qed

definition order_ok :: "((group_key \<rightharpoonup> nat list) \<Rightarrow> group_key list) \<Rightarrow> bool" where
  "order_ok order \<longleftrightarrow> (\<forall>m. finite (dom m) \<longrightarrow> enumerates (order m) m)"

lemma concat_groups:
  assumes "distinct keys" and "distinct roots" and "\<And>key. group_nodes groups key = filter (in_group h key) roots"
  shows "distinct (concat (map (group_nodes groups) keys))"
  using assms(1)
proof (induction keys)
  case Nil
  then show ?case by simp
next
  case (Cons key keys)
  have "set (group_nodes groups key) \<inter> set (group_nodes groups key') = {}" if "key' \<in> set keys" for key'
    using Cons.prems that by (auto simp: assms(3) in_group_def)
  with Cons show ?case using assms(2) by (auto simp: assms(3))
qed

lemma group_nodes_empty: "group_nodes Map.empty key = []"
  by (simp add: group_nodes_def)

lemma Correlate_setup:
  assumes ok: "forest_ok f" and ord: "order_ok order"
    and gl: "group_loop (f_nodes f) (f_Roots f) Map.empty [] = (groups, remaining)"
  shows "distinct (remaining @ concat (map (group_nodes groups) (order groups)))"
    and "set (remaining @ concat (map (group_nodes groups) (order groups))) = {n. n < length (f_nodes f) \<and> n_Parent (f_nodes f ! n) = None}"
    and "group_nodes groups key = filter (in_group (f_nodes f) key) (f_Roots f)"
    and "set (order groups) = {key. \<exists>r \<in> set (f_Roots f). in_group (f_nodes f) key r}"
proof -
  let ?h = "f_nodes f"
  from group_loop_spec [OF gl] have spec: "remaining = filter (\<lambda>r. get_str (ifo_Labels (n_IFO (?h ! r))) LabelCorrelationGroup = []) (f_Roots f)"
    "\<And>key. group_nodes groups key = filter (in_group ?h key) (f_Roots f)"
    "dom groups = {key. \<exists>r \<in> set (f_Roots f). in_group ?h key r}"
    unfolding group_nodes_empty append_Nil dom_empty Un_empty_left by blast+
  show "group_nodes groups key = filter (in_group ?h key) (f_Roots f)" by (rule spec(2))
  have "dom groups \<subseteq> (\<lambda>r. groupKey (n_IFO (?h ! r))) ` set (f_Roots f)" unfolding spec(3) in_group_def by blast
  then have "finite (dom groups)" by (rule finite_subset) simp
  with ord have en: "enumerates (order groups) groups" by (simp add: order_ok_def)
  then have ks: "distinct (order groups)" "set (order groups) = dom groups" by (simp_all add: enumerates_def)
  show "set (order groups) = {key. \<exists>r \<in> set (f_Roots f). in_group ?h key r}" using ks(2) spec(3) by simp
  have roots: "distinct (f_Roots f)" "set (f_Roots f) = {n. n < length ?h \<and> n_Parent (?h ! n) = None}"
    using ok by (simp_all add: forest_ok_def)
  have dc: "distinct (concat (map (group_nodes groups) (order groups)))" by (rule concat_groups [OF ks(1) roots(1) spec(2)])
  have members: "set (concat (map (group_nodes groups) (order groups))) =
      {r \<in> set (f_Roots f). get_str (ifo_Labels (n_IFO (?h ! r))) LabelCorrelationGroup \<noteq> []}"
    using spec(2,3) ks(2) by (auto simp: in_group_def)
  show "distinct (remaining @ concat (map (group_nodes groups) (order groups)))"
    using dc members roots(1) spec(1) by auto
  show "set (remaining @ concat (map (group_nodes groups) (order groups))) = {n. n < length ?h \<and> n_Parent (?h ! n) = None}"
    unfolding set_append members spec(1) roots(2) [symmetric] by auto
qed

section \<open>The contract of a correlator\<close>

locale forest_correlator =
  fixes correlate :: "'o \<Rightarrow> forest \<Rightarrow> forest"
    and fit :: "'o \<Rightarrow> bool"
  assumes keeps_ok: "fit x \<Longrightarrow> forest_ok f \<Longrightarrow> forest_ok (correlate x f)"
    and keeps_payload: "fit x \<Longrightarrow> forest_ok f \<Longrightarrow> same_payload (f_nodes f) (f_nodes (correlate x f))"
    and keeps_rooted: "fit x \<Longrightarrow> forest_ok f \<Longrightarrow> rooted (f_nodes (correlate x f)) m \<longleftrightarrow> rooted (f_nodes f) m"
begin

text \<open>Any number of correlators loses and adds no node and no operation.\<close>

lemma correlators_keep:
  "\<forall>x \<in> set xs. fit x \<Longrightarrow> forest_ok f \<Longrightarrow>
   forest_ok (foldl (\<lambda>f c. c f) f (map correlate xs)) \<and>
   same_payload (f_nodes f) (f_nodes (foldl (\<lambda>f c. c f) f (map correlate xs))) \<and>
   (\<forall>m. rooted (f_nodes (foldl (\<lambda>f c. c f) f (map correlate xs))) m \<longleftrightarrow> rooted (f_nodes f) m)"
proof (induction xs arbitrary: f)
  case Nil
  then show ?case by (simp add: same_payload_def)
next
  case (Cons x xs)
  have x: "fit x" using Cons.prems(1) by simp
  have "\<forall>x \<in> set xs. fit x" using Cons.prems(1) by simp
  from Cons.IH [OF this keeps_ok [OF x Cons.prems(2)]]
  show ?case
    using keeps_payload [OF x Cons.prems(2)] keeps_rooted [OF x Cons.prems(2)] by (auto intro: same_payload_trans)
qed

end

interpretation labelCorrelator: forest_correlator Correlate order_ok
proof
  fix order f
  assume ord: "order_ok order" and ok: "forest_ok f"
  obtain groups remaining where gl: "group_loop (f_nodes f) (f_Roots f) Map.empty [] = (groups, remaining)" by force
  obtain h rem where cl: "correlate_loop groups (order groups) (f_nodes f) remaining = (h, rem)" by force
  have con: "consistent (f_nodes f)" using ok by (simp add: forest_ok_def)
  note spec = correlate_loop_spec [OF con Correlate_setup(1,2) [OF ok ord gl] cl]
  have c: "Correlate order f = f\<lparr>f_nodes := h, f_Roots := rem\<rparr>" by (simp add: Correlate_def gl cl)
  show "forest_ok (Correlate order f)" using spec ok unfolding c forest_ok_def by simp
  show "same_payload (f_nodes f) (f_nodes (Correlate order f))" using spec by (simp add: c)
  show "rooted (f_nodes (Correlate order f)) m \<longleftrightarrow> rooted (f_nodes f) m" for m using spec by (simp add: c)
qed

section \<open>Sorting keeps the forest\<close>

interpretation node_cmp: comparator "compareNodes h" for h
  by unfold_locales (auto simp: compareNodes_def Let_def strings_Compare_def split: if_splits)

definition same_shape :: "node list \<Rightarrow> node list \<Rightarrow> bool" where
  "same_shape h h' \<longleftrightarrow> same_payload h h' \<and>
     (\<forall>k. n_Parent (h' ! k) = n_Parent (h ! k) \<and> mset (n_Children (h' ! k)) = mset (n_Children (h ! k)))"

definition sorted_at :: "node list \<Rightarrow> nat \<Rightarrow> bool" where
  "sorted_at h n \<longleftrightarrow> sorted_wrt (\<lambda>a b. compareNodes h a b \<le> 0) (n_Children (h ! n))"

lemma same_shape_refl [simp]: "same_shape h h"
  by (simp add: same_shape_def same_payload_def)

lemma same_shape_trans: "same_shape a b \<Longrightarrow> same_shape b c \<Longrightarrow> same_shape a c"
  by (simp add: same_shape_def same_payload_def)

lemma same_shape_compare: "same_shape h h' \<Longrightarrow> compareNodes h' = compareNodes h"
  by (simp add: same_shape_def same_payload_def compareNodes_def fun_eq_iff)

lemma same_shape_children: "same_shape h h' \<Longrightarrow> set (n_Children (h' ! k)) = set (n_Children (h ! k))"
  unfolding same_shape_def by (metis mset_eq_setD)

lemma same_shape_distinct: "same_shape h h' \<Longrightarrow> distinct (n_Children (h' ! k)) = distinct (n_Children (h ! k))"
  unfolding same_shape_def by (metis mset_eq_imp_distinct_iff)

lemma same_shape_length: "same_shape h h' \<Longrightarrow> length h' = length h"
  by (simp add: same_shape_def same_payload_def)

lemma same_shape_Parent: "same_shape h h' \<Longrightarrow> n_Parent (h' ! k) = n_Parent (h ! k)"
  by (simp add: same_shape_def)

lemma same_shape_consistent:
  assumes "same_shape h h'" and "consistent h"
  shows "consistent h'"
  using assms(2) unfolding consistent_def same_shape_length [OF assms(1)] same_shape_Parent [OF assms(1)]
    same_shape_children [OF assms(1)] same_shape_distinct [OF assms(1)] .

lemma same_shape_depth:
  assumes "same_shape h h'"
  shows "at_depth h n d \<Longrightarrow> at_depth h' n d"
proof (induction rule: at_depth.induct)
  case (top n)
  with assms show ?case by (intro at_depth.top) (simp add: same_shape_def)
next
  case (under n p d)
  with assms show ?case by (intro at_depth.under [of h' n p]) (simp_all add: same_shape_def)
qed

lemma same_shape_sym: "same_shape h h' \<Longrightarrow> same_shape h' h"
  by (simp add: same_shape_def same_payload_def)

lemma same_shape_rooted: "same_shape h h' \<Longrightarrow> rooted h' m \<longleftrightarrow> rooted h m"
  using same_shape_depth same_shape_sym unfolding rooted_def by (metis same_shape_def same_payload_def)

lemma same_shape_up: "same_shape h h' \<Longrightarrow> up h' = up h"
  by (simp add: same_shape_def up_def fun_eq_iff)

text \<open>A loop of sorts over a list of nodes.\<close>

lemma sort_fold:
  assumes step: "\<And>h c. same_shape h0 h \<Longrightarrow> c \<in> set cs \<Longrightarrow> \<exists>h'. f h c = Some h' \<and> same_shape h0 h' \<and>
      (\<forall>m. sorted_at h m \<longrightarrow> sorted_at h' m) \<and> (\<forall>m \<in> D c. sorted_at h' m)"
    and "same_shape h0 h"
  shows "\<exists>h'. foldl (\<lambda>h c. case h of None \<Rightarrow> None | Some h \<Rightarrow> f h c) (Some h) cs = Some h' \<and> same_shape h0 h' \<and>
      (\<forall>m. sorted_at h m \<longrightarrow> sorted_at h' m) \<and> (\<forall>c \<in> set cs. \<forall>m \<in> D c. sorted_at h' m)"
  using assms
proof (induction cs arbitrary: h)
  case Nil
  then show ?case by auto
next
  case (Cons c cs)
  from Cons.prems(1) [OF Cons.prems(2), of c] obtain h1 where h1: "f h c = Some h1" "same_shape h0 h1"
    "\<forall>m. sorted_at h m \<longrightarrow> sorted_at h1 m" "\<forall>m \<in> D c. sorted_at h1 m" by auto
  have "\<exists>h'. foldl (\<lambda>h c. case h of None \<Rightarrow> None | Some h \<Rightarrow> f h c) (Some h1) cs = Some h' \<and> same_shape h0 h' \<and>
      (\<forall>m. sorted_at h1 m \<longrightarrow> sorted_at h' m) \<and> (\<forall>c \<in> set cs. \<forall>m \<in> D c. sorted_at h' m)"
    using Cons.prems(1) h1(2) by (intro Cons.IH) auto
  then obtain h' where h': "foldl (\<lambda>h c. case h of None \<Rightarrow> None | Some h \<Rightarrow> f h c) (Some h1) cs = Some h'" "same_shape h0 h'"
      "\<forall>m. sorted_at h1 m \<longrightarrow> sorted_at h' m" "\<forall>c \<in> set cs. \<forall>m \<in> D c. sorted_at h' m" by blast
  show ?case
    by (intro exI [of _ h']) (use h1 h' in auto)
qed

lemma sort_one:
  assumes "n < length h"
  shows "same_shape h (h[n := (h ! n)\<lparr>n_Children := SortFunc (compareNodes h) (n_Children (h ! n))\<rparr>])" (is "same_shape h ?h")
    and "\<forall>m. sorted_at h m \<longrightarrow> sorted_at (h[n := (h ! n)\<lparr>n_Children := SortFunc (compareNodes h) (n_Children (h ! n))\<rparr>]) m"
    and "sorted_at (h[n := (h ! n)\<lparr>n_Children := SortFunc (compareNodes h) (n_Children (h ! n))\<rparr>]) n"
proof -
  have sel: "n_IFO (?h ! k) = n_IFO (h ! k)" "n_Siblings (?h ! k) = n_Siblings (h ! k)" "n_Parent (?h ! k) = n_Parent (h ! k)"
    "n_Children (?h ! k) = (if k = n then SortFunc (compareNodes h) (n_Children (h ! n)) else n_Children (h ! k))" for k
    using assms by (cases "k = n"; simp)+
  show sh: "same_shape h ?h" by (simp add: same_shape_def same_payload_def sel)
  show "sorted_at ?h n" using node_cmp.sorted_SortFunc by (simp add: sorted_at_def same_shape_compare [OF sh] sel)
  then show "\<forall>m. sorted_at h m \<longrightarrow> sorted_at ?h m" by (auto simp: sorted_at_def same_shape_compare [OF sh] sel)
qed

lemma sortChildren_spec:
  "consistent h \<Longrightarrow> n < length h \<Longrightarrow> at_depth h n d \<Longrightarrow> length h \<le> d + fuel \<Longrightarrow>
   \<exists>h'. sortChildren fuel h n = Some h' \<and> same_shape h h' \<and> (\<forall>m. sorted_at h m \<longrightarrow> sorted_at h' m) \<and>
     (\<forall>m. m < length h \<and> (up h)\<^sup>*\<^sup>* m n \<longrightarrow> sorted_at h' m)"
proof (induction fuel arbitrary: h n d)
  case 0
  with depth_bound show ?case by fastforce
next
  case (Suc fuel)
  let ?cs = "SortFunc (compareNodes h) (n_Children (h ! n))"
  let ?h = "h[n := (h ! n)\<lparr>n_Children := ?cs\<rparr>]"
  note one = sort_one [OF Suc.prems(2)]
  have child: "c < length h \<and> at_depth h c (Suc d)" if "c \<in> set ?cs" for c
    using consistentD(1) [OF Suc.prems(1,2), of c] that Suc.prems(3) by (auto intro: at_depth.under)
  have "\<exists>h'. sortChildren fuel g c = Some h' \<and> same_shape ?h h' \<and> (\<forall>m. sorted_at g m \<longrightarrow> sorted_at h' m) \<and>
      (\<forall>m \<in> {m. m < length h \<and> (up h)\<^sup>*\<^sup>* m c}. sorted_at h' m)" if "same_shape ?h g" "c \<in> set ?cs" for g c
  proof -
    have g: "same_shape h g" using one(1) that(1) by (rule same_shape_trans)
    have len: "length g = length h" using g by (simp add: same_shape_def same_payload_def)
    have "consistent g" using same_shape_consistent [OF g Suc.prems(1)] .
    moreover have "at_depth g c (Suc d)" "c < length g" using child [OF that(2)] same_shape_depth [OF g] len by simp_all
    moreover have "length g \<le> Suc d + fuel" using len Suc.prems(4) by simp
    ultimately obtain h' where h': "sortChildren fuel g c = Some h'" "same_shape g h'" "\<forall>m. sorted_at g m \<longrightarrow> sorted_at h' m"
      "\<forall>m. m < length g \<and> (up g)\<^sup>*\<^sup>* m c \<longrightarrow> sorted_at h' m" using Suc.IH by blast
    moreover have "same_shape ?h h'" using that(1) h'(2) by (rule same_shape_trans)
    ultimately show ?thesis using len same_shape_up [OF g] by auto
  qed
  from sort_fold [of ?h ?cs "sortChildren fuel" "\<lambda>c. {m. m < length h \<and> (up h)\<^sup>*\<^sup>* m c}", OF this same_shape_refl]
  obtain h' where h': "foldl (\<lambda>h c. case h of None \<Rightarrow> None | Some h \<Rightarrow> sortChildren fuel h c) (Some ?h) ?cs = Some h'"
    "same_shape ?h h'" "\<forall>m. sorted_at ?h m \<longrightarrow> sorted_at h' m"
    "\<forall>c \<in> set ?cs. \<forall>m \<in> {m. m < length h \<and> (up h)\<^sup>*\<^sup>* m c}. sorted_at h' m" by blast
  have "sorted_at h' m" if m: "m < length h" "(up h)\<^sup>*\<^sup>* m n" for m
    using m(2)
  proof (cases rule: rtranclp.cases)
    case rtrancl_refl
    then show ?thesis using one(3) h'(3) by blast
  next
    case (rtrancl_into_rtrancl c)
    have "c < length h" using up_length rtrancl_into_rtrancl(1) Suc.prems(1) m(1) by blast
    with rtrancl_into_rtrancl(2) have "c \<in> set (n_Children (h ! n))" using consistentD(2) [OF Suc.prems(1)] by (simp add: up_def)
    with h'(4) m(1) rtrancl_into_rtrancl(1) show ?thesis by simp
  qed
  moreover have "sortChildren (Suc fuel) h n = Some h'" using h'(1) by (simp add: Let_def)
  moreover have "same_shape h h'" using one(1) h'(2) by (rule same_shape_trans)
  moreover have "\<forall>m. sorted_at h m \<longrightarrow> sorted_at h' m" using one(2) h'(3) by blast
  ultimately show ?case by blast
qed

lemma sortForest_spec:
  assumes ok: "forest_ok f" and fuel: "length (f_nodes f) \<le> fuel"
  shows "\<exists>f'. sortForest fuel f = Some f' \<and> forest_ok f' \<and> same_shape (f_nodes f) (f_nodes f') \<and>
    sorted_wrt (\<lambda>a b. compareNodes (f_nodes f') a b \<le> 0) (f_Roots f') \<and>
    (\<forall>m. rooted (f_nodes f') m \<longrightarrow> sorted_at (f_nodes f') m)"
proof -
  let ?h = "f_nodes f" and ?rs = "SortFunc (compareNodes (f_nodes f)) (f_Roots f)"
  have con: "consistent ?h" and roots: "set (f_Roots f) = {n. n < length ?h \<and> n_Parent (?h ! n) = None}"
    and dr: "distinct (f_Roots f)" and orph: "f_Orphans f = []" using ok by (simp_all add: forest_ok_def)
  have "\<exists>h'. sortChildren fuel g r = Some h' \<and> same_shape ?h h' \<and> (\<forall>m. sorted_at g m \<longrightarrow> sorted_at h' m) \<and>
      (\<forall>m \<in> {m. m < length ?h \<and> (up ?h)\<^sup>*\<^sup>* m r}. sorted_at h' m)" if g: "same_shape ?h g" and r: "r \<in> set ?rs" for g r
  proof -
    have len: "length g = length ?h" using g by (simp add: same_shape_def same_payload_def)
    have "at_depth ?h r 0" using r roots by (intro at_depth.top) simp
    then have "at_depth g r 0" by (rule same_shape_depth [OF g])
    moreover have "r < length g" using r roots len by simp
    moreover have "length g \<le> 0 + fuel" using fuel len by simp
    ultimately obtain h' where h': "sortChildren fuel g r = Some h'" "same_shape g h'" "\<forall>m. sorted_at g m \<longrightarrow> sorted_at h' m"
      "\<forall>m. m < length g \<and> (up g)\<^sup>*\<^sup>* m r \<longrightarrow> sorted_at h' m"
      using sortChildren_spec [OF same_shape_consistent [OF g con]] by blast
    moreover have "same_shape ?h h'" using g h'(2) by (rule same_shape_trans)
    ultimately show ?thesis using len same_shape_up [OF g] by auto
  qed
  from sort_fold [of ?h ?rs "sortChildren fuel" "\<lambda>c. {m. m < length ?h \<and> (up ?h)\<^sup>*\<^sup>* m c}", OF this same_shape_refl]
  obtain h' where h': "foldl (\<lambda>h c. case h of None \<Rightarrow> None | Some h \<Rightarrow> sortChildren fuel h c) (Some ?h) ?rs = Some h'"
    "same_shape ?h h'" "\<forall>c \<in> set ?rs. \<forall>m \<in> {m. m < length ?h \<and> (up ?h)\<^sup>*\<^sup>* m c}. sorted_at h' m" by blast
  let ?f = "f\<lparr>f_nodes := h', f_Roots := ?rs, f_Orphans := []\<rparr>"
  have "sortForest fuel f = Some ?f" using h'(1) orph by (simp add: sortForest_def Let_def SortFunc_def)
  moreover have "forest_ok ?f"
    using same_shape_consistent [OF h'(2) con] dr roots h'(2)
    by (simp add: forest_ok_def same_shape_def same_payload_def)
  moreover have "sorted_wrt (\<lambda>a b. compareNodes h' a b \<le> 0) ?rs"
    using node_cmp.sorted_SortFunc by (simp add: same_shape_compare [OF h'(2)])
  moreover have "sorted_at h' m" if "rooted h' m" for m
  proof -
    from that obtain d where m: "m < length ?h" "at_depth ?h m d"
      using same_shape_rooted [OF h'(2)] unfolding rooted_def by blast
    from root_above [OF m(2) con m(1)] obtain r where "r < length ?h" "n_Parent (?h ! r) = None" "(up ?h)\<^sup>*\<^sup>* m r" by blast
    with h'(3) m(1) roots show ?thesis by simp
  qed
  ultimately show ?thesis using h'(2) by (intro exI [of _ ?f]) simp
qed

section \<open>What the forest shows\<close>

text \<open>The first owner reference of an operation's subject that names the subject of a node names the
  subject of node \<open>p\<close>.\<close>

definition owned_by :: "node list \<Rightarrow> nat \<Rightarrow> nat \<Rightarrow> bool" where
  "owned_by h n p \<longleftrightarrow>
     (\<exists>pre own post. sr_OwnerReferences (is_Subject (ifo_Spec (n_IFO (h ! n)))) = pre @ own # post \<and>
        or_UID own \<noteq> [] \<and> p < length h \<and> subject_uid (n_IFO (h ! p)) = or_UID own \<and>
        (\<forall>x \<in> set pre. \<forall>q < length h. or_UID x = [] \<or> subject_uid (n_IFO (h ! q)) \<noteq> or_UID x))"

lemma first_parent_iff:
  assumes m: "\<And>uid i. m uid = Some i \<longleftrightarrow> i < len \<and> uid \<noteq> [] \<and> u i = uid"
  shows "first_parent m owns = Some p \<longleftrightarrow>
    (\<exists>pre own post. owns = pre @ own # post \<and> or_UID own \<noteq> [] \<and> p < len \<and> u p = or_UID own \<and>
        (\<forall>x \<in> set pre. \<forall>q < len. or_UID x = [] \<or> u q \<noteq> or_UID x))"
proof (induction owns)
  case Nil
  then show ?case by simp
next
  case (Cons x xs)
  have none: "m (or_UID x) = None \<longleftrightarrow> (\<forall>q < len. or_UID x = [] \<or> u q \<noteq> or_UID x)"
    using m [of "or_UID x"] by (metis not_None_eq)
  show ?case
  proof (cases "m (or_UID x)")
    case None
    then have "first_parent m (x # xs) = Some p \<longleftrightarrow> first_parent m xs = Some p" by simp
    also note Cons.IH
    also have "(\<exists>pre own post. xs = pre @ own # post \<and> or_UID own \<noteq> [] \<and> p < len \<and> u p = or_UID own \<and>
        (\<forall>x \<in> set pre. \<forall>q < len. or_UID x = [] \<or> u q \<noteq> or_UID x)) \<longleftrightarrow>
      (\<exists>pre own post. x # xs = pre @ own # post \<and> or_UID own \<noteq> [] \<and> p < len \<and> u p = or_UID own \<and>
        (\<forall>x \<in> set pre. \<forall>q < len. or_UID x = [] \<or> u q \<noteq> or_UID x))" (is "?L \<longleftrightarrow> ?R")
    proof
      assume ?L
      then obtain pre own post where "xs = pre @ own # post" "or_UID own \<noteq> []" "p < len" "u p = or_UID own"
        "\<forall>x \<in> set pre. \<forall>q < len. or_UID x = [] \<or> u q \<noteq> or_UID x" by blast
      with None none show ?R by (intro exI [of _ "x # pre"] exI [of _ own] exI [of _ post]) simp
    next
      assume ?R
      then obtain pre own post where d: "x # xs = pre @ own # post" "or_UID own \<noteq> []" "p < len" "u p = or_UID own"
        "\<forall>x \<in> set pre. \<forall>q < len. or_UID x = [] \<or> u q \<noteq> or_UID x" by blast
      then obtain pre' where "pre = x # pre'" using None none by (cases pre) auto
      with d show ?L by (intro exI [of _ pre'] exI [of _ own] exI [of _ post]) simp
    qed
    finally show ?thesis .
  next
    case (Some i)
    then have i: "i < len" "or_UID x \<noteq> []" "u i = or_UID x" using m by blast+
    have "(\<exists>pre own post. x # xs = pre @ own # post \<and> or_UID own \<noteq> [] \<and> p < len \<and> u p = or_UID own \<and>
        (\<forall>x \<in> set pre. \<forall>q < len. or_UID x = [] \<or> u q \<noteq> or_UID x)) \<longleftrightarrow> m (or_UID x) = Some p" (is "?R \<longleftrightarrow> _")
    proof
      assume ?R
      then obtain pre own post where d: "x # xs = pre @ own # post" "or_UID own \<noteq> []" "p < len" "u p = or_UID own"
        "\<forall>x \<in> set pre. \<forall>q < len. or_UID x = [] \<or> u q \<noteq> or_UID x" by blast
      then have "pre = []" using i by (cases pre) auto
      with d m show "m (or_UID x) = Some p" by simp
    next
      assume "m (or_UID x) = Some p"
      with m show ?R by (intro exI [of _ "[]"] exI [of _ x] exI [of _ xs]) simp
    qed
    with Some show ?thesis by simp
  qed
qed

text \<open>
  C17. Owner-reference trees. Whatever operations are listed, each of them is in exactly one node of
  the heap that \<open>buildOwnerRefTrees\<close> makes (as its operation or as a sibling), operations with the
  same subject UID share one node, a node's parent is the node of the first owner reference of its
  operation that has one, children lists mirror the parents, and the roots are the nodes without
  a parent.
\<close>

theorem owner_trees:
  shows "forest_ok (buildOwnerRefTrees ifos) \<and>
    mset (node_ifos (f_nodes (buildOwnerRefTrees ifos))) = mset ifos \<and>
    (\<forall>n < length (f_nodes (buildOwnerRefTrees ifos)). \<forall>x \<in> set (n_Siblings (f_nodes (buildOwnerRefTrees ifos) ! n)).
       subject_uid x = subject_uid (n_IFO (f_nodes (buildOwnerRefTrees ifos) ! n))) \<and>
    (\<forall>n < length (f_nodes (buildOwnerRefTrees ifos)). \<forall>k < length (f_nodes (buildOwnerRefTrees ifos)).
       subject_uid (n_IFO (f_nodes (buildOwnerRefTrees ifos) ! n)) = subject_uid (n_IFO (f_nodes (buildOwnerRefTrees ifos) ! k)) \<longrightarrow>
       n = k \<or> subject_uid (n_IFO (f_nodes (buildOwnerRefTrees ifos) ! n)) = []) \<and>
    (\<forall>n < length (f_nodes (buildOwnerRefTrees ifos)). \<forall>p.
       n_Parent (f_nodes (buildOwnerRefTrees ifos) ! n) = Some p \<longleftrightarrow> owned_by (f_nodes (buildOwnerRefTrees ifos)) n p)"
proof -
  let ?h = "f_nodes (buildOwnerRefTrees ifos)"
  note spec = buildOwnerRefTrees_spec [of ifos]
  from spec obtain m where m: "\<forall>uid i. m uid = Some i \<longrightarrow> i < length ?h \<and> uid \<noteq> [] \<and> subject_uid (n_IFO (?h ! i)) = uid"
    "\<forall>n < length ?h. subject_uid (n_IFO (?h ! n)) \<noteq> [] \<longrightarrow> m (subject_uid (n_IFO (?h ! n))) = Some n"
    "\<forall>n < length ?h. n_Parent (?h ! n) = first_parent m (sr_OwnerReferences (is_Subject (ifo_Spec (n_IFO (?h ! n)))))" by blast
  have iff: "m uid = Some i \<longleftrightarrow> i < length ?h \<and> uid \<noteq> [] \<and> subject_uid (n_IFO (?h ! i)) = uid" for uid i
    using m(1,2) by blast
  have "n_Parent (?h ! n) = Some p \<longleftrightarrow> owned_by ?h n p" if "n < length ?h" for n p
    using m(3) that first_parent_iff [OF iff] unfolding owned_by_def by simp
  moreover have "n = k \<or> subject_uid (n_IFO (?h ! n)) = []"
    if "n < length ?h" "k < length ?h" "subject_uid (n_IFO (?h ! n)) = subject_uid (n_IFO (?h ! k))" for n k
    using m(2) that by (metis option.inject)
  ultimately show ?thesis using spec by blast
qed

text \<open>A virtual machine \<open>vm\<close>, its instance \<open>vmi\<close> and a second operation on the instance.\<close>

definition demo_ifo :: "string \<Rightarrow> string \<Rightarrow> string list \<Rightarrow> labels \<Rightarrow> time \<Rightarrow> ifo" where
  "demo_ifo nm uid owners lbls created =
     \<lparr>ifo_Name = nm, ifo_GenerateName = [], ifo_Labels = lbls, ifo_CreationTimestamp = created,
      ifo_Spec = \<lparr>is_Operation = ''op'', is_RuleSet = ''rs'', is_Component = ''kubevirt'',
        is_Subject = \<lparr>sr_APIVersion = ''v1'', sr_Kind = ''K'', sr_Name = nm, sr_Namespace = ''ns'', sr_UID = uid,
          sr_OwnerReferences = map (\<lambda>u. \<lparr>or_APIVersion = [], or_Kind = [], or_Name = [], or_UID = u\<rparr>) owners\<rparr>\<rparr>,
      ifo_Status = empty_status\<rparr>"

definition demo_ifos :: "ifo list" where
  "demo_ifos = [demo_ifo ''vmi'' ''u2'' [''u9'', ''u1''] Map.empty 2, demo_ifo ''vm'' ''u1'' [] Map.empty 1,
     demo_ifo ''vmi'' ''u2'' [''u9'', ''u1''] Map.empty 3]"

theorem owner_trees_witness:
  "length (f_nodes (buildOwnerRefTrees demo_ifos)) = 2 \<and> owned_by (f_nodes (buildOwnerRefTrees demo_ifos)) 0 1 \<and>
   mset (node_ifos (f_nodes (buildOwnerRefTrees demo_ifos))) = mset demo_ifos"
proof -
  have len: "length (f_nodes (buildOwnerRefTrees demo_ifos)) = 2"
    and "n_Parent (f_nodes (buildOwnerRefTrees demo_ifos) ! 0) = Some 1"
    by (simp_all add: buildOwnerRefTrees_def demo_ifos_def demo_ifo_def subject_uid_def new_node_def link_def Let_def upt_conv_Cons)
  with owner_trees [of demo_ifos] show ?thesis by simp
qed

interpretation creation_cmp: comparator "by_creation h" for h
  by unfold_locales (auto simp: by_creation_def time_Compare_def split: if_splits)

definition has_root_role :: "node list \<Rightarrow> nat \<Rightarrow> bool" where
  "has_root_role h n \<longleftrightarrow> get_str (ifo_Labels (n_IFO (h ! n))) LabelCorrelationRole = CorrelationRoleRoot"

lemma findGroupRoot_earliest:
  assumes "findGroupRoot h ns = Some r" and "q \<in> set ns" and "has_root_role h q"
  shows "ifo_CreationTimestamp (n_IFO (h ! r)) \<le> ifo_CreationTimestamp (n_IFO (h ! q))"
proof -
  let ?c = "filter (\<lambda>n. get_str (ifo_Labels (n_IFO (h ! n))) LabelCorrelationRole = CorrelationRoleRoot) ns"
  have q: "q \<in> set ?c" using assms(2,3) by (simp add: has_root_role_def)
  then have ne: "?c \<noteq> []" by (metis empty_iff empty_set)
  have "by_creation h r q \<le> 0"
  proof (cases "length ?c = 1")
    case True
    then have "findGroupRoot h ns = Some (?c ! 0)" by (simp only: findGroupRoot_def Let_def) simp
    moreover have "q = ?c ! 0" using q True by (metis in_set_conv_nth less_one)
    ultimately have "r = q" using assms(1) by simp
    then show ?thesis using creation_cmp.cmp_refl by simp
  next
    case False
    with assms(1) ne have "SortFunc (by_creation h) ?c ! 0 = r" by (auto simp: findGroupRoot_def Let_def)
    moreover obtain y ys where "SortFunc (by_creation h) ?c = y # ys" using ne by (metis SortFunc_Nil_iff neq_Nil_conv)
    ultimately show ?thesis using creation_cmp.SortFunc_head_least [OF _ q] by (metis nth_Cons_0)
  qed
  then show ?thesis by (simp add: by_creation_def time_Compare_le)
qed

lemma findGroupRoot_None: "findGroupRoot h ns = None \<longleftrightarrow> (\<forall>q \<in> set ns. \<not> has_root_role h q)"
  by (auto simp: findGroupRoot_def has_root_role_def Let_def filter_empty_conv)

lemma Correlate_parents:
  assumes ord: "order_ok order" and ok: "forest_ok f"
  shows "n_Parent (f_nodes (Correlate order f) ! k) = Some r \<longleftrightarrow> n_Parent (f_nodes f ! k) = Some r \<or>
    k \<noteq> r \<and> (\<exists>key. k \<in> set (f_Roots f) \<and> in_group (f_nodes f) key k \<and>
      findGroupRoot (f_nodes f) (filter (in_group (f_nodes f) key) (f_Roots f)) = Some r)"
proof -
  let ?h = "f_nodes f"
  obtain groups remaining where gl: "group_loop ?h (f_Roots f) Map.empty [] = (groups, remaining)" by force
  obtain h rem where cl: "correlate_loop groups (order groups) ?h remaining = (h, rem)" by force
  note groups = Correlate_setup [OF ok ord gl]
  have con: "consistent ?h" using ok by (simp add: forest_ok_def)
  have dc: "distinct (concat (map (group_nodes groups) (order groups)))" using groups(1) by simp
  have free: "\<forall>n \<in> set (concat (map (group_nodes groups) (order groups))). n < length ?h \<and> n_Parent (?h ! n) = None"
    using groups(2) by auto
  have "n_Parent (h ! k) = Some r \<longleftrightarrow> n_Parent (?h ! k) = Some r \<or> adopted ?h groups (order groups) k r"
    by (rule correlate_loop_parents [OF con dc free cl])
  moreover have "adopted ?h groups (order groups) k r \<longleftrightarrow> k \<noteq> r \<and> (\<exists>key. k \<in> set (f_Roots f) \<and> in_group ?h key k \<and>
      findGroupRoot ?h (filter (in_group ?h key) (f_Roots f)) = Some r)"
    unfolding adopted_def groups(3,4) by auto
  ultimately show ?thesis by (simp add: Correlate_def gl cl)
qed

lemma Correlate_parts:
  assumes ord: "order_ok order" and ok: "forest_ok f" and k: "k < length (f_nodes f)"
  shows "n_Parent (f_nodes f ! k) = Some p \<Longrightarrow> n_Parent (f_nodes (Correlate order f) ! k) = Some p"
    and "n_Parent (f_nodes f ! k) = None \<Longrightarrow> n_Parent (f_nodes (Correlate order f) ! k) = Some r \<Longrightarrow>
      r \<noteq> k \<and> r \<in> set (f_Roots f) \<and> groupKey (n_IFO (f_nodes f ! r)) = groupKey (n_IFO (f_nodes f ! k)) \<and>
      fst (groupKey (n_IFO (f_nodes f ! k))) \<noteq> [] \<and> has_root_role (f_nodes f) r \<and>
      (\<forall>q \<in> set (f_Roots f). groupKey (n_IFO (f_nodes f ! q)) = groupKey (n_IFO (f_nodes f ! k)) \<and> has_root_role (f_nodes f) q \<longrightarrow>
         ifo_CreationTimestamp (n_IFO (f_nodes f ! r)) \<le> ifo_CreationTimestamp (n_IFO (f_nodes f ! q)))"
    and "fst key \<noteq> [] \<Longrightarrow>
      (\<exists>q \<in> set (f_Roots f). groupKey (n_IFO (f_nodes f ! q)) = key \<and> has_root_role (f_nodes f) q) \<Longrightarrow>
      \<exists>!n. n \<in> set (f_Roots (Correlate order f)) \<and> groupKey (n_IFO (f_nodes f ! n)) = key"
    and "n_Parent (f_nodes f ! k) = None \<Longrightarrow> fst (groupKey (n_IFO (f_nodes f ! k))) = [] \<or>
      (\<forall>q \<in> set (f_Roots f). groupKey (n_IFO (f_nodes f ! q)) = groupKey (n_IFO (f_nodes f ! k)) \<longrightarrow> \<not> has_root_role (f_nodes f) q) \<Longrightarrow>
      k \<in> set (f_Roots (Correlate order f))"
proof -
  let ?h = "f_nodes f" and ?h' = "f_nodes (Correlate order f)"
  let ?g = "\<lambda>key. filter (in_group ?h key) (f_Roots f)"
  note par = Correlate_parents [OF ord ok]
  have ok': "forest_ok (Correlate order f)" and len: "length ?h' = length ?h"
    using labelCorrelator.keeps_ok [OF ord ok] labelCorrelator.keeps_payload [OF ord ok] by (simp_all add: same_payload_def)
  have roots: "set (f_Roots f) = {n. n < length ?h \<and> n_Parent (?h ! n) = None}"
    and roots': "set (f_Roots (Correlate order f)) = {n. n < length ?h \<and> n_Parent (?h' ! n) = None}"
    using ok ok' len by (simp_all add: forest_ok_def)
  have ig: "in_group ?h key n \<longleftrightarrow> fst key \<noteq> [] \<and> groupKey (n_IFO (?h ! n)) = key" for key n
    by (auto simp: in_group_def groupKey_def)
  show "n_Parent (?h ! k) = Some p \<Longrightarrow> n_Parent (?h' ! k) = Some p" using par by blast
  {
    assume none: "n_Parent (?h ! k) = None" and some: "n_Parent (?h' ! k) = Some r"
    let ?key = "groupKey (n_IFO (?h ! k))"
    from par [of k r] none some have r: "r \<noteq> k" "fst ?key \<noteq> []" "findGroupRoot ?h (?g ?key) = Some r" by (auto simp: ig)
    from findGroupRoot_Some [OF r(3)] have "r \<in> set (f_Roots f)" "groupKey (n_IFO (?h ! r)) = ?key" "has_root_role ?h r"
      by (auto simp: ig has_root_role_def)
    moreover have "ifo_CreationTimestamp (n_IFO (?h ! r)) \<le> ifo_CreationTimestamp (n_IFO (?h ! q))"
      if "q \<in> set (f_Roots f)" "groupKey (n_IFO (?h ! q)) = ?key" "has_root_role ?h q" for q
      using findGroupRoot_earliest [OF r(3) _ that(3)] that(1,2) r(2) by (simp add: ig)
    ultimately show "r \<noteq> k \<and> r \<in> set (f_Roots f) \<and> groupKey (n_IFO (?h ! r)) = ?key \<and> fst ?key \<noteq> [] \<and> has_root_role ?h r \<and>
      (\<forall>q \<in> set (f_Roots f). groupKey (n_IFO (?h ! q)) = ?key \<and> has_root_role ?h q \<longrightarrow>
         ifo_CreationTimestamp (n_IFO (?h ! r)) \<le> ifo_CreationTimestamp (n_IFO (?h ! q)))"
      using r(1,2) by blast
  }
  {
    assume g: "fst key \<noteq> []" and ex: "\<exists>q \<in> set (f_Roots f). groupKey (n_IFO (?h ! q)) = key \<and> has_root_role ?h q"
    then obtain r where r: "findGroupRoot ?h (?g key) = Some r" using findGroupRoot_None [of ?h "?g key"] by (auto simp: ig)
    then have rin: "r \<in> set (f_Roots f)" "groupKey (n_IFO (?h ! r)) = key" using findGroupRoot_Some [OF r] by (auto simp: ig)
    have "n_Parent (?h' ! r) = None"
    proof (rule ccontr)
      assume "n_Parent (?h' ! r) \<noteq> None"
      then obtain x where x: "n_Parent (?h' ! r) = Some x" by blast
      have "n_Parent (?h ! r) = None" using rin(1) roots by blast
      with par [of r x] x obtain key' where "r \<noteq> x" "in_group ?h key' r" "findGroupRoot ?h (?g key') = Some x" by auto
      moreover from this rin(2) have "key' = key" by (simp add: in_group_def)
      ultimately show False using r by simp
    qed
    moreover have "n = r" if "n \<in> set (f_Roots (Correlate order f))" "groupKey (n_IFO (?h ! n)) = key" for n
    proof (rule ccontr)
      assume "n \<noteq> r"
      have "n_Parent (?h' ! n) = None" "n < length ?h" using that(1) roots' by simp_all
      moreover from this have "n \<in> set (f_Roots f)" using par [of n] roots by (metis (mono_tags, lifting) mem_Collect_eq not_None_eq)
      moreover have "in_group ?h key n" using that(2) g by (simp add: ig)
      ultimately have "n_Parent (?h' ! n) = Some r" using par [of n r] \<open>n \<noteq> r\<close> r by blast
      then show False using \<open>n_Parent (?h' ! n) = None\<close> by simp
    qed
    ultimately show "\<exists>!n. n \<in> set (f_Roots (Correlate order f)) \<and> groupKey (n_IFO (?h ! n)) = key"
      using rin roots roots' by (intro ex1I [of _ r]) (simp, blast)
  }
  assume none: "n_Parent (?h ! k) = None" and no: "fst (groupKey (n_IFO (?h ! k))) = [] \<or>
      (\<forall>q \<in> set (f_Roots f). groupKey (n_IFO (?h ! q)) = groupKey (n_IFO (?h ! k)) \<longrightarrow> \<not> has_root_role ?h q)"
  have "n_Parent (?h' ! k) = None"
  proof (rule ccontr)
    assume "n_Parent (?h' ! k) \<noteq> None"
    then obtain x where "n_Parent (?h' ! k) = Some x" by blast
    with par [of k x] none have "fst (groupKey (n_IFO (?h ! k))) \<noteq> []"
      "findGroupRoot ?h (?g (groupKey (n_IFO (?h ! k)))) = Some x" by (auto simp: ig)
    with no findGroupRoot_None [of ?h "?g (groupKey (n_IFO (?h ! k)))"] show False by (auto simp: ig)
  qed
  then show "k \<in> set (f_Roots (Correlate order f))" using k roots' by simp
qed


text \<open>An order of the groups for the demonstrations: the keys in some enumeration order.\<close>

definition demo_group :: "string \<Rightarrow> string \<Rightarrow> labels" where
  "demo_group g role = [LabelCorrelationGroup \<mapsto> g, LabelCorrelationRole \<mapsto> role]"

definition demo_grouped :: "ifo list" where
  "demo_grouped = [demo_ifo ''worker'' ''w1'' [] (demo_group ''upgrade'' ''member'') 1,
     demo_ifo ''late'' ''w2'' [] (demo_group ''upgrade'' CorrelationRoleRoot) 7,
     demo_ifo ''early'' ''w3'' [] (demo_group ''upgrade'' CorrelationRoleRoot) 5,
     demo_ifo ''alone'' ''w4'' [] Map.empty 2]"

definition sorted_groups :: "(group_key \<rightharpoonup> nat list) \<Rightarrow> group_key list" where
  "sorted_groups m = (if finite (dom m) then sorted_list_of_set (dom m) else [])"

lemma sorted_groups_ok: "order_ok sorted_groups"
  by (simp add: order_ok_def sorted_groups_def enumerates_def)

lemma demo_grouped_forest:
  "buildOwnerRefTrees demo_grouped =
     \<lparr>f_nodes = map new_node demo_grouped, f_Roots = [0, 1, 2, 3], f_Orphans = []\<rparr>"
  by (simp add: buildOwnerRefTrees_def demo_grouped_def demo_ifo_def subject_uid_def new_node_def Let_def upt_conv_Cons)

lemma length_demo_grouped: "length demo_grouped = 4"
  by (simp add: demo_grouped_def)

lemma new_node_sel [simp]: "n_IFO (new_node x) = x" "n_Parent (new_node x) = None" "n_Siblings (new_node x) = []"
    "n_Children (new_node x) = []"
  by (simp_all add: new_node_def)


lemma length_node_ifos: "length h \<le> length (node_ifos h)"
  by (induction h) (auto simp: node_ifos_def)

lemma BuildForest_spec:
  assumes ord: "order_ok order" and fuel: "length ifos \<le> fuel"
  shows "\<exists>f xs. BuildForest fuel ifos (DefaultCorrelators order) = Some f \<and> forest_ok f \<and> length (f_nodes f) \<le> fuel \<and>
    AllNodes fuel f = Some xs \<and> distinct xs \<and>
    set xs = {n. rooted (f_nodes (buildOwnerRefTrees ifos)) n} \<and>
    same_payload (f_nodes (buildOwnerRefTrees ifos)) (f_nodes f) \<and>
    sorted_wrt (\<lambda>a b. compareNodes (f_nodes f) a b \<le> 0) (f_Roots f) \<and>
    (\<forall>n \<in> set xs. sorted_wrt (\<lambda>a b. compareNodes (f_nodes f) a b \<le> 0) (n_Children (f_nodes f ! n)))"
proof -
  let ?b = "buildOwnerRefTrees ifos"
  have ok: "forest_ok ?b" and ms: "mset (node_ifos (f_nodes ?b)) = mset ifos" using buildOwnerRefTrees_spec by blast+
  have "length (f_nodes ?b) \<le> length ifos" using length_node_ifos [of "f_nodes ?b"] mset_eq_length [OF ms] by simp
  let ?c = "foldl (\<lambda>f c. c f) ?b (DefaultCorrelators order)"
  have c: "?c = foldl (\<lambda>f c. c f) ?b (map Correlate [order])" by (simp add: DefaultCorrelators_def)
  have kept: "forest_ok ?c \<and> same_payload (f_nodes ?b) (f_nodes ?c) \<and> (\<forall>m. rooted (f_nodes ?c) m \<longleftrightarrow> rooted (f_nodes ?b) m)"
    unfolding c using ord by (intro labelCorrelator.correlators_keep [OF _ ok]) simp
  then have len: "length (f_nodes ?c) \<le> fuel" using \<open>length (f_nodes ?b) \<le> length ifos\<close> fuel by (simp add: same_payload_def)
  from sortForest_spec [OF conjunct1 [OF kept] len] obtain f where f: "sortForest fuel ?c = Some f" "forest_ok f"
    "same_shape (f_nodes ?c) (f_nodes f)" "sorted_wrt (\<lambda>a b. compareNodes (f_nodes f) a b \<le> 0) (f_Roots f)"
    "\<forall>m. rooted (f_nodes f) m \<longrightarrow> sorted_at (f_nodes f) m" by blast
  have flen: "length (f_nodes f) \<le> fuel" using same_shape_length [OF f(3)] len by simp
  from AllNodes_rooted [OF f(2) this] obtain xs where xs: "AllNodes fuel f = Some xs" "distinct xs" "set xs = {n. rooted (f_nodes f) n}" by blast
  have "rooted (f_nodes f) n \<longleftrightarrow> rooted (f_nodes ?b) n" for n using same_shape_rooted [OF f(3)] kept by blast
  moreover have "same_payload (f_nodes ?b) (f_nodes f)" using kept f(3) same_payload_trans unfolding same_shape_def by blast
  ultimately show ?thesis using f flen xs by (intro exI [of _ f] exI [of _ xs]) (auto simp: BuildForest_def sorted_at_def)
qed

text \<open>
  C16. Building the forest. \<open>BuildForest\<close> with the standard correlators ends, however the map of groups is
  visited (as many recursion levels as operations suffice); traversing the result gives each node
  that has a root above it in the owner-reference trees exactly once, with the operations it had there,
  and the roots and the children of every node are in the order of \<open>compareNodes\<close>.
\<close>

theorem BuildForest_shows:
  assumes "order_ok order" and "length ifos \<le> fuel"
  shows "\<exists>f xs. BuildForest fuel ifos (DefaultCorrelators order) = Some f \<and> AllNodes fuel f = Some xs \<and> distinct xs \<and>
    set xs = {n. rooted (f_nodes (buildOwnerRefTrees ifos)) n} \<and>
    same_payload (f_nodes (buildOwnerRefTrees ifos)) (f_nodes f) \<and>
    sorted_wrt (\<lambda>a b. compareNodes (f_nodes f) a b \<le> 0) (f_Roots f) \<and>
    (\<forall>n \<in> set xs. sorted_wrt (\<lambda>a b. compareNodes (f_nodes f) a b \<le> 0) (n_Children (f_nodes f ! n)))"
  using BuildForest_spec [OF assms] by blast

theorem BuildForest_shows_witness:
  "\<exists>f xs. BuildForest 4 demo_grouped (DefaultCorrelators sorted_groups) = Some f \<and> AllNodes 4 f = Some xs \<and> mset xs = {#0, 1, 2, 3#}"
proof -
  have "n < 4 \<Longrightarrow> at_depth (f_nodes (buildOwnerRefTrees demo_grouped)) n 0" for n
    by (intro at_depth.top) (simp add: demo_grouped_forest length_demo_grouped)
  then have "rooted (f_nodes (buildOwnerRefTrees demo_grouped)) n \<longleftrightarrow> n < 4" for n
    unfolding rooted_def by (simp only: demo_grouped_forest forest.simps length_map length_demo_grouped) blast
  then have "{n. rooted (f_nodes (buildOwnerRefTrees demo_grouped)) n} = {n. n < 4}" by blast
  also have "{n :: nat. n < 4} = set [0, 1, 2, 3]" by auto
  finally have R: "{n. rooted (f_nodes (buildOwnerRefTrees demo_grouped)) n} = set [0, 1, 2, 3]" .
  have "length demo_grouped \<le> 4" by (simp add: length_demo_grouped)
  from BuildForest_shows [OF sorted_groups_ok this] obtain f xs where
    f: "BuildForest 4 demo_grouped (DefaultCorrelators sorted_groups) = Some f" "AllNodes 4 f = Some xs" "distinct xs"
    "set xs = set [0, 1, 2, 3]" unfolding R by blast
  have "distinct [0, 1, 2, 3 :: nat]" by simp
  with f(3,4) have "mset xs = mset [0, 1, 2, 3]" by (metis set_eq_iff_mset_eq_distinct)
  then have "mset xs = {#0, 1, 2, 3#}" by simp
  with f(1,2) show ?thesis by blast
qed

text \<open>
  Cyclic ownership hides operations. Two operations whose subjects name each other as owners
  are in the trees but below no root: \<open>BuildForest\<close> returns a forest whose traversal is empty.
\<close>

theorem ownership_cycle_hidden:
  assumes "ua \<noteq> ub" and "ua \<noteq> []" and "ub \<noteq> []" and "order_ok order" and "2 \<le> fuel"
  shows "\<exists>f. BuildForest fuel [demo_ifo a ua [ub] la ta, demo_ifo b ub [ua] lb tb] (DefaultCorrelators order) = Some f \<and>
    AllNodes fuel f = Some []"
proof -
  let ?ifos = "[demo_ifo a ua [ub] la ta, demo_ifo b ub [ua] lb tb]"
  let ?h = "f_nodes (buildOwnerRefTrees ?ifos)"
  have h: "length ?h = 2" "n_Parent (?h ! 0) = Some 1" "n_Parent (?h ! 1) = Some 0"
    using assms(1-3) by (simp_all add: buildOwnerRefTrees_def demo_ifo_def subject_uid_def new_node_def link_def Let_def upt_conv_Cons)
  have "n \<ge> 2" if "at_depth ?h n d" for n d
    using that
  proof (induction rule: at_depth.induct)
    case (top n)
    with h show ?case by (cases "n = 0"; cases "n = 1") auto
  next
    case (under n p d)
    with h show ?case by (cases "n = 0"; cases "n = 1") auto
  qed
  then have "\<not> rooted ?h n" for n using h(1) by (fastforce simp: rooted_def)
  with BuildForest_spec [OF assms(4), of ?ifos fuel] assms(5) show ?thesis by auto
qed

theorem ownership_cycle_hidden_witness:
  "\<exists>f. BuildForest 2 [demo_ifo ''a'' ''u1'' [''u2''] Map.empty 1, demo_ifo ''b'' ''u2'' [''u1''] Map.empty 2]
     (DefaultCorrelators sorted_groups) = Some f \<and> AllNodes 2 f = Some []"
  by (rule ownership_cycle_hidden) (simp_all add: sorted_groups_ok)

end
