(* ===== verification/Plugin_Output.thy ===== *)
theory Plugin_Output
  imports Plugin_Model
begin

text \<open>
  What the kubectl plugin prints (\<open>pkg/plugin/output\<close>): colours, ages, the tree of a forest, and the
  detail view. A printout is the list of its lines. Printing reads the clock for every age; the
  reading taken for a node, row or field is an argument indexed by it. Widths are counted as
  the code counts them: bytes (\<open>len\<close>) for subjects and operations, runes for the tree prefixes,
  which are the only strings with multi-byte characters here.
\<close>

section \<open>Colours\<close>

definition ESC :: char where "ESC = CHR 0x1B"
definition ansi_reset :: string where "ansi_reset = ESC # ''[0m''"
definition ansi_bold :: string where "ansi_bold = ESC # ''[1m''"
definition ansi_dim :: string where "ansi_dim = ESC # ''[2m''"
definition ansi_red :: string where "ansi_red = ESC # ''[31m''"
definition ansi_green :: string where "ansi_green = ESC # ''[32m''"
definition ansi_yellow :: string where "ansi_yellow = ESC # ''[33m''"
definition ansi_cyan :: string where "ansi_cyan = ESC # ''[36m''"
definition ansi_brightYellow :: string where "ansi_brightYellow = ESC # ''[93m''"

lemmas ansi_defs = ansi_reset_def ansi_bold_def ansi_dim_def ansi_red_def ansi_green_def ansi_yellow_def
  ansi_cyan_def ansi_brightYellow_def

record color_writer =
  Enabled :: bool

definition NewColorWriter :: "bool \<Rightarrow> bool \<Rightarrow> bool \<Rightarrow> color_writer" where
  "NewColorWriter isTerminal forceOn forceOff =
     (let enabled = isTerminal;
          enabled = (if forceOn then True else enabled);
          enabled = (if forceOff then False else enabled) in
      \<lparr>Enabled = enabled\<rparr>)"

definition Bold :: "color_writer \<Rightarrow> string \<Rightarrow> string" where
  "Bold c s = (if \<not> Enabled c then s else ansi_bold @ s @ ansi_reset)"
definition Dim :: "color_writer \<Rightarrow> string \<Rightarrow> string" where
  "Dim c s = (if \<not> Enabled c then s else ansi_dim @ s @ ansi_reset)"
definition Green :: "color_writer \<Rightarrow> string \<Rightarrow> string" where
  "Green c s = (if \<not> Enabled c then s else ansi_green @ s @ ansi_reset)"
definition Red :: "color_writer \<Rightarrow> string \<Rightarrow> string" where
  "Red c s = (if \<not> Enabled c then s else ansi_red @ s @ ansi_reset)"
definition Yellow :: "color_writer \<Rightarrow> string \<Rightarrow> string" where
  "Yellow c s = (if \<not> Enabled c then s else ansi_yellow @ s @ ansi_reset)"
definition Cyan :: "color_writer \<Rightarrow> string \<Rightarrow> string" where
  "Cyan c s = (if \<not> Enabled c then s else ansi_cyan @ s @ ansi_reset)"
definition BrightYellow :: "color_writer \<Rightarrow> string \<Rightarrow> string" where
  "BrightYellow c s = (if \<not> Enabled c then s else ansi_brightYellow @ s @ ansi_reset)"

lemmas paint_defs = Bold_def Dim_def Green_def Red_def Yellow_def Cyan_def BrightYellow_def

definition isErrorOperation :: "string \<Rightarrow> bool" where
  "isErrorOperation oper \<longleftrightarrow> oper \<in> {''Failed'', ''Failing'', ''BuildFailed'', ''Lost''}"

definition isWarningOperation :: "string \<Rightarrow> bool" where
  "isWarningOperation oper \<longleftrightarrow>
     oper \<in> {''Degraded'', ''UpdatingDegraded'', ''ReconcilingDegraded'', ''NodeDegraded'', ''RenderDegraded'', ''NotUpgradeable''}"

definition colorizeOp :: "color_writer \<Rightarrow> string \<Rightarrow> string" where
  "colorizeOp c oper =
     (if isErrorOperation oper then Red c oper else if isWarningOperation oper then Yellow c oper else oper)"

definition colorizeOperation :: "color_writer \<Rightarrow> string \<Rightarrow> string" where
  "colorizeOperation c oper =
     (if isErrorOperation oper then Red c oper else if isWarningOperation oper then Yellow c oper else Green c oper)"

definition defaultString :: "string \<Rightarrow> string \<Rightarrow> string" where
  "defaultString s def = (if s = [] then def else s)"

section \<open>Ages\<close>

text \<open>
  \<open>time.Since\<close> saturates at the bounds of a duration. \<open>int(d.Hours())\<close> goes through a float64; for
  the durations the branches pass it the float's rounding reaches the next whole number only in
  the last nanosecond of an hour beyond 4096 hours, which this definition does not follow. \<open>%\<close>
  and the conversions truncate; all but the first branch see positive numbers.
\<close>

definition Since :: "time \<Rightarrow> time \<Rightarrow> int" where
  "Since now t = max (- (2 ^ 63)) (min (2 ^ 63 - 1) (now - t))"

definition show_int :: "int \<Rightarrow> string" where
  "show_int i = (if i < 0 then CHR ''-'' # dec (nat (- i)) else dec (nat i))"

definition trunc_div :: "int \<Rightarrow> int \<Rightarrow> int" where
  "trunc_div a b = (if a < 0 then - ((- a) div b) else a div b)"

definition FormatAge :: "time \<Rightarrow> time \<Rightarrow> string" where
  "FormatAge now t =
     (let d = Since now t; s = 10 ^ 9; m = 60 * s; h = 60 * m in
      if d < m then show_int (trunc_div d s) @ ''s''
      else if d < h then show_int (d div m) @ ''m'' @ show_int (d div s mod 60) @ ''s''
      else if d < 24 * h then show_int (d div h) @ ''h'' @ show_int (d div m mod 60) @ ''m''
      else show_int (d div h div 24) @ ''d'' @ show_int (d div h mod 24) @ ''h'')"

section \<open>The tree\<close>

text \<open>The box-drawing prefixes, in UTF-8.\<close>

definition treeBranch :: string where
  "treeBranch = [CHR 0xE2, CHR 0x94, CHR 0x9C, CHR 0xE2, CHR 0x94, CHR 0x80, CHR 0xE2, CHR 0x94, CHR 0x80] @ '' ''"
definition treeCorner :: string where
  "treeCorner = [CHR 0xE2, CHR 0x94, CHR 0x94, CHR 0xE2, CHR 0x94, CHR 0x80, CHR 0xE2, CHR 0x94, CHR 0x80] @ '' ''"
definition treeBar :: string where
  "treeBar = [CHR 0xE2, CHR 0x94, CHR 0x82] @ ''   ''"
definition treeBlank :: string where
  "treeBlank = ''    ''"
definition clusterScoped :: string where
  "clusterScoped = ''(cluster-scoped)''"

text \<open>\<open>utf8.RuneCountInString\<close> on valid UTF-8: the bytes that do not continue a character.\<close>

definition starts_rune :: "char \<Rightarrow> bool" where
  "starts_rune c \<longleftrightarrow> \<not> ((0x80::nat) \<le> of_char c \<and> of_char c < (0xC0::nat))"

definition displayWidth :: "string \<Rightarrow> nat" where
  "displayWidth s = length (filter starts_rune s)"

definition formatSubject :: "node \<Rightarrow> string" where
  "formatSubject n = sr_Kind (is_Subject (ifo_Spec (n_IFO n))) @ ''/'' @ sr_Name (is_Subject (ifo_Spec (n_IFO n)))"

definition rootNamespace :: "node \<Rightarrow> string" where
  "rootNamespace n =
     (let ns = sr_Namespace (is_Subject (ifo_Spec (n_IFO n))) in if ns = [] then clusterScoped else ns)"

definition node_ops :: "node \<Rightarrow> string list" where
  "node_ops n = sort_strings (is_Operation (ifo_Spec (n_IFO n)) # map (\<lambda>sib. is_Operation (ifo_Spec sib)) (n_Siblings n))"

definition formatOperations :: "color_writer \<Rightarrow> node \<Rightarrow> string" where
  "formatOperations c n = strings_Join (map (colorizeOperation c) (node_ops n)) '', ''"

definition operationsWidth :: "node \<Rightarrow> nat" where
  "operationsWidth n = length (strings_Join (node_ops n) '', '')"

definition oldest_creation :: "node \<Rightarrow> time" where
  "oldest_creation n =
     foldl (\<lambda>oldest sib. if ifo_CreationTimestamp sib < oldest then ifo_CreationTimestamp sib else oldest)
       (ifo_CreationTimestamp (n_IFO n)) (n_Siblings n)"

definition formatAge :: "color_writer \<Rightarrow> time \<Rightarrow> node \<Rightarrow> string" where
  "formatAge c now n = Dim c (FormatAge now (oldest_creation n))"

text \<open>The connector and the continuation prefix of each child.\<close>

definition connectors :: "string \<Rightarrow> nat list \<Rightarrow> (nat \<times> string \<times> string) list" where
  "connectors childPrefix cs =
     map (\<lambda>i. (cs ! i,
       if i = length cs - 1 then (childPrefix @ treeCorner, childPrefix @ treeBlank)
       else (childPrefix @ treeBranch, childPrefix @ treeBar))) [0..<length cs]"

definition max_of :: "nat \<Rightarrow> nat list \<Rightarrow> nat" where
  "max_of m ws = foldl (\<lambda>m w. if m < w then w else m) m ws"

fun computeMaxWidth :: "nat \<Rightarrow> node list \<Rightarrow> nat \<Rightarrow> string \<Rightarrow> string \<Rightarrow> nat option" where
  "computeMaxWidth 0 h n linePrefix childPrefix = None"
| "computeMaxWidth (Suc fuel) h n linePrefix childPrefix =
     (case those (map (\<lambda>(c, connector, nextPrefix). computeMaxWidth fuel h c connector nextPrefix)
          (connectors childPrefix (n_Children (h ! n)))) of
        None \<Rightarrow> None
      | Some ws \<Rightarrow> Some (max_of (displayWidth linePrefix + length (formatSubject (h ! n))) ws))"

fun computeMaxOpsWidth :: "nat \<Rightarrow> node list \<Rightarrow> nat \<Rightarrow> nat option" where
  "computeMaxOpsWidth 0 h n = None"
| "computeMaxOpsWidth (Suc fuel) h n =
     (case those (map (computeMaxOpsWidth fuel h) (n_Children (h ! n))) of
        None \<Rightarrow> None
      | Some ws \<Rightarrow> Some (max_of (operationsWidth (h ! n)) ws))"

definition spaces :: "nat \<Rightarrow> string" where
  "spaces k = replicate k CHR '' ''"

text \<open>One line of the tree; the subtractions of the code may go below zero, where \<open>max\<close> takes over.\<close>

definition node_line :: "color_writer \<Rightarrow> (nat \<Rightarrow> time) \<Rightarrow> node list \<Rightarrow> nat \<Rightarrow> nat \<Rightarrow> string \<Rightarrow> nat \<Rightarrow> string" where
  "node_line c clk h colWidth opColWidth linePrefix n =
     (let subject = formatSubject (h ! n);
          operations = formatOperations c (h ! n);
          plainOpsWidth = operationsWidth (h ! n);
          age = formatAge c (clk n) (h ! n);
          padding = max (int colWidth - int (displayWidth linePrefix) - int (length subject)) 2;
          opPadding = max (int opColWidth - int plainOpsWidth) 0 in
      linePrefix @ subject @ spaces (nat padding) @ operations @ spaces (nat opPadding) @ ''  '' @ age)"

fun printSubtree ::
  "nat \<Rightarrow> color_writer \<Rightarrow> (nat \<Rightarrow> time) \<Rightarrow> node list \<Rightarrow> nat \<Rightarrow> string \<Rightarrow> string \<Rightarrow> nat \<Rightarrow> nat \<Rightarrow> string list option"
where
  "printSubtree 0 c clk h n linePrefix childPrefix colWidth opColWidth = None"
| "printSubtree (Suc fuel) c clk h n linePrefix childPrefix colWidth opColWidth =
     (case those (map (\<lambda>(ch, connector, nextPrefix). printSubtree fuel c clk h ch connector nextPrefix colWidth opColWidth)
          (connectors childPrefix (n_Children (h ! n)))) of
        None \<Rightarrow> None
      | Some rest \<Rightarrow> Some (node_line c clk h colWidth opColWidth linePrefix n # concat rest))"

definition PrintTree :: "nat \<Rightarrow> color_writer \<Rightarrow> (nat \<Rightarrow> time) \<Rightarrow> node list \<Rightarrow> nat \<Rightarrow> string list option" where
  "PrintTree fuel c clk h root =
     (case computeMaxWidth fuel h root ''  '' ''  '' of
        None \<Rightarrow> None
      | Some w \<Rightarrow>
          (case computeMaxOpsWidth fuel h root of
             None \<Rightarrow> None
           | Some opColWidth \<Rightarrow>
               (case printSubtree fuel c clk h root ''  '' ''  '' (w + 2) opColWidth of
                  None \<Rightarrow> None
                | Some ls \<Rightarrow> Some (BrightYellow c (rootNamespace (h ! root)) # ls))))"

section \<open>The forest\<close>

record comp_group =
  cg_namespaces :: "string \<rightharpoonup> nat list"
  cg_nsOrder :: "string list"

definition root_component :: "node \<Rightarrow> string" where
  "root_component n = (let comp = is_Component (ifo_Spec (n_IFO n)) in if comp = [] then ''(none)'' else comp)"

fun group_roots :: "node list \<Rightarrow> nat list \<Rightarrow> (string \<rightharpoonup> comp_group) \<Rightarrow> string list \<Rightarrow> (string \<rightharpoonup> comp_group) \<times> string list" where
  "group_roots h [] groups compOrder = (groups, compOrder)"
| "group_roots h (root # roots) groups compOrder =
     (let comp = root_component (h ! root);
          ns = rootNamespace (h ! root);
          (cg, compOrder) = (case groups comp of
             Some cg \<Rightarrow> (cg, compOrder)
           | None \<Rightarrow> (\<lparr>cg_namespaces = Map.empty, cg_nsOrder = []\<rparr>, compOrder @ [comp]));
          cg = (if cg_namespaces cg ns = None then cg\<lparr>cg_nsOrder := cg_nsOrder cg @ [ns]\<rparr> else cg);
          cg = cg\<lparr>cg_namespaces := (cg_namespaces cg)(ns \<mapsto>
             (case cg_namespaces cg ns of None \<Rightarrow> [] | Some ns \<Rightarrow> ns) @ [root])\<rparr> in
      group_roots h roots (groups(comp \<mapsto> cg)) compOrder)"

text \<open>
  The roots in the order in which they are printed, with their headings: per component the sorted
  namespaces, per namespace its roots.
\<close>

definition layout :: "(string \<rightharpoonup> comp_group) \<Rightarrow> string list \<Rightarrow> (string \<times> (string \<times> nat list) list) list" where
  "layout groups compOrder =
     map (\<lambda>comp.
       (let cg = (case groups comp of None \<Rightarrow> \<lparr>cg_namespaces = Map.empty, cg_nsOrder = []\<rparr> | Some cg \<Rightarrow> cg) in
        (comp, map (\<lambda>ns. (ns, case cg_namespaces cg ns of None \<Rightarrow> [] | Some ns \<Rightarrow> ns)) (sort_strings (cg_nsOrder cg)))))
       compOrder"

fun print_namespaces :: "(nat \<Rightarrow> string list option) \<Rightarrow> color_writer \<Rightarrow> (string \<times> nat list) list \<Rightarrow> string list option" where
  "print_namespaces pr c [] = Some []"
| "print_namespaces pr c ((ns, roots) # rest) =
     (case those (map pr roots) of
        None \<Rightarrow> None
      | Some lss \<Rightarrow>
          (case print_namespaces pr c rest of
             None \<Rightarrow> None
           | Some ls \<Rightarrow> Some ((''  '' @ BrightYellow c ns) # concat lss @ ls)))"

fun print_components ::
  "(nat \<Rightarrow> string list option) \<Rightarrow> color_writer \<Rightarrow> bool \<Rightarrow> (string \<times> (string \<times> nat list) list) list \<Rightarrow> string list option"
where
  "print_components pr c first [] = Some []"
| "print_components pr c first ((compo, nss) # rest) =
     (case print_namespaces pr c nss of
        None \<Rightarrow> None
      | Some ls \<Rightarrow>
          (case print_components pr c False rest of
             None \<Rightarrow> None
           | Some ls' \<Rightarrow> Some ((if first then [] else [[]]) @ Bold c compo # ls @ ls')))"

definition PrintForest :: "nat \<Rightarrow> color_writer \<Rightarrow> (nat \<Rightarrow> time) \<Rightarrow> forest \<Rightarrow> string list option" where
  "PrintForest fuel c clk f =
     (if length (f_Roots f) = 0 \<and> length (f_Orphans f) = 0 then Some [''No in-flight operations found.'']
      else
        (let h = f_nodes f; allRoots = f_Roots f @ f_Orphans f in
         case those (map (\<lambda>root. computeMaxWidth fuel h root ''    '' ''    '') allRoots) of
           None \<Rightarrow> None
         | Some ws \<Rightarrow>
             (case those (map (computeMaxOpsWidth fuel h) allRoots) of
                None \<Rightarrow> None
              | Some ows \<Rightarrow>
                  (let colWidth = max_of 0 ws + 2; opColWidth = max_of 0 ows;
                       (groups, compOrder) = group_roots h allRoots Map.empty [] in
                   print_components (\<lambda>root. printSubtree fuel c clk h root ''    '' ''    '' colWidth opColWidth) c True
                     (layout groups compOrder)))))"

section \<open>Tables\<close>

text \<open>
  \<open>text/tabwriter\<close> with a padding of two spaces, on lines that all have the same number of
  tab-terminated cells, as those of the tables here have as long as no field holds a tab or a
  line break: every such cell is padded to the width of the widest in its column plus two, and
  widths count runes, those of escape sequences too. The text after the last tab is not padded.
\<close>

definition TAB :: char where "TAB = CHR 0x09"

definition pad :: "nat \<Rightarrow> string \<Rightarrow> string" where
  "pad w s = s @ spaces (w - displayWidth s)"

definition column_width :: "string list list \<Rightarrow> nat \<Rightarrow> nat" where
  "column_width rows j = max_of 0 (map (\<lambda>cells. displayWidth (cells ! j)) rows) + 2"

definition tab_line :: "string list list \<Rightarrow> string list \<Rightarrow> string" where
  "tab_line rows cells =
     concat (map (\<lambda>j. pad (column_width rows j) (cells ! j)) [0..<length cells - 1]) @ last cells"

definition tab_flush :: "string list \<Rightarrow> string list" where
  "tab_flush ls = (let rows = map (split_at TAB) ls in map (tab_line rows) rows)"

record table_printer =
  tp_Color :: color_writer
  tp_Wide :: bool

definition list_header :: "bool \<Rightarrow> string list" where
  "list_header wide =
     (if wide then [''SUBJECT KIND'', ''NAMESPACE'', ''SUBJECT NAME'', ''OPERATION'', ''PHASE'', ''COMPONENT'', ''RULESET'', ''AGE'']
      else [''SUBJECT KIND'', ''NAMESPACE'', ''SUBJECT NAME'', ''OPERATION'', ''PHASE'', ''COMPONENT'', ''AGE''])"

definition printRow :: "table_printer \<Rightarrow> time \<Rightarrow> ifo \<Rightarrow> string" where
  "printRow p now x =
     (let phase = st_Phase (ifo_Status x);
          phase = (if phase = OperationPhaseActive then Green (tp_Color p) phase else Dim (tp_Color p) phase);
          operation = colorizeOp (tp_Color p) (is_Operation (ifo_Spec x));
          age = FormatAge now (ifo_CreationTimestamp x);
          compo = is_Component (ifo_Spec x);
          compo = (if compo = [] then ''-'' else compo);
          subj = is_Subject (ifo_Spec x) in
      strings_Join
        (if tp_Wide p then
           [sr_Kind subj, defaultString (sr_Namespace subj) ''-'', sr_Name subj, operation, phase, compo,
            is_RuleSet (ifo_Spec x), age]
         else
           [sr_Kind subj, defaultString (sr_Namespace subj) ''-'', sr_Name subj, operation, phase, compo, age])
        [TAB])"

text \<open>The clock reading of a row is given by its index.\<close>

definition PrintList :: "table_printer \<Rightarrow> (nat \<Rightarrow> time) \<Rightarrow> ifo list \<Rightarrow> string list" where
  "PrintList p clk ifos =
     tab_flush (Bold (tp_Color p) (strings_Join (list_header (tp_Wide p)) [TAB]) #
       map (\<lambda>i. printRow p (clk i) (ifos ! i)) [0..<length ifos])"

text \<open>
  The detail view. \<open>rfc3339\<close> formats an instant in the local time zone; \<open>ks\<close> is the order in which
  the map of labels is visited.
\<close>

definition PrintDetail :: "table_printer \<Rightarrow> (time \<Rightarrow> string) \<Rightarrow> (nat \<Rightarrow> time) \<Rightarrow> string list \<Rightarrow> ifo \<Rightarrow> string list" where
  "PrintDetail p rfc3339 clk ks x =
     (let b = Bold (tp_Color p); subj = is_Subject (ifo_Spec x); st = ifo_Status x in
      [b ''Name:'' @ '' '' @ ifo_Name x,
       b ''Operation:'' @ '' '' @ is_Operation (ifo_Spec x),
       b ''Phase:'' @ '' '' @ st_Phase st,
       b ''Component:'' @ '' '' @ defaultString (is_Component (ifo_Spec x)) ''(none)'',
       b ''RuleSet:'' @ '' '' @ is_RuleSet (ifo_Spec x),
       [],
       b ''Subject:'',
       ''  Kind:       '' @ sr_Kind subj,
       ''  Name:       '' @ sr_Name subj,
       ''  Namespace:  '' @ defaultString (sr_Namespace subj) clusterScoped,
       ''  APIVersion: '' @ sr_APIVersion subj,
       ''  UID:        '' @ sr_UID subj] @
      (if 0 < length (sr_OwnerReferences subj) then
         [[], b ''Owner References:''] @
         map (\<lambda>r. ''  - '' @ or_Kind r @ ''/'' @ or_Name r @ '' (uid: '' @ or_UID r @ '')'') (sr_OwnerReferences subj)
       else []) @
      [[], b ''Status:'',
       ''  Created:           '' @ rfc3339 (ifo_CreationTimestamp x) @ '' ('' @ FormatAge (clk 0) (ifo_CreationTimestamp x) @ '' ago)''] @
      (case st_LastDetected st of None \<Rightarrow> []
       | Some t \<Rightarrow> [''  Last Detected:     '' @ rfc3339 t @ '' ('' @ FormatAge (clk 1) t @ '' ago)'']) @
      (case st_Completed st of None \<Rightarrow> []
       | Some t \<Rightarrow> [''  Completed:         '' @ rfc3339 t @ '' ('' @ FormatAge (clk 2) t @ '' ago)'']) @
      (if 0 < length (st_DetectedBy st) then [''  Detected By:       '' @ strings_Join (st_DetectedBy st) '', ''] else []) @
      (if 0 < st_SubjectGeneration st then [''  Subject Gen:       '' @ show_int (st_SubjectGeneration st)] else []) @
      (if ks \<noteq> [] then [[], b ''Labels:''] @ map (\<lambda>k. ''  '' @ k @ ''='' @ get_str (ifo_Labels x) k) ks else []))"

section \<open>JSON and YAML\<close>

text \<open>The encoders and the writer are arguments; a JSON document is followed by a line break.\<close>

definition print_json :: "('a \<Rightarrow> goerr + string) \<Rightarrow> (string \<Rightarrow> 'w \<Rightarrow> goerr option \<times> 'w) \<Rightarrow> 'a \<Rightarrow> 'w \<Rightarrow> goerr option \<times> 'w" where
  "print_json marshal write x w =
     (case marshal x of
        Inl err \<Rightarrow> (Some (Chained (''marshaling JSON: '' @ Error err) (Some err)), w)
      | Inr data \<Rightarrow>
          (case write data w of
             (Some err, w) \<Rightarrow> (Some err, w)
           | (None, w) \<Rightarrow> write [CHR 0x0A] w))"

definition print_yaml :: "('a \<Rightarrow> goerr + string) \<Rightarrow> (string \<Rightarrow> 'w \<Rightarrow> goerr option \<times> 'w) \<Rightarrow> 'a \<Rightarrow> 'w \<Rightarrow> goerr option \<times> 'w" where
  "print_yaml marshal write x w =
     (case marshal x of
        Inl err \<Rightarrow> (Some (Chained (''marshaling YAML: '' @ Error err) (Some err)), w)
      | Inr data \<Rightarrow> write data w)"

definition PrintJSON where
  "PrintJSON marshal write (ifos :: ifo list) = print_json marshal write ifos"
definition PrintYAML where
  "PrintYAML marshal write (ifos :: ifo list) = print_yaml marshal write ifos"
definition PrintJSONSingle where
  "PrintJSONSingle marshal write (x :: ifo) = print_json marshal write x"
definition PrintYAMLSingle where
  "PrintYAMLSingle marshal write (x :: ifo) = print_yaml marshal write x"

section \<open>Recursions over a tree\<close>

lemma tree_fuel_induct:
  assumes con: "consistent h"
    and step: "\<And>fuel n. n < length h \<Longrightarrow> (\<And>c. c \<in> set (n_Children (h ! n)) \<Longrightarrow> c < length h \<and> P fuel c) \<Longrightarrow> P (Suc fuel) n"
  shows "n < length h \<Longrightarrow> at_depth h n d \<Longrightarrow> length h \<le> d + fuel \<Longrightarrow> P fuel n"
proof (induction fuel arbitrary: n d)
  case 0
  with depth_bound [OF _ con] show ?case by fastforce
next
  case (Suc fuel)
  have "c < length h \<and> P fuel c" if "c \<in> set (n_Children (h ! n))" for c
  proof -
    have c: "c < length h" "n_Parent (h ! c) = Some n" using consistentD(1) [OF con Suc.prems(1) that] by blast+
    moreover have "at_depth h c (Suc d)" using c(2) Suc.prems(2) by (rule at_depth.under)
    ultimately show ?thesis using Suc.IH Suc.prems(3) by simp
  qed
  with step Suc.prems(1) show ?case by blast
qed

lemma those_map_Some: "(\<And>x. x \<in> set xs \<Longrightarrow> f x = Some (g x)) \<Longrightarrow> those (map f xs) = Some (map g xs)"
  by (induction xs) auto

lemma map2_concat:
  "(\<And>x. x \<in> set xs \<Longrightarrow> length (a x) = length (b x)) \<Longrightarrow>
   map2 f (concat (map a xs)) (concat (map b xs)) = concat (map (\<lambda>x. map2 f (a x) (b x)) xs) \<and>
   set (zip (concat (map a xs)) (concat (map b xs))) = (\<Union>x \<in> set xs. set (zip (a x) (b x))) \<and>
   length (concat (map a xs)) = length (concat (map b xs))"
  by (induction xs) (auto simp: zip_append)

lemma max_of_ge: "m \<le> max_of m ws \<and> (\<forall>w \<in> set ws. w \<le> max_of m ws)"
proof (induction ws arbitrary: m)
  case Nil
  then show ?case by (simp add: max_of_def)
next
  case (Cons w ws)
  from Cons [of "if m < w then w else m"] have "(if m < w then w else m) \<le> max_of m (w # ws)"
    "\<forall>v \<in> set ws. v \<le> max_of m (w # ws)" by (simp_all add: max_of_def)
  then show ?case by (auto split: if_splits)
qed

lemma connectors_fst: "map fst (connectors cp cs) = cs"
  by (rule nth_equalityI) (simp_all add: connectors_def)

lemma connectors_plain:
  assumes "(c, connector, nextPrefix) \<in> set (connectors cp cs)" and "ESC \<notin> set cp"
  shows "ESC \<notin> set connector \<and> ESC \<notin> set nextPrefix"
  using assms
  by (auto simp: connectors_def ESC_def treeBranch_def treeCorner_def treeBar_def treeBlank_def split: if_splits)

text \<open>
  A subtree is printed as one line per node, in the order of the traversal; the width
  computations bound what stands on those lines, and do not depend on the colours.
\<close>

definition printed_as :: "node list \<Rightarrow> nat \<Rightarrow> nat \<Rightarrow> string \<Rightarrow> string \<Rightarrow> string list \<times> nat list \<times> nat \<times> nat \<Rightarrow> bool" where
  "printed_as h fuel n lp cp r \<longleftrightarrow>
     collectNodes fuel h n = Some (fst (snd r)) \<and> length (fst r) = length (fst (snd r)) \<and>
     computeMaxWidth fuel h n lp cp = Some (fst (snd (snd r))) \<and> computeMaxOpsWidth fuel h n = Some (snd (snd (snd r))) \<and>
     (\<forall>c clk cw ocw. printSubtree fuel c clk h n lp cp cw ocw = Some (map2 (node_line c clk h cw ocw) (fst r) (fst (snd r)))) \<and>
     (\<forall>(p, m) \<in> set (zip (fst r) (fst (snd r))).
        displayWidth p + length (formatSubject (h ! m)) \<le> fst (snd (snd r)) \<and> operationsWidth (h ! m) \<le> snd (snd (snd r))) \<and>
     (ESC \<notin> set lp \<and> ESC \<notin> set cp \<longrightarrow> (\<forall>p \<in> set (fst r). ESC \<notin> set p))"

lemma printed_step:
  assumes "\<And>c. c \<in> set (n_Children (h ! n)) \<Longrightarrow> \<forall>lp cp. \<exists>r. printed_as h fuel c lp cp r"
  shows "\<forall>lp cp. \<exists>r. printed_as h (Suc fuel) n lp cp r"
proof (intro allI)
  fix lp cp
  let ?cs = "n_Children (h ! n)" and ?K = "connectors cp (n_Children (h ! n))"
  have cs: "?cs = map fst ?K" by (simp add: connectors_fst)
  have "\<exists>r. printed_as h fuel (fst k) (fst (snd k)) (snd (snd k)) r" if "k \<in> set ?K" for k
  proof -
    have "fst k \<in> set ?cs" using that by (subst cs) simp
    with assms show ?thesis by blast
  qed
  then have "\<forall>k \<in> set ?K. \<exists>r. printed_as h fuel (fst k) (fst (snd k)) (snd (snd k)) r" by blast
  from bchoice [OF this] obtain G where G: "\<forall>k \<in> set ?K. printed_as h fuel (fst k) (fst (snd k)) (snd (snd k)) (G k)" by blast
  define P N W V where "P k = fst (G k)" and "N k = fst (snd (G k))" and "W k = fst (snd (snd (G k)))" and "V k = snd (snd (snd (G k)))" for k
  have g: "collectNodes fuel h (fst k) = Some (N k)" "length (P k) = length (N k)"
      "computeMaxWidth fuel h (fst k) (fst (snd k)) (snd (snd k)) = Some (W k)" "computeMaxOpsWidth fuel h (fst k) = Some (V k)"
      "printSubtree fuel c clk h (fst k) (fst (snd k)) (snd (snd k)) cw ocw = Some (map2 (node_line c clk h cw ocw) (P k) (N k))"
      "\<forall>(p, m) \<in> set (zip (P k) (N k)). displayWidth p + length (formatSubject (h ! m)) \<le> W k \<and> operationsWidth (h ! m) \<le> V k"
      "ESC \<notin> set (fst (snd k)) \<and> ESC \<notin> set (snd (snd k)) \<Longrightarrow> \<forall>p \<in> set (P k). ESC \<notin> set p"
    if "k \<in> set ?K" for k c clk cw ocw
    using bspec [OF G that] unfolding printed_as_def P_def N_def W_def V_def by blast+
  let ?ps = "lp # concat (map P ?K)" and ?ns = "n # concat (map N ?K)"
  let ?w = "max_of (displayWidth lp + length (formatSubject (h ! n))) (map W ?K)"
  let ?ow = "max_of (operationsWidth (h ! n)) (map V ?K)"
  have zips: "set (zip (concat (map P ?K)) (concat (map N ?K))) = (\<Union>k \<in> set ?K. set (zip (P k) (N k)))"
    and lens: "length (concat (map P ?K)) = length (concat (map N ?K))"
    using map2_concat [of ?K P N, OF g(2)] by blast+
  have "those (map (collectNodes fuel h) ?cs) = Some (map N ?K)"
    by (subst cs, subst map_map) (rule those_map_Some, simp add: g(1))
  then have 1: "collectNodes (Suc fuel) h n = Some ?ns" by simp
  have "those (map (\<lambda>(c, connector, nextPrefix). computeMaxWidth fuel h c connector nextPrefix) ?K) = Some (map W ?K)"
    by (rule those_map_Some) (simp add: g(3) split_beta)
  then have 2: "computeMaxWidth (Suc fuel) h n lp cp = Some ?w" by simp
  have "those (map (computeMaxOpsWidth fuel h) ?cs) = Some (map V ?K)"
    by (subst cs, subst map_map) (rule those_map_Some, simp add: g(4))
  then have 3: "computeMaxOpsWidth (Suc fuel) h n = Some ?ow" by simp
  have 4: "printSubtree (Suc fuel) c clk h n lp cp cw ocw = Some (map2 (node_line c clk h cw ocw) ?ps ?ns)" for c clk cw ocw
  proof -
    have "those (map (\<lambda>(ch, connector, nextPrefix). printSubtree fuel c clk h ch connector nextPrefix cw ocw) ?K) =
        Some (map (\<lambda>k. map2 (node_line c clk h cw ocw) (P k) (N k)) ?K)"
      by (rule those_map_Some) (simp add: g(5) split_beta)
    moreover have "map2 (node_line c clk h cw ocw) (concat (map P ?K)) (concat (map N ?K)) =
        concat (map (\<lambda>k. map2 (node_line c clk h cw ocw) (P k) (N k)) ?K)"
      using map2_concat [of ?K P N, OF g(2)] by blast
    ultimately show ?thesis by (simp only: printSubtree.simps option.case zip_Cons_Cons list.map prod.case)
  qed
  have 5: "displayWidth p + length (formatSubject (h ! m)) \<le> ?w \<and> operationsWidth (h ! m) \<le> ?ow"
    if "(p, m) \<in> set (zip ?ps ?ns)" for p m
  proof (cases "(p, m) = (lp, n)")
    case True
    then show ?thesis using max_of_ge by simp
  next
    case False
    with that have "(p, m) \<in> set (zip (concat (map P ?K)) (concat (map N ?K)))" by auto
    then obtain k where k: "k \<in> set ?K" "(p, m) \<in> set (zip (P k) (N k))" unfolding zips by blast
    then have "displayWidth p + length (formatSubject (h ! m)) \<le> W k" "operationsWidth (h ! m) \<le> V k" using g(6) by blast+
    moreover have "W k \<le> ?w" "V k \<le> ?ow" using k(1) max_of_ge by auto
    ultimately show ?thesis by linarith
  qed
  have 6: "ESC \<notin> set p" if "p \<in> set ?ps" "ESC \<notin> set lp \<and> ESC \<notin> set cp" for p
  proof (cases "p = lp")
    case True
    with that show ?thesis by simp
  next
    case False
    with that(1) obtain k where k: "k \<in> set ?K" "p \<in> set (P k)" by auto
    obtain a b d where "k = (a, b, d)" by (cases k)
    with connectors_plain [of a b d cp ?cs] k(1) that(2) have "ESC \<notin> set (fst (snd k)) \<and> ESC \<notin> set (snd (snd k))" by simp
    with g(7) k show ?thesis by blast
  qed
  have "printed_as h (Suc fuel) n lp cp (?ps, ?ns, ?w, ?ow)"
    unfolding printed_as_def fst_conv snd_conv
  proof (intro conjI allI impI ballI)
    show "length ?ps = length ?ns" using lens by simp
    fix x assume x: "x \<in> set (zip ?ps ?ns)"
    obtain p m where "x = (p, m)" by force
    with x 5 [of p m] show "case x of (p, m) \<Rightarrow> displayWidth p + length (formatSubject (h ! m)) \<le> ?w \<and> operationsWidth (h ! m) \<le> ?ow"
      by blast
  qed (use 1 2 3 4 6 in blast)+
  then show "\<exists>r. printed_as h (Suc fuel) n lp cp r" by blast
qed

lemma printed:
  assumes "consistent h" and "n < length h" and "at_depth h n d" and "length h \<le> d + fuel"
  shows "\<exists>r. printed_as h fuel n lp cp r"
proof -
  have "\<forall>lp cp. \<exists>r. printed_as h fuel n lp cp r"
    by (rule tree_fuel_induct [OF assms(1) _ assms(2-4), where P = "\<lambda>fuel n. \<forall>lp cp. \<exists>r. printed_as h fuel n lp cp r"])
      (use printed_step in blast)
  then show ?thesis by blast
qed

section \<open>Colours do not change the layout\<close>

text \<open>What a terminal shows of a string: everything but the escape sequences.\<close>

fun vis :: "bool \<Rightarrow> string \<Rightarrow> string" where
  "vis inEsc [] = []"
| "vis True (c # cs) = vis (c \<noteq> CHR ''m'') cs"
| "vis False (c # cs) = (if c = ESC then vis True cs else c # vis False cs)"

definition shows_as :: "string \<Rightarrow> string \<Rightarrow> bool" where
  "shows_as s t \<longleftrightarrow> (\<forall>r. vis False (s @ r) = t @ vis False r)"

lemma shows_as_vis: "shows_as s t \<Longrightarrow> vis False s = t"
  unfolding shows_as_def by (metis append_Nil2 vis.simps(1))

lemma shows_as_append: "shows_as s t \<Longrightarrow> shows_as s' t' \<Longrightarrow> shows_as (s @ s') (t @ t')"
  by (simp add: shows_as_def)

lemma shows_as_plain: "ESC \<notin> set s \<Longrightarrow> shows_as s s"
  by (induction s) (auto simp: shows_as_def)

lemma shows_as_Cons: "c \<noteq> ESC \<Longrightarrow> shows_as s t \<Longrightarrow> shows_as (c # s) (c # t)"
  by (simp add: shows_as_def)

lemma shows_as_ansi:
  "shows_as ansi_reset []" "shows_as ansi_bold []" "shows_as ansi_dim []" "shows_as ansi_red []" "shows_as ansi_green []"
  "shows_as ansi_yellow []" "shows_as ansi_cyan []" "shows_as ansi_brightYellow []"
  by (simp_all add: shows_as_def ansi_defs)

lemma shows_as_paint:
  assumes "ESC \<notin> set s"
  shows "shows_as (Bold c s) s" "shows_as (Dim c s) s" "shows_as (Green c s) s" "shows_as (Red c s) s"
    "shows_as (Yellow c s) s" "shows_as (Cyan c s) s" "shows_as (BrightYellow c s) s"
  using shows_as_plain [OF assms] shows_as_append [OF shows_as_append [OF _ shows_as_plain [OF assms]] shows_as_ansi(1)] shows_as_ansi
  unfolding paint_defs by fastforce+

lemma shows_as_Join:
  "list_all2 shows_as ss ts \<Longrightarrow> ESC \<notin> set sep \<Longrightarrow> shows_as (strings_Join ss sep) (strings_Join ts sep)"
proof (induction ss sep arbitrary: ts rule: strings_Join.induct)
  case (1 sep)
  then show ?case by (simp add: shows_as_def)
next
  case (2 x sep)
  then show ?case by (auto simp: list_all2_Cons1)
next
  case (3 x y zs sep)
  then obtain t u us where "ts = t # u # us" "shows_as x t" "list_all2 shows_as (y # zs) (u # us)"
    by (auto simp: list_all2_Cons1)
  with 3 show ?case by (simp add: shows_as_append shows_as_plain)
qed

lemma dec_plain: "ESC \<notin> set (dec n)"
proof (induction n rule: dec.induct)
  case (1 n)
  have "ESC \<noteq> char_of (48 + k)" if "k < 10" for k :: nat
  proof
    assume "ESC = char_of (48 + k)"
    then have "of_char ESC = (of_char (char_of (48 + k) :: char) :: nat)" by (rule arg_cong)
    with that show False by (simp add: ESC_def)
  qed
  with 1 show ?case by (subst dec.simps) auto
qed

lemma show_int_plain: "ESC \<notin> set (show_int i)"
  by (simp add: show_int_def dec_plain) (simp add: ESC_def)

lemma FormatAge_plain: "ESC \<notin> set (FormatAge now t)"
  by (simp add: FormatAge_def Let_def show_int_plain) (simp add: ESC_def)

text \<open>A node whose own strings hold no escape character.\<close>

definition plain_ifo :: "ifo \<Rightarrow> bool" where
  "plain_ifo x \<longleftrightarrow> (let subj = is_Subject (ifo_Spec x) in
     ESC \<notin> set (is_Operation (ifo_Spec x)) \<and> ESC \<notin> set (is_Component (ifo_Spec x)) \<and> ESC \<notin> set (sr_Kind subj) \<and>
     ESC \<notin> set (sr_Name subj) \<and> ESC \<notin> set (sr_Namespace subj))"

definition plain_node :: "node \<Rightarrow> bool" where
  "plain_node n \<longleftrightarrow> plain_ifo (n_IFO n) \<and> (\<forall>x \<in> set (n_Siblings n). plain_ifo x)"

definition no_color :: color_writer where "no_color = \<lparr>Enabled = False\<rparr>"

lemma no_color_paint [simp]:
  "Bold no_color s = s" "Dim no_color s = s" "Green no_color s = s" "Red no_color s = s" "Yellow no_color s = s"
  "Cyan no_color s = s" "BrightYellow no_color s = s"
  by (simp_all add: paint_defs no_color_def)

lemma no_color_colorize [simp]: "colorizeOperation no_color = (\<lambda>s. s)"
  by (simp add: colorizeOperation_def fun_eq_iff)

lemma formatOperations_shows: "plain_node n \<Longrightarrow> shows_as (formatOperations c n) (formatOperations no_color n)"
proof -
  assume pl: "plain_node n"
  have "shows_as (colorizeOperation c s) s" if "s \<in> set (node_ops n)" for s
  proof -
    have "ESC \<notin> set s" using pl that by (auto simp: node_ops_def plain_node_def plain_ifo_def Let_def)
    then show ?thesis using shows_as_paint by (simp add: colorizeOperation_def)
  qed
  then have "list_all2 shows_as (map (colorizeOperation c) (node_ops n)) (node_ops n)"
    by (simp add: list_all2_conv_all_nth)
  then show ?thesis unfolding formatOperations_def no_color_colorize list.map_ident
    by (rule shows_as_Join) (simp add: ESC_def)
qed

lemma node_line_shows:
  assumes "plain_node (h ! n)" and "ESC \<notin> set linePrefix"
  shows "shows_as (node_line c clk h cw ocw linePrefix n) (node_line no_color clk h cw ocw linePrefix n)"
proof -
  have "shows_as (spaces k) (spaces k)" for k by (rule shows_as_plain) (simp add: spaces_def ESC_def)
  moreover have "shows_as (formatSubject (h ! n)) (formatSubject (h ! n))"
    using assms(1) by (intro shows_as_plain) (simp add: formatSubject_def plain_node_def plain_ifo_def Let_def ESC_def)
  moreover have "shows_as ''  '' ''  ''" by (rule shows_as_plain) (simp add: ESC_def)
  moreover have "shows_as (formatAge c (clk n) (h ! n)) (formatAge no_color (clk n) (h ! n))"
    unfolding formatAge_def no_color_paint using FormatAge_plain by (rule shows_as_paint)
  ultimately show ?thesis
    unfolding node_line_def Let_def
    using shows_as_plain [OF assms(2)] formatOperations_shows [OF assms(1)] by (intro shows_as_append)
qed

lemma printed_roots:
  assumes ok: "forest_ok f" and fuel: "length (f_nodes f) \<le> fuel" and r: "r \<in> set (f_Roots f)"
  shows "\<exists>p. printed_as (f_nodes f) fuel r lp cp p"
proof -
  have "consistent (f_nodes f)" "r < length (f_nodes f)" "at_depth (f_nodes f) r 0"
    using ok r by (auto simp: forest_ok_def intro: at_depth.top)
  then show ?thesis using printed [of "f_nodes f" r 0 fuel] fuel by simp
qed

lemma print_namespaces_shows:
  assumes "\<And>ns roots r. (ns, roots) \<in> set nss \<Longrightarrow> r \<in> set roots \<Longrightarrow>
      \<exists>ls. pr r = Some ls \<and> pr' r = Some (map (vis False) ls)"
    and "\<And>ns roots. (ns, roots) \<in> set nss \<Longrightarrow> ESC \<notin> set ns"
  shows "\<exists>ls. print_namespaces pr c nss = Some ls \<and> print_namespaces pr' no_color nss = Some (map (vis False) ls)"
  using assms
proof (induction nss)
  case Nil
  then show ?case by simp
next
  case (Cons p nss)
  obtain ns roots where p: "p = (ns, roots)" by force
  from Cons obtain ls where ls: "print_namespaces pr c nss = Some ls" "print_namespaces pr' no_color nss = Some (map (vis False) ls)"
    by (metis list.set_intros(2))
  have "\<forall>r \<in> set roots. \<exists>l. pr r = Some l \<and> pr' r = Some (map (vis False) l)" using Cons.prems(1) [of ns roots] p by auto
  then obtain G where G: "\<forall>r \<in> set roots. pr r = Some (G r) \<and> pr' r = Some (map (vis False) (G r))" by metis
  have "those (map pr roots) = Some (map G roots)" by (rule those_map_Some) (use G in blast)
  moreover have "those (map pr' roots) = Some (map (map (vis False) \<circ> G) roots)" by (rule those_map_Some) (use G in auto)
  moreover have "vis False (''  '' @ BrightYellow c ns) = ''  '' @ ns"
    using Cons.prems(2) [of ns roots] p shows_as_paint(7) [of ns c]
    by (intro shows_as_vis shows_as_append shows_as_plain) (auto simp: ESC_def)
  ultimately show ?case using ls p by (simp add: map_concat)
qed

lemma print_components_shows:
  assumes "\<And>compo nss ns roots r. (compo, nss) \<in> set cs \<Longrightarrow> (ns, roots) \<in> set nss \<Longrightarrow> r \<in> set roots \<Longrightarrow>
      \<exists>ls. pr r = Some ls \<and> pr' r = Some (map (vis False) ls)"
    and "\<And>compo nss ns roots. (compo, nss) \<in> set cs \<Longrightarrow> (ns, roots) \<in> set nss \<Longrightarrow> ESC \<notin> set ns"
    and "\<And>compo nss. (compo, nss) \<in> set cs \<Longrightarrow> ESC \<notin> set compo"
  shows "\<exists>ls. print_components pr c first cs = Some ls \<and> print_components pr' no_color first cs = Some (map (vis False) ls)"
  using assms
proof (induction cs arbitrary: first)
  case Nil
  then show ?case by simp
next
  case (Cons p cs)
  obtain compo nss where p: "p = (compo, nss)" by force
  have "\<exists>ls. print_components pr c False cs = Some ls \<and> print_components pr' no_color False cs = Some (map (vis False) ls)"
    using Cons.prems by (intro Cons.IH) (metis list.set_intros(2))+
  then obtain ls where ls: "print_components pr c False cs = Some ls" "print_components pr' no_color False cs = Some (map (vis False) ls)"
    by blast
  have "\<exists>ls. print_namespaces pr c nss = Some ls \<and> print_namespaces pr' no_color nss = Some (map (vis False) ls)"
    using Cons.prems(1,2) p by (intro print_namespaces_shows) (metis list.set_intros(1))+
  then obtain l where l: "print_namespaces pr c nss = Some l" "print_namespaces pr' no_color nss = Some (map (vis False) l)" by blast
  have "vis False (Bold c compo) = compo"
    using Cons.prems(3) [of compo nss] p by (intro shows_as_vis shows_as_paint) simp
  with l ls p show ?case by simp
qed

section \<open>Grouping the roots\<close>

definition in_ns :: "node list \<Rightarrow> string \<Rightarrow> string \<Rightarrow> nat \<Rightarrow> bool" where
  "in_ns h compo ns r \<longleftrightarrow> root_component (h ! r) = compo \<and> rootNamespace (h ! r) = ns"

text \<open>What the grouping loop has filed after the roots \<open>done\<close>.\<close>

definition grouped :: "node list \<Rightarrow> nat list \<Rightarrow> (string \<rightharpoonup> comp_group) \<Rightarrow> string list \<Rightarrow> bool" where
  "grouped h seen groups compOrder \<longleftrightarrow>
     distinct compOrder \<and> set compOrder = dom groups \<and> dom groups = (\<lambda>r. root_component (h ! r)) ` set seen \<and>
     (\<forall>compo cg. groups compo = Some cg \<longrightarrow>
        distinct (cg_nsOrder cg) \<and>
        (\<forall>ns. ns \<in> set (cg_nsOrder cg) \<longleftrightarrow> filter (in_ns h compo ns) seen \<noteq> []) \<and>
        (\<forall>ns. cg_namespaces cg ns = (if filter (in_ns h compo ns) seen = [] then None else Some (filter (in_ns h compo ns) seen))))"

lemma grouped_start: "grouped h [] Map.empty []"
  by (simp add: grouped_def)

lemma grouped_step:
  assumes g: "grouped h seen groups compOrder"
    and cg: "(cg, compOrder') = (case groups (root_component (h ! r)) of
             Some cg \<Rightarrow> (cg, compOrder)
           | None \<Rightarrow> (\<lparr>cg_namespaces = Map.empty, cg_nsOrder = []\<rparr>, compOrder @ [root_component (h ! r)]))"
    and cg': "cg' = (if cg_namespaces cg (rootNamespace (h ! r)) = None
      then cg\<lparr>cg_nsOrder := cg_nsOrder cg @ [rootNamespace (h ! r)]\<rparr> else cg)"
  shows "grouped h (seen @ [r]) (groups(root_component (h ! r) \<mapsto> cg'\<lparr>cg_namespaces := (cg_namespaces cg')(rootNamespace (h ! r) \<mapsto>
             (case cg_namespaces cg' (rootNamespace (h ! r)) of None \<Rightarrow> [] | Some ns \<Rightarrow> ns) @ [r])\<rparr>)) compOrder'"
proof -
  let ?c = "root_component (h ! r)" and ?n = "rootNamespace (h ! r)"
  have mine: "distinct (cg_nsOrder cg)" "\<And>ns. ns \<in> set (cg_nsOrder cg) \<longleftrightarrow> filter (in_ns h ?c ns) seen \<noteq> []"
    "\<And>ns. cg_namespaces cg ns = (if filter (in_ns h ?c ns) seen = [] then None else Some (filter (in_ns h ?c ns) seen))"
  proof -
    have "filter (in_ns h ?c ns) seen = []" if "groups ?c = None" for ns
    proof -
      have "?c \<notin> (\<lambda>r. root_component (h ! r)) ` set seen" using g that unfolding grouped_def by blast
      then have "\<forall>x \<in> set seen. root_component (h ! x) \<noteq> ?c" by (metis image_eqI)
      then show ?thesis by (simp add: filter_empty_conv in_ns_def)
    qed
    moreover have "distinct (cg_nsOrder cg) \<and> (\<forall>ns. ns \<in> set (cg_nsOrder cg) \<longleftrightarrow> filter (in_ns h ?c ns) seen \<noteq> []) \<and>
        (\<forall>ns. cg_namespaces cg ns = (if filter (in_ns h ?c ns) seen = [] then None else Some (filter (in_ns h ?c ns) seen)))"
      if "groups ?c = Some cg0" for cg0
    proof -
      have "cg = cg0" using cg that by simp
      then show ?thesis using g that unfolding grouped_def by blast
    qed
    ultimately have "distinct (cg_nsOrder cg) \<and> (\<forall>ns. ns \<in> set (cg_nsOrder cg) \<longleftrightarrow> filter (in_ns h ?c ns) seen \<noteq> []) \<and>
        (\<forall>ns. cg_namespaces cg ns = (if filter (in_ns h ?c ns) seen = [] then None else Some (filter (in_ns h ?c ns) seen)))"
      using cg by (cases "groups ?c") auto
    then show "distinct (cg_nsOrder cg)" "\<And>ns. ns \<in> set (cg_nsOrder cg) \<longleftrightarrow> filter (in_ns h ?c ns) seen \<noteq> []"
      "\<And>ns. cg_namespaces cg ns = (if filter (in_ns h ?c ns) seen = [] then None else Some (filter (in_ns h ?c ns) seen))" by blast+
  qed
  have order: "distinct compOrder'" "set compOrder' = insert ?c (dom groups)"
    using g cg by (auto simp: grouped_def split: option.splits)
  have new: "filter (in_ns h compo ns) (seen @ [r]) =
      (if compo = ?c \<and> ns = ?n then filter (in_ns h compo ns) seen @ [r] else filter (in_ns h compo ns) seen)" for compo ns
    by (auto simp: in_ns_def)
  have mem: "in_ns h compo ns r \<longleftrightarrow> compo = ?c \<and> ns = ?n" for compo ns
    by (auto simp: in_ns_def)
  let ?cg = "cg'\<lparr>cg_namespaces := (cg_namespaces cg')(?n \<mapsto> (case cg_namespaces cg' ?n of None \<Rightarrow> [] | Some ns \<Rightarrow> ns) @ [r])\<rparr>"
  have 1: "distinct (cg_nsOrder ?cg)" using mine by (auto simp: cg')
  have 2: "ns \<in> set (cg_nsOrder ?cg) \<longleftrightarrow> filter (in_ns h ?c ns) (seen @ [r]) \<noteq> []" for ns
    using mine(2,3) by (cases "ns = ?n") (auto simp: cg' mem)
  have 3: "cg_namespaces ?cg ns = (if filter (in_ns h ?c ns) (seen @ [r]) = [] then None else Some (filter (in_ns h ?c ns) (seen @ [r])))" for ns
    using mine(3) by (cases "ns = ?n") (auto simp: cg' mem)
  have other: "distinct (cg_nsOrder x) \<and> (\<forall>ns. ns \<in> set (cg_nsOrder x) \<longleftrightarrow> filter (in_ns h compo ns) (seen @ [r]) \<noteq> []) \<and>
        (\<forall>ns. cg_namespaces x ns = (if filter (in_ns h compo ns) (seen @ [r]) = [] then None else Some (filter (in_ns h compo ns) (seen @ [r]))))"
    if "groups compo = Some x" "compo \<noteq> ?c" for compo x
    using g that unfolding grouped_def new by simp
  have "dom groups = (\<lambda>r. root_component (h ! r)) ` set seen" using g by (simp add: grouped_def)
  then have "dom (groups(?c \<mapsto> ?cg)) = (\<lambda>r. root_component (h ! r)) ` set (seen @ [r])" by simp
  moreover have "set compOrder' = dom (groups(?c \<mapsto> ?cg))" using order(2) by simp
  moreover have "distinct (cg_nsOrder x) \<and> (\<forall>ns. ns \<in> set (cg_nsOrder x) \<longleftrightarrow> filter (in_ns h compo ns) (seen @ [r]) \<noteq> []) \<and>
        (\<forall>ns. cg_namespaces x ns = (if filter (in_ns h compo ns) (seen @ [r]) = [] then None else Some (filter (in_ns h compo ns) (seen @ [r]))))"
    if "(groups(?c \<mapsto> ?cg)) compo = Some x" for compo x
  proof (cases "compo = ?c")
    case True
    with that have "x = ?cg" by simp
    with True 1 2 3 show ?thesis by blast
  next
    case False
    with that other show ?thesis by simp
  qed
  ultimately show ?thesis using order(1) unfolding grouped_def by blast
qed

lemma group_roots_grouped:
  "grouped h seen groups compOrder \<Longrightarrow> group_roots h roots groups compOrder = (groups', compOrder') \<Longrightarrow>
   grouped h (seen @ roots) groups' compOrder'"
proof (induction roots arbitrary: seen groups compOrder)
  case Nil
  then show ?case by simp
next
  case (Cons r roots)
  obtain cg co where cg: "(cg, co) = (case groups (root_component (h ! r)) of
             Some cg \<Rightarrow> (cg, compOrder)
           | None \<Rightarrow> (\<lparr>cg_namespaces = Map.empty, cg_nsOrder = []\<rparr>, compOrder @ [root_component (h ! r)]))" by (metis surj_pair)
  let ?cg = "if cg_namespaces cg (rootNamespace (h ! r)) = None
      then cg\<lparr>cg_nsOrder := cg_nsOrder cg @ [rootNamespace (h ! r)]\<rparr> else cg"
  have "group_roots h roots (groups(root_component (h ! r) \<mapsto> ?cg\<lparr>cg_namespaces := (cg_namespaces ?cg)(rootNamespace (h ! r) \<mapsto>
             (case cg_namespaces ?cg (rootNamespace (h ! r)) of None \<Rightarrow> [] | Some ns \<Rightarrow> ns) @ [r])\<rparr>)) co = (groups', compOrder')"
    using Cons.prems(2) by (simp only: group_roots.simps Let_def cg [symmetric] prod.case)
  from Cons.IH [OF grouped_step [OF Cons.prems(1) cg refl] this] show ?case by simp
qed

lemma mset_concat_classes:
  "distinct ks \<Longrightarrow> f ` set xs \<subseteq> set ks \<Longrightarrow> mset (concat (map (\<lambda>k. filter (\<lambda>x. f x = k) xs) ks)) = mset xs"
proof (induction ks arbitrary: xs)
  case Nil
  then show ?case by simp
next
  case (Cons k ks)
  let ?xs = "filter (\<lambda>x. f x \<noteq> k) xs"
  have "filter (\<lambda>x. f x = k') xs = filter (\<lambda>x. f x = k') ?xs" if "k' \<in> set ks" for k'
    using Cons.prems(1) that by (auto intro: filter_cong)
  then have "map (\<lambda>k'. filter (\<lambda>x. f x = k') xs) ks = map (\<lambda>k'. filter (\<lambda>x. f x = k') ?xs) ks" by simp
  moreover have "mset (concat (map (\<lambda>k'. filter (\<lambda>x. f x = k') ?xs) ks)) = mset ?xs"
    using Cons.prems by (intro Cons.IH) auto
  ultimately have "mset (concat (map (\<lambda>k. filter (\<lambda>x. f x = k) xs) (k # ks))) = mset (filter (\<lambda>x. f x = k) xs) + mset ?xs"
    by (simp only: list.map concat.simps mset_append)
  also have "\<dots> = mset xs" by (induction xs) auto
  finally show ?case .
qed

lemma layout_spec:
  assumes g: "grouped h roots groups compOrder"
  shows "map fst (layout groups compOrder) = compOrder"
    and "(compo, nss) \<in> set (layout groups compOrder) \<Longrightarrow> sorted (map fst nss) \<and> distinct (map fst nss) \<and>
      (\<forall>(ns, rs) \<in> set nss. rs = filter (in_ns h compo ns) roots \<and> rs \<noteq> [])"
    and "mset (concat (map (\<lambda>(compo, nss). concat (map snd nss)) (layout groups compOrder))) = mset roots"
proof -
  define nss where "nss compo = (let cg = (case groups compo of None \<Rightarrow> \<lparr>cg_namespaces = Map.empty, cg_nsOrder = []\<rparr> | Some cg \<Rightarrow> cg) in
    map (\<lambda>ns. (ns, case cg_namespaces cg ns of None \<Rightarrow> [] | Some ns \<Rightarrow> ns)) (sort_strings (cg_nsOrder cg)))" for compo
  have lay: "layout groups compOrder = map (\<lambda>compo. (compo, nss compo)) compOrder"
    by (simp add: layout_def nss_def Let_def)
  show "map fst (layout groups compOrder) = compOrder" by (simp add: lay comp_def)
  have each: "sorted (map fst (nss compo)) \<and> distinct (map fst (nss compo)) \<and>
      (\<forall>(ns, rs) \<in> set (nss compo). rs = filter (in_ns h compo ns) roots \<and> rs \<noteq> []) \<and>
      (\<forall>r \<in> set roots. root_component (h ! r) = compo \<longrightarrow> rootNamespace (h ! r) \<in> set (map fst (nss compo)))" if "compo \<in> set compOrder" for compo
  proof -
    have "compo \<in> dom groups" using g that unfolding grouped_def by blast
    then obtain cg where cg: "groups compo = Some cg" by blast
    with g have c: "distinct (cg_nsOrder cg)" "\<And>ns. ns \<in> set (cg_nsOrder cg) \<longleftrightarrow> filter (in_ns h compo ns) roots \<noteq> []"
      "\<And>ns. cg_namespaces cg ns = (if filter (in_ns h compo ns) roots = [] then None else Some (filter (in_ns h compo ns) roots))"
      unfolding grouped_def by blast+
    have n: "nss compo = map (\<lambda>ns. (ns, filter (in_ns h compo ns) roots)) (sort_strings (cg_nsOrder cg))"
      by (simp add: nss_def cg c(3))
    have m: "map fst (nss compo) = sort_strings (cg_nsOrder cg)" by (simp add: n comp_def)
    have "rootNamespace (h ! r) \<in> set (cg_nsOrder cg)" if "r \<in> set roots" "root_component (h ! r) = compo" for r
      using that c(2) by (auto simp: filter_empty_conv in_ns_def)
    then show ?thesis unfolding m using c(1,2) sorted_sort_strings by (auto simp: n)
  qed
  show "(compo, nss') \<in> set (layout groups compOrder) \<Longrightarrow> sorted (map fst nss') \<and> distinct (map fst nss') \<and>
      (\<forall>(ns, rs) \<in> set nss'. rs = filter (in_ns h compo ns) roots \<and> rs \<noteq> [])" for nss'
    using each unfolding lay by fastforce
  have inner: "mset (concat (map snd (nss compo))) = mset (filter (\<lambda>r. root_component (h ! r) = compo) roots)" if "compo \<in> set compOrder" for compo
  proof -
    let ?rs = "filter (\<lambda>r. root_component (h ! r) = compo) roots"
    have "snd p = filter (\<lambda>r. rootNamespace (h ! r) = fst p) ?rs" if "p \<in> set (nss compo)" for p
    proof -
      have "snd p = filter (in_ns h compo (fst p)) roots" using each [OF \<open>compo \<in> set compOrder\<close>] that by auto
      then show ?thesis by (simp add: in_ns_def [abs_def])
    qed
    then have "map snd (nss compo) = map (\<lambda>ns. filter (\<lambda>r. rootNamespace (h ! r) = ns) ?rs) (map fst (nss compo))" by simp
    moreover have "mset (concat (map (\<lambda>ns. filter (\<lambda>r. rootNamespace (h ! r) = ns) ?rs) (map fst (nss compo)))) = mset ?rs"
      using each [OF that] by (intro mset_concat_classes) auto
    ultimately show ?thesis by (simp only:)
  qed
  have "mset (concat (map (\<lambda>(compo, nss). concat (map snd nss)) (layout groups compOrder))) =
      mset (concat (map (\<lambda>compo. concat (map snd (nss compo))) compOrder))" by (simp add: lay comp_def)
  also have "\<dots> = (\<Sum>compo \<leftarrow> compOrder. mset (concat (map snd (nss compo))))" by (induction compOrder) auto
  also have "\<dots> = (\<Sum>compo \<leftarrow> compOrder. mset (filter (\<lambda>r. root_component (h ! r) = compo) roots))"
    using inner by (metis (mono_tags, lifting) map_eq_conv)
  also have "\<dots> = mset (concat (map (\<lambda>compo. filter (\<lambda>r. root_component (h ! r) = compo) roots) compOrder))"
    by (induction compOrder) auto
  also have "\<dots> = mset roots"
    using g by (intro mset_concat_classes) (auto simp: grouped_def)
  finally show "mset (concat (map (\<lambda>(compo, nss). concat (map snd nss)) (layout groups compOrder))) = mset roots" .
qed

section \<open>Properties\<close>

text \<open>
  A printed line of a node: the subject after its prefix, the operations from column \<open>colW\<close> on and the age
  \<open>opW\<close> columns after them.
\<close>

definition aligned :: "color_writer \<Rightarrow> time \<Rightarrow> node \<Rightarrow> nat \<Rightarrow> nat \<Rightarrow> string \<Rightarrow> bool" where
  "aligned c now n colW opW line \<longleftrightarrow>
     (\<exists>prefix k q. line = prefix @ formatSubject n @ spaces k @ formatOperations c n @ spaces q @ ''  '' @ formatAge c now n \<and>
        displayWidth prefix + length (formatSubject n) + k = colW \<and> 2 \<le> k \<and> operationsWidth n + q = opW)"

lemma node_line_aligned:
  assumes "displayWidth prefix + length (formatSubject (h ! n)) + 2 \<le> colW" and "operationsWidth (h ! n) \<le> opW"
  shows "aligned c (clk n) (h ! n) colW opW (node_line c clk h colW opW prefix n)"
proof -
  have "nat (max (int colW - int (displayWidth prefix) - int (length (formatSubject (h ! n)))) 2) =
      colW - displayWidth prefix - length (formatSubject (h ! n))"
    "nat (max (int opW - int (operationsWidth (h ! n))) 0) = opW - operationsWidth (h ! n)" using assms by linarith+
  then have "node_line c clk h colW opW prefix n =
      prefix @ formatSubject (h ! n) @ spaces (colW - displayWidth prefix - length (formatSubject (h ! n))) @
        formatOperations c (h ! n) @ spaces (opW - operationsWidth (h ! n)) @ ''  '' @ formatAge c (clk n) (h ! n)"
    by (simp only: node_line_def Let_def)
  with assms show ?thesis unfolding aligned_def
    by (intro exI [of _ prefix] exI [of _ "colW - displayWidth prefix - length (formatSubject (h ! n))"]
        exI [of _ "opW - operationsWidth (h ! n)"]) simp
qed

lemma printed_aligned:
  assumes pr: "printed_as h fuel n lp cp r" and "fst (snd (snd r)) + 2 \<le> colW" and "snd (snd (snd r)) \<le> opW"
  shows "\<exists>ls. printSubtree fuel c clk h n lp cp colW opW = Some ls \<and>
    list_all2 (\<lambda>m line. aligned c (clk m) (h ! m) colW opW line) (fst (snd r)) ls"
proof -
  obtain ps ns w ow where r: "r = (ps, ns, w, ow)" by (metis surj_pair)
  have len: "length ps = length ns"
    and out: "printSubtree fuel c clk h n lp cp colW opW = Some (map2 (node_line c clk h colW opW) ps ns)"
    and fit: "\<And>p m. (p, m) \<in> set (zip ps ns) \<Longrightarrow> displayWidth p + length (formatSubject (h ! m)) \<le> w \<and> operationsWidth (h ! m) \<le> ow"
    using pr unfolding printed_as_def r fst_conv snd_conv by blast+
  have "aligned c (clk (ns ! i)) (h ! (ns ! i)) colW opW (map2 (node_line c clk h colW opW) ps ns ! i)" if "i < length ns" for i
  proof -
    have "(ps ! i, ns ! i) \<in> set (zip ps ns)" using that len by (auto simp: in_set_zip)
    then have "aligned c (clk (ns ! i)) (h ! (ns ! i)) colW opW (node_line c clk h colW opW (ps ! i) (ns ! i))"
      using fit [of "ps ! i" "ns ! i"] assms(2,3) unfolding r fst_conv snd_conv by (intro node_line_aligned) linarith+
    with that len show ?thesis by simp
  qed
  then show ?thesis using out len by (auto simp: r list_all2_conv_all_nth)
qed

lemma printed_nodes: "printed_as h fuel n lp cp r \<Longrightarrow> collectNodes fuel h n = Some (fst (snd r))"
  by (simp add: printed_as_def)

lemma print_namespaces_total:
  assumes "\<And>r. r \<in> R \<Longrightarrow> \<exists>y. pr r = Some y" and "\<forall>(ns, rs) \<in> set nss. set rs \<subseteq> R"
  shows "\<exists>ls. print_namespaces pr c nss = Some ls"
  using assms(2)
proof (induction nss)
  case Nil
  show ?case by simp
next
  case (Cons p nss)
  obtain ns rs where p: "p = (ns, rs)" by force
  have "\<forall>x \<in> set rs. \<exists>y. pr x = Some y"
  proof
    fix x assume "x \<in> set rs"
    moreover have "set rs \<subseteq> R" using Cons.prems p by simp
    ultimately show "\<exists>y. pr x = Some y" using assms(1) by blast
  qed
  then obtain lss where "those (map pr rs) = Some lss" using those_total by blast
  moreover have "\<forall>(ns, rs) \<in> set nss. set rs \<subseteq> R" using Cons.prems p by simp
  then obtain ls where "print_namespaces pr c nss = Some ls" using Cons.IH by blast
  ultimately show ?case by (simp add: p)
qed

lemma print_components_total:
  assumes "\<And>r. r \<in> R \<Longrightarrow> \<exists>y. pr r = Some y" and "\<forall>(compo, nss) \<in> set L. \<forall>(ns, rs) \<in> set nss. set rs \<subseteq> R"
  shows "print_components pr c first L \<noteq> None"
  using assms(2)
proof (induction L arbitrary: first)
  case Nil
  show ?case by simp
next
  case (Cons p L)
  obtain compo nss where p: "p = (compo, nss)" by force
  have "\<forall>(ns, rs) \<in> set nss. set rs \<subseteq> R" using Cons.prems p by simp
  with assms(1) have "\<exists>ls. print_namespaces pr c nss = Some ls" by (rule print_namespaces_total)
  then obtain ls where ls: "print_namespaces pr c nss = Some ls" ..
  have "\<forall>(compo, nss) \<in> set L. \<forall>(ns, rs) \<in> set nss. set rs \<subseteq> R" using Cons.prems p by simp
  then have "print_components pr c False L \<noteq> None" by (rule Cons.IH)
  with ls show ?case by (auto simp: p)
qed

lemma PrintForest_parts:
  assumes ok: "forest_ok f" and fuel: "length (f_nodes f) \<le> fuel" and ne: "f_Roots f \<noteq> []"
  obtains colW opW groups compOrder where
    "group_roots (f_nodes f) (f_Roots f) Map.empty [] = (groups, compOrder)"
    "\<And>c clk. PrintForest fuel c clk f =
      print_components (\<lambda>root. printSubtree fuel c clk (f_nodes f) root ''    '' ''    '' colW opW) c True (layout groups compOrder)"
    "\<And>r. r \<in> set (f_Roots f) \<Longrightarrow>
      \<exists>p. printed_as (f_nodes f) fuel r ''    '' ''    '' p \<and> fst (snd (snd p)) + 2 \<le> colW \<and> snd (snd (snd p)) \<le> opW"
proof -
  let ?h = "f_nodes f"
  have orph: "f_Orphans f = []" using ok by (simp add: forest_ok_def)
  have "\<forall>r \<in> set (f_Roots f). \<exists>p. printed_as ?h fuel r ''    '' ''    '' p" using printed_roots [OF ok fuel] by blast
  from bchoice [OF this] obtain G where G: "\<forall>r \<in> set (f_Roots f). printed_as ?h fuel r ''    '' ''    '' (G r)" by blast
  let ?W = "\<lambda>r. fst (snd (snd (G r)))" and ?V = "\<lambda>r. snd (snd (snd (G r)))"
  have ws: "those (map (\<lambda>root. computeMaxWidth fuel ?h root ''    '' ''    '') (f_Roots f)) = Some (map ?W (f_Roots f))"
    by (rule those_map_Some) (use G in \<open>simp add: printed_as_def\<close>)
  have vs: "those (map (computeMaxOpsWidth fuel ?h) (f_Roots f)) = Some (map ?V (f_Roots f))"
    by (rule those_map_Some) (use G in \<open>simp add: printed_as_def\<close>)
  obtain groups compOrder where g: "group_roots ?h (f_Roots f) Map.empty [] = (groups, compOrder)" by force
  have "PrintForest fuel c clk f = print_components (\<lambda>root. printSubtree fuel c clk ?h root ''    '' ''    ''
      (max_of 0 (map ?W (f_Roots f)) + 2) (max_of 0 (map ?V (f_Roots f)))) c True (layout groups compOrder)" for c clk
    using ne orph by (simp add: PrintForest_def ws vs g Let_def)
  moreover have "\<exists>p. printed_as ?h fuel r ''    '' ''    '' p \<and> fst (snd (snd p)) + 2 \<le> max_of 0 (map ?W (f_Roots f)) + 2 \<and>
      snd (snd (snd p)) \<le> max_of 0 (map ?V (f_Roots f))" if "r \<in> set (f_Roots f)" for r
    using G that max_of_ge [of 0 "map ?W (f_Roots f)"] max_of_ge [of 0 "map ?V (f_Roots f)"] by (intro exI [of _ "G r"]) auto
  ultimately show ?thesis using that g by blast
qed

text \<open>
  One tree, as \<open>ifo tree --for\<close> prints it: a heading and then one line per node of the tree, in the order
  of the traversal, each with its subject, its operations starting in the same column for all of them
  and its age in another common column.
\<close>

lemma PrintTree_lines:
  assumes "forest_ok f" and "length (f_nodes f) \<le> fuel" and "r \<in> set (f_Roots f)"
  shows "\<exists>ns ls colW opW. collectNodes fuel (f_nodes f) r = Some ns \<and>
    PrintTree fuel c clk (f_nodes f) r = Some (BrightYellow c (rootNamespace (f_nodes f ! r)) # ls) \<and>
    list_all2 (\<lambda>m line. aligned c (clk m) (f_nodes f ! m) colW opW line) ns ls"
proof -
  from printed_roots [OF assms] obtain p where p: "printed_as (f_nodes f) fuel r ''  '' ''  '' p" by blast
  then have w: "computeMaxWidth fuel (f_nodes f) r ''  '' ''  '' = Some (fst (snd (snd p)))"
    "computeMaxOpsWidth fuel (f_nodes f) r = Some (snd (snd (snd p)))" by (simp_all add: printed_as_def)
  from printed_aligned [OF p order_refl order_refl] obtain ls where
    "printSubtree fuel c clk (f_nodes f) r ''  '' ''  '' (fst (snd (snd p)) + 2) (snd (snd (snd p))) = Some ls"
    "list_all2 (\<lambda>m line. aligned c (clk m) (f_nodes f ! m) (fst (snd (snd p)) + 2) (snd (snd (snd p))) line) (fst (snd p)) ls" by blast
  with w printed_nodes [OF p] show ?thesis by (auto simp: PrintTree_def)
qed

lemma PrintForest_total:
  assumes ok: "forest_ok f" and fuel: "length (f_nodes f) \<le> fuel" and ne: "f_Roots f \<noteq> []"
  shows "\<exists>L pr colW opW. PrintForest fuel c clk f = print_components pr c True L \<and> print_components pr c True L \<noteq> None \<and>
    distinct (map fst L) \<and>
    (\<forall>(compo, nss) \<in> set L. sorted (map fst nss) \<and> distinct (map fst nss) \<and>
       (\<forall>(ns, rs) \<in> set nss. rs = filter (in_ns (f_nodes f) compo ns) (f_Roots f) \<and> rs \<noteq> [])) \<and>
    mset (concat (map (\<lambda>(compo, nss). concat (map snd nss)) L)) = mset (f_Roots f) \<and>
    (\<forall>r \<in> set (f_Roots f). \<exists>ns ls. collectNodes fuel (f_nodes f) r = Some ns \<and> pr r = Some ls \<and>
       list_all2 (\<lambda>m line. aligned c (clk m) (f_nodes f ! m) colW opW line) ns ls)"
proof -
  from PrintForest_parts [OF ok fuel ne] obtain colW opW groups compOrder where
    g: "group_roots (f_nodes f) (f_Roots f) Map.empty [] = (groups, compOrder)"
    and out: "PrintForest fuel c clk f =
      print_components (\<lambda>root. printSubtree fuel c clk (f_nodes f) root ''    '' ''    '' colW opW) c True (layout groups compOrder)"
    and each: "\<And>r. r \<in> set (f_Roots f) \<Longrightarrow>
      \<exists>p. printed_as (f_nodes f) fuel r ''    '' ''    '' p \<and> fst (snd (snd p)) + 2 \<le> colW \<and> snd (snd (snd p)) \<le> opW"
    by metis
  let ?L = "layout groups compOrder" and ?pr = "\<lambda>root. printSubtree fuel c clk (f_nodes f) root ''    '' ''    '' colW opW"
  from group_roots_grouped [OF grouped_start g] have gr: "grouped (f_nodes f) (f_Roots f) groups compOrder" by simp
  note lay = layout_spec [OF gr]
  have dist: "distinct (map fst ?L)" unfolding lay(1) using gr by (simp add: grouped_def)
  have rows: "\<exists>ns ls. collectNodes fuel (f_nodes f) r = Some ns \<and> ?pr r = Some ls \<and>
       list_all2 (\<lambda>m line. aligned c (clk m) (f_nodes f ! m) colW opW line) ns ls" if r: "r \<in> set (f_Roots f)" for r
  proof -
    from each [OF r] obtain p where p: "printed_as (f_nodes f) fuel r ''    '' ''    '' p" "fst (snd (snd p)) + 2 \<le> colW" "snd (snd (snd p)) \<le> opW" by blast
    from printed_aligned [OF this] printed_nodes [OF p(1)] show ?thesis by blast
  qed
  have some: "\<And>r. r \<in> set (f_Roots f) \<Longrightarrow> \<exists>y. ?pr r = Some y" using rows by blast
  have "\<forall>(compo, nss) \<in> set ?L. \<forall>(ns, rs) \<in> set nss. set rs \<subseteq> set (f_Roots f)"
    using lay(2) by fastforce
  with some have tot: "print_components ?pr c True ?L \<noteq> None" by (rule print_components_total)
  have parts: "\<forall>(compo, nss) \<in> set ?L. sorted (map fst nss) \<and> distinct (map fst nss) \<and>
       (\<forall>(ns, rs) \<in> set nss. rs = filter (in_ns (f_nodes f) compo ns) (f_Roots f) \<and> rs \<noteq> [])"
    using lay(2) by fastforce
  have "PrintForest fuel c clk f = print_components ?pr c True ?L \<and> print_components ?pr c True ?L \<noteq> None \<and>
    distinct (map fst ?L) \<and>
    (\<forall>(compo, nss) \<in> set ?L. sorted (map fst nss) \<and> distinct (map fst nss) \<and>
       (\<forall>(ns, rs) \<in> set nss. rs = filter (in_ns (f_nodes f) compo ns) (f_Roots f) \<and> rs \<noteq> [])) \<and>
    mset (concat (map (\<lambda>(compo, nss). concat (map snd nss)) ?L)) = mset (f_Roots f) \<and>
    (\<forall>r \<in> set (f_Roots f). \<exists>ns ls. collectNodes fuel (f_nodes f) r = Some ns \<and> ?pr r = Some ls \<and>
       list_all2 (\<lambda>m line. aligned c (clk m) (f_nodes f ! m) colW opW line) ns ls)"
    by (intro conjI) (rule out, rule tot, rule dist, rule parts, rule lay(3), rule ballI, erule rows)
  then show ?thesis by (intro exI)
qed


lemma PrintForest_ends:
  assumes "forest_ok f" and "length (f_nodes f) \<le> fuel"
  shows "\<exists>ls. PrintForest fuel c clk f = Some ls"
proof (cases "f_Roots f = []")
  case True
  then show ?thesis using assms(1) by (simp add: PrintForest_def forest_ok_def)
next
  case False
  from PrintForest_total [OF assms False, of c clk] obtain L pr where
    "PrintForest fuel c clk f = print_components pr c True L" "print_components pr c True L \<noteq> None" by (elim exE conjE)
  then show ?thesis by simp
qed

lemma PrintTree_ends:
  assumes "forest_ok f" and "length (f_nodes f) \<le> fuel" and "r \<in> set (f_Roots f)"
  shows "\<exists>ls. PrintTree fuel c clk (f_nodes f) r = Some ls"
  using PrintTree_lines [OF assms, of c clk] by blast

lemma demo_forest_ok:
  "forest_ok (buildOwnerRefTrees demo_grouped)" "length (f_nodes (buildOwnerRefTrees demo_grouped)) \<le> 4"
  "f_Roots (buildOwnerRefTrees demo_grouped) = [0, 1, 2, 3]"
  using buildOwnerRefTrees_spec [of demo_grouped] by (simp_all add: demo_grouped_forest length_demo_grouped)


lemma printed_shows:
  assumes con: "consistent h" and n: "n < length h" and pr: "printed_as h fuel n lp cp p"
    and plain: "\<forall>m < length h. plain_node (h ! m)" and esc: "ESC \<notin> set lp" "ESC \<notin> set cp"
  shows "\<exists>ls. printSubtree fuel c clk h n lp cp colW opW = Some ls \<and>
    printSubtree fuel no_color clk h n lp cp colW opW = Some (map (vis False) ls)"
proof -
  let ?ps = "fst p" and ?ns = "fst (snd p)"
  have len: "length ?ps = length ?ns" and nodes: "collectNodes fuel h n = Some ?ns" and plain_ps: "\<forall>q \<in> set ?ps. ESC \<notin> set q"
    and out: "\<And>c. printSubtree fuel c clk h n lp cp colW opW = Some (map2 (node_line c clk h colW opW) ?ps ?ns)"
    using pr esc unfolding printed_as_def by blast+
  have "vis False (node_line c clk h colW opW (?ps ! i) (?ns ! i)) = node_line no_color clk h colW opW (?ps ! i) (?ns ! i)"
    if "i < length ?ns" for i
  proof -
    have "?ns ! i < length h" using collectNodes_set [OF con n nodes] that nth_mem [OF that] by blast
    then show ?thesis using plain plain_ps that len by (intro shows_as_vis node_line_shows) auto
  qed
  then have "map (vis False) (map2 (node_line c clk h colW opW) ?ps ?ns) = map2 (node_line no_color clk h colW opW) ?ps ?ns"
    by (intro nth_equalityI) (simp_all add: len)
  with out show ?thesis by auto
qed

lemma headings_plain:
  assumes "plain_node n"
  shows "ESC \<notin> set (root_component n)" "ESC \<notin> set (rootNamespace n)"
  using assms by (auto simp: root_component_def rootNamespace_def clusterScoped_def plain_node_def plain_ifo_def Let_def ESC_def)

text \<open>
  Colours carry no information and do not disturb the layout of a forest: with any colour setting the
  terminal shows line for line what is printed without colours, whatever the operations are, as long
  as their own strings hold no escape character.
\<close>

theorem colours_invisible:
  assumes ok: "forest_ok f" and fuel: "length (f_nodes f) \<le> fuel" and plain: "\<forall>n < length (f_nodes f). plain_node (f_nodes f ! n)"
  shows "\<exists>ls. PrintForest fuel c clk f = Some ls \<and> PrintForest fuel no_color clk f = Some (map (vis False) ls)"
proof (cases "f_Roots f = []")
  case True
  then show ?thesis using ok by (simp add: PrintForest_def forest_ok_def ESC_def)
next
  case False
  from PrintForest_parts [OF ok fuel False] obtain colW opW groups compOrder where
    g: "group_roots (f_nodes f) (f_Roots f) Map.empty [] = (groups, compOrder)"
    and out: "\<And>c clk. PrintForest fuel c clk f =
      print_components (\<lambda>root. printSubtree fuel c clk (f_nodes f) root ''    '' ''    '' colW opW) c True (layout groups compOrder)"
    and each': "\<And>r. r \<in> set (f_Roots f) \<Longrightarrow>
      \<exists>p. printed_as (f_nodes f) fuel r ''    '' ''    '' p \<and> fst (snd (snd p)) + 2 \<le> colW \<and> snd (snd (snd p)) \<le> opW"
    by metis
  have each: "\<exists>p. printed_as (f_nodes f) fuel r ''    '' ''    '' p" if "r \<in> set (f_Roots f)" for r using each' [OF that] by blast
  have con: "consistent (f_nodes f)" and roots: "\<And>r. r \<in> set (f_Roots f) \<Longrightarrow> r < length (f_nodes f)"
    using ok by (auto simp: forest_ok_def)
  from group_roots_grouped [OF grouped_start g] have gr: "grouped (f_nodes f) (f_Roots f) groups compOrder" by simp
  note lay = layout_spec [OF gr]
  have sub: "roots = filter (in_ns (f_nodes f) compo ns) (f_Roots f) \<and> roots \<noteq> []"
    if "(compo, nss) \<in> set (layout groups compOrder)" "(ns, roots) \<in> set nss" for compo nss ns roots
    using bspec [OF conjunct2 [OF conjunct2 [OF lay(2) [OF that(1)]]] that(2)] unfolding prod.case .
  have "\<exists>ls. print_components (\<lambda>root. printSubtree fuel c clk (f_nodes f) root ''    '' ''    '' colW opW) c True (layout groups compOrder) = Some ls \<and>
     print_components (\<lambda>root. printSubtree fuel no_color clk (f_nodes f) root ''    '' ''    '' colW opW) no_color True (layout groups compOrder) =
       Some (map (vis False) ls)"
  proof (rule print_components_shows)
    fix compo nss ns roots r
    assume a: "(compo, nss) \<in> set (layout groups compOrder)" "(ns, roots) \<in> set nss"
    note s = sub [OF a]
    show "ESC \<notin> set ns"
    proof -
      from s obtain r where r: "r \<in> set (f_Roots f)" "in_ns (f_nodes f) compo ns r" by (metis filter_empty_conv)
      then have "ns = rootNamespace (f_nodes f ! r)" by (simp add: in_ns_def)
      moreover have "plain_node (f_nodes f ! r)" using plain roots [OF r(1)] by blast
      ultimately show ?thesis using headings_plain(2) by simp
    qed
    assume "r \<in> set roots"
    with s have r: "r \<in> set (f_Roots f)" by simp
    from each [OF r] obtain p where "printed_as (f_nodes f) fuel r ''    '' ''    '' p" ..
    from printed_shows [OF con roots [OF r] this plain]
    show "\<exists>ls. printSubtree fuel c clk (f_nodes f) r ''    '' ''    '' colW opW = Some ls \<and>
      printSubtree fuel no_color clk (f_nodes f) r ''    '' ''    '' colW opW = Some (map (vis False) ls)"
      by (simp add: ESC_def)
  next
    fix compo nss assume "(compo, nss) \<in> set (layout groups compOrder)"
    then have "compo \<in> set compOrder" using lay(1) by (metis fst_conv image_eqI set_map)
    then obtain r where r: "r \<in> set (f_Roots f)" and "compo = root_component (f_nodes f ! r)" using gr by (auto simp: grouped_def)
    moreover have "plain_node (f_nodes f ! r)" using plain roots [OF r] by blast
    ultimately show "ESC \<notin> set compo" using headings_plain(1) by simp
  qed
  with out show ?thesis by simp
qed

theorem colours_invisible_witness:
  "\<forall>clk. \<exists>ls. PrintForest 4 \<lparr>Enabled = True\<rparr> clk (buildOwnerRefTrees demo_grouped) = Some ls \<and>
     PrintForest 4 no_color clk (buildOwnerRefTrees demo_grouped) = Some (map (vis False) ls)"
proof (intro allI)
  fix clk
  have "\<forall>x \<in> set demo_grouped. plain_ifo x"
    by (simp add: demo_grouped_def demo_ifo_def plain_ifo_def Let_def ESC_def)
  then have "\<forall>n < length (f_nodes (buildOwnerRefTrees demo_grouped)). plain_node (f_nodes (buildOwnerRefTrees demo_grouped) ! n)"
    by (simp add: demo_grouped_forest plain_node_def new_node_def)
  from colours_invisible [OF demo_forest_ok(1,2) this]
  show "\<exists>ls. PrintForest 4 \<lparr>Enabled = True\<rparr> clk (buildOwnerRefTrees demo_grouped) = Some ls \<and>
     PrintForest 4 no_color clk (buildOwnerRefTrees demo_grouped) = Some (map (vis False) ls)" .
qed

definition ns_Second :: int where "ns_Second = 10 ^ 9"
definition ns_Minute :: int where "ns_Minute = 60 * ns_Second"
definition ns_Hour :: int where "ns_Hour = 60 * ns_Minute"

lemmas time_units = ns_Second_def ns_Minute_def ns_Hour_def

lemma two_units:
  fixes x u k :: int
  assumes "0 < u" and "0 < k"
  shows "x div (k * u) * (k * u) + x div u mod k * u \<le> x \<and> x < x div (k * u) * (k * u) + (x div u mod k + 1) * u"
proof -
  have "x div (k * u) = x div u div k" using assms by (simp add: zdiv_zmult2_eq mult.commute [of k])
  moreover have "x div u div k * k + x div u mod k = x div u" by simp
  ultimately have eq: "x div (k * u) * (k * u) + x div u mod k * u = x div u * u" by (metis distrib_right mult.assoc)
  moreover have "x div u * u + x mod u = x" "0 \<le> x mod u" "x mod u < u" using assms by simp_all
  moreover have "(x div u mod k + 1) * u = x div u mod k * u + u" by (simp add: distrib_right)
  ultimately show ?thesis by linarith
qed

lemma unit_count:
  fixes x u k :: int
  assumes "0 < u"
  shows "u \<le> x \<Longrightarrow> 1 \<le> x div u" and "x < k * u \<Longrightarrow> x div u < k"
proof -
  show "1 \<le> x div u" if "u \<le> x" using that assms pos_imp_zdiv_pos_iff [of u x] by simp
  show "x div u < k" if "x < k * u"
  proof (rule ccontr)
    assume "\<not> x div u < k"
    then have "k * u \<le> x div u * u" using assms by simp
    also have "\<dots> \<le> x" using assms div_mult_mod_eq [of x u] pos_mod_sign [of u x] by linarith
    finally show False using that by simp
  qed
qed



text \<open>
  In tables colours do disturb the layout: what a terminal shows of the table of a single operation is not the
  table printed without colours, for the escape sequences take part in the column widths.
\<close>

theorem table_colours_shift:
  "map (vis False) (PrintList \<lparr>tp_Color = \<lparr>Enabled = True\<rparr>, tp_Wide = False\<rparr> (\<lambda>i. 0) [demo_ifo ''vm'' ''u1'' [] Map.empty 0]) \<noteq>
   PrintList \<lparr>tp_Color = no_color, tp_Wide = False\<rparr> (\<lambda>i. 0) [demo_ifo ''vm'' ''u1'' [] Map.empty 0]"
  by code_simp

end
