(* ===== verification/Plugin_Cmd.thy ===== *)
theory Plugin_Cmd
  imports Plugin_Output Operations
begin

text \<open>
  The commands of the kubectl plugin (\<open>pkg/plugin/cmd\<close>) and its client (\<open>pkg/plugin/client\<close>). The
  global flags are a record; the cluster, the codecs, the terminal and the clock are the arguments
  gathered in \<open>cluster\<close>. A command takes the state of the API server and answers its error, what it
  wrote to the standard output, as bytes, and the state it leaves. Writing to the standard output
  does not fail here. A command starts with the flags set; \<open>Programs\<close> has the command line.
\<close>

section \<open>Flags and options\<close>

definition OutputJSON :: string where "OutputJSON = ''json''"
definition OutputYAML :: string where "OutputYAML = ''yaml''"
definition OutputWide :: string where "OutputWide = ''wide''"
definition OutputTable :: string where "OutputTable = ''table''"

record global_flags =
  fl_Kubeconfig :: string
  fl_Context :: string
  fl_AllPhases :: bool
  fl_Namespace :: string
  fl_Component :: string
  fl_Kind :: string
  fl_Operation :: string
  fl_Output :: string
  fl_Color :: bool
  fl_NoColor :: bool
  fl_Selector :: string

record list_options =
  lo_LabelSelector :: string
  lo_FieldSelector :: string

definition comma :: char where "comma = CHR '',''"

definition key_equals :: "string \<Rightarrow> string \<Rightarrow> string" where
  "key_equals k v = k @ ''='' @ v"

definition buildListOptions :: "global_flags \<Rightarrow> list_options" where
  "buildListOptions fl =
     (let labelParts = [];
          labelParts = (if fl_Component fl \<noteq> [] then labelParts @ [key_equals LabelComponent (fl_Component fl)] else labelParts);
          labelParts = (if fl_Kind fl \<noteq> [] then labelParts @ [key_equals LabelSubjectKind (fl_Kind fl)] else labelParts);
          labelParts = (if fl_Selector fl \<noteq> [] then labelParts @ [fl_Selector fl] else labelParts);
          fieldParts = [];
          fieldParts = (if fl_Namespace fl \<noteq> [] then fieldParts @ [key_equals ''spec.subject.namespace'' (fl_Namespace fl)] else fieldParts);
          fieldParts = (if fl_Operation fl \<noteq> [] then fieldParts @ [key_equals ''spec.operation'' (fl_Operation fl)] else fieldParts);
          fieldParts = (if \<not> fl_AllPhases fl then fieldParts @ [''status.phase=Active''] else fieldParts) in
      \<lparr>lo_LabelSelector = strings_Join labelParts [comma], lo_FieldSelector = strings_Join fieldParts [comma]\<rparr>)"

text \<open>The strings \<open>--for\<close> accepts: \<open>strings.SplitN(s, "/", 2)\<close> cuts at the first slash.\<close>

fun cut_slash :: "string \<Rightarrow> (string \<times> string) option" where
  "cut_slash [] = None"
| "cut_slash (c # cs) =
     (if c = CHR ''/'' then Some ([], cs)
      else (case cut_slash cs of None \<Rightarrow> None | Some (a, b) \<Rightarrow> Some (c # a, b)))"

definition parseKindName :: "string \<Rightarrow> goerr + string \<times> string" where
  "parseKindName s =
     (case cut_slash s of
        None \<Rightarrow> Inl (Plain ''--for must be in format Kind/name (e.g., VirtualMachine/my-vm)'')
      | Some (a, b) \<Rightarrow>
          if a = [] \<or> b = [] then Inl (Plain ''--for must be in format Kind/name (e.g., VirtualMachine/my-vm)'')
          else Inr (a, b))"

definition removeFieldSelector :: "string \<Rightarrow> string \<Rightarrow> string" where
  "removeFieldSelector selector field =
     (if selector = [] then []
      else strings_Join (filter (\<lambda>p. \<not> HasPrefix p (field @ ''='')) (split_at comma selector)) [comma])"

section \<open>The client\<close>

text \<open>
  \<open>cx_config\<close> loads the client configuration for an explicit path, empty when none is given, and a
  context, and \<open>cx_dynamic\<close> builds the dynamic client from it. \<open>cx_unmarshal\<close> decodes a JSON text into
  an operation. \<open>cx_groups\<close> and \<open>cx_ops\<close> are the orders in which maps are visited.
\<close>

record ('c, 'u, 'w) cluster =
  cx_config :: "string \<Rightarrow> string \<Rightarrow> goerr + 'c"
  cx_dynamic :: "'c \<Rightarrow> goerr option"
  cx_List :: "list_options \<Rightarrow> 'w \<Rightarrow> (goerr + 'u list) \<times> 'w"
  cx_Get :: "string \<Rightarrow> 'w \<Rightarrow> (goerr + 'u) \<times> 'w"
  cx_marshal :: "'u \<Rightarrow> goerr + string"
  cx_unmarshal :: "string \<Rightarrow> goerr + ifo"
  cx_terminal :: bool
  cx_clock :: "nat \<Rightarrow> time"
  cx_rfc3339 :: "time \<Rightarrow> string"
  cx_json :: "ifo list \<Rightarrow> goerr + string"
  cx_yaml :: "ifo list \<Rightarrow> goerr + string"
  cx_json1 :: "ifo \<Rightarrow> goerr + string"
  cx_yaml1 :: "ifo \<Rightarrow> goerr + string"
  cx_groups :: "(group_key \<rightharpoonup> nat list) \<Rightarrow> group_key list"
  cx_ops :: "string \<Rightarrow> (string \<rightharpoonup> nat) \<Rightarrow> string list"
  cx_labels :: "labels \<Rightarrow> string list"

definition newFromConfig :: "('c, 'u, 'w) cluster \<Rightarrow> 'c \<Rightarrow> goerr option" where
  "newFromConfig cx config =
     (case cx_dynamic cx config of Some err \<Rightarrow> Some (errorf ''creating dynamic client'' err) | None \<Rightarrow> None)"

definition NewFromKubeconfig :: "('c, 'u, 'w) cluster \<Rightarrow> string \<Rightarrow> string \<Rightarrow> goerr option" where
  "NewFromKubeconfig cx kubeconfig kubeContext =
     (let ExplicitPath = [];
          ExplicitPath = (if kubeconfig \<noteq> [] then kubeconfig else ExplicitPath) in
      case cx_config cx ExplicitPath kubeContext of
        Inl err \<Rightarrow> Some (errorf ''building kubeconfig'' err)
      | Inr config \<Rightarrow> newFromConfig cx config)"

definition newClient :: "('c, 'u, 'w) cluster \<Rightarrow> global_flags \<Rightarrow> goerr option" where
  "newClient cx fl = NewFromKubeconfig cx (fl_Kubeconfig fl) (fl_Context fl)"

definition convert :: "('c, 'u, 'w) cluster \<Rightarrow> 'u \<Rightarrow> goerr + ifo" where
  "convert cx u =
     (case cx_marshal cx u of Inl err \<Rightarrow> Inl err
      | Inr data \<Rightarrow> (case cx_unmarshal cx data of Inl err \<Rightarrow> Inl err | Inr x \<Rightarrow> Inr x))"

fun convert_loop :: "('c, 'u, 'w) cluster \<Rightarrow> 'u list \<Rightarrow> ifo list \<Rightarrow> goerr + ifo list" where
  "convert_loop cx [] result = Inr result"
| "convert_loop cx (u # us) result =
     (case convert cx u of Inl err \<Rightarrow> Inl err | Inr x \<Rightarrow> convert_loop cx us (result @ [x]))"

definition convertList :: "('c, 'u, 'w) cluster \<Rightarrow> 'u list \<Rightarrow> goerr + ifo list" where
  "convertList cx items = convert_loop cx items []"

definition IFOClient_List :: "('c, 'u, 'w) cluster \<Rightarrow> list_options \<Rightarrow> 'w \<Rightarrow> (goerr + ifo list) \<times> 'w" where
  "IFOClient_List cx opts w =
     (case cx_List cx opts w of
        (Inl err, w) \<Rightarrow> (Inl (errorf ''listing IFOs'' err), w)
      | (Inr items, w) \<Rightarrow> (convertList cx items, w))"

text \<open>\<open>%q\<close> of a name of printable ASCII without quotes and backslashes, as names of objects are.\<close>

definition quoted :: "string \<Rightarrow> string" where
  "quoted s = [CHR 0x22] @ s @ [CHR 0x22]"

definition IFOClient_Get :: "('c, 'u, 'w) cluster \<Rightarrow> string \<Rightarrow> 'w \<Rightarrow> (goerr + ifo) \<times> 'w" where
  "IFOClient_Get cx name w =
     (case cx_Get cx name w of
        (Inl err, w) \<Rightarrow> (Inl (errorf (''getting IFO '' @ quoted name) err), w)
      | (Inr u, w) \<Rightarrow> (convert cx u, w))"

section \<open>The commands\<close>

type_synonym 'w command = "'w \<Rightarrow> (goerr option \<times> string) \<times> 'w"

definition lines_out :: "string list \<Rightarrow> string" where
  "lines_out ls = concat (map (\<lambda>l. l @ [CHR 0x0A]) ls)"

definition stdout :: "string \<Rightarrow> string \<Rightarrow> goerr option \<times> string" where
  "stdout data out = (None, out @ data)"

definition nothing_found :: string where
  "nothing_found = lines_out [''No in-flight operations found.'']"

definition color_of :: "('c, 'u, 'w) cluster \<Rightarrow> global_flags \<Rightarrow> color_writer" where
  "color_of cx fl = NewColorWriter (cx_terminal cx) (fl_Color fl) (fl_NoColor fl)"

definition by_age :: "ifo \<Rightarrow> ifo \<Rightarrow> int" where
  "by_age a b = time_Compare (ifo_CreationTimestamp b) (ifo_CreationTimestamp a)"

definition runList :: "('c, 'u, 'w) cluster \<Rightarrow> global_flags \<Rightarrow> 'w command" where
  "runList cx fl w =
     (case newClient cx fl of
        Some err \<Rightarrow> ((Some err, []), w)
      | None \<Rightarrow>
          (case IFOClient_List cx (buildListOptions fl) w of
             (Inl err, w) \<Rightarrow> ((Some err, []), w)
           | (Inr ifos, w) \<Rightarrow>
               if length ifos = 0 then ((None, nothing_found), w)
               else
                 (let ifos = SortFunc by_age ifos in
                  if fl_Output fl = OutputJSON then (PrintJSON (cx_json cx) stdout ifos [], w)
                  else if fl_Output fl = OutputYAML then (PrintYAML (cx_yaml cx) stdout ifos [], w)
                  else
                    (let printer = \<lparr>tp_Color = color_of cx fl, tp_Wide = (fl_Output fl = OutputWide)\<rparr> in
                     ((None, lines_out (PrintList printer (cx_clock cx) ifos)), w)))))"

definition runGet :: "('c, 'u, 'w) cluster \<Rightarrow> global_flags \<Rightarrow> string \<Rightarrow> 'w command" where
  "runGet cx fl name w =
     (case newClient cx fl of
        Some err \<Rightarrow> ((Some err, []), w)
      | None \<Rightarrow>
          (case IFOClient_Get cx name w of
             (Inl err, w) \<Rightarrow> ((Some (errorf ''getting IFO'' err), []), w)
           | (Inr x, w) \<Rightarrow>
               if fl_Output fl = OutputJSON then (PrintJSONSingle (cx_json1 cx) stdout x [], w)
               else if fl_Output fl = OutputYAML then (PrintYAMLSingle (cx_yaml1 cx) stdout x [], w)
               else
                 (let printer = \<lparr>tp_Color = color_of cx fl, tp_Wide = False\<rparr> in
                  ((None, lines_out (PrintDetail printer (cx_rfc3339 cx) (cx_clock cx) (cx_labels cx (ifo_Labels x)) x)), w))))"

subsection \<open>Summary\<close>

record counts =
  co_active :: nat
  co_completed :: nat

fun count_components :: "ifo list \<Rightarrow> (string \<rightharpoonup> counts) \<Rightarrow> string list \<Rightarrow> (string \<rightharpoonup> counts) \<times> string list" where
  "count_components [] byComponent order = (byComponent, order)"
| "count_components (x # ifos) byComponent order =
     (let cmpt = is_Component (ifo_Spec x);
          cmpt = (if cmpt = [] then ''(none)'' else cmpt);
          (c, order) = (case byComponent cmpt of
             Some c \<Rightarrow> (c, order)
           | None \<Rightarrow> (\<lparr>co_active = 0, co_completed = 0\<rparr>, order @ [cmpt]));
          c = (if st_Phase (ifo_Status x) = OperationPhaseActive then c\<lparr>co_active := co_active c + 1\<rparr>
               else c\<lparr>co_completed := co_completed c + 1\<rparr>) in
      count_components ifos (byComponent(cmpt \<mapsto> c)) order)"

definition count_row :: "string \<Rightarrow> nat \<Rightarrow> nat \<Rightarrow> string" where
  "count_row name active completed = strings_Join [name, dec active, dec completed, dec (active + completed)] [TAB]"

definition counts_of :: "(string \<rightharpoonup> counts) \<Rightarrow> string \<Rightarrow> counts" where
  "counts_of byComponent cmpt = (case byComponent cmpt of None \<Rightarrow> \<lparr>co_active = 0, co_completed = 0\<rparr> | Some c \<Rightarrow> c)"

fun component_rows :: "(string \<rightharpoonup> counts) \<Rightarrow> string list \<Rightarrow> nat \<Rightarrow> nat \<Rightarrow> string list \<times> nat \<times> nat" where
  "component_rows byComponent [] totalActive totalCompleted = ([], totalActive, totalCompleted)"
| "component_rows byComponent (cmpt # order) totalActive totalCompleted =
     (let c = counts_of byComponent cmpt;
          (rows, totals) = component_rows byComponent order (totalActive + co_active c) (totalCompleted + co_completed c) in
      (count_row cmpt (co_active c) (co_completed c) # rows, totals))"

definition printComponentSummary :: "color_writer \<Rightarrow> ifo list \<Rightarrow> string list" where
  "printComponentSummary color ifos =
     (let (byComponent, order) = count_components ifos Map.empty [];
          order = sort_strings order;
          (rows, totalActive, totalCompleted) = component_rows byComponent order 0 0 in
      tab_flush
        (Bold color (strings_Join [''COMPONENT'', ''ACTIVE'', ''COMPLETED'', ''TOTAL''] [TAB]) # rows @
         [count_row (Bold color ''Total'') totalActive totalCompleted]))"

fun count_operations :: "ifo list \<Rightarrow> (string \<rightharpoonup> (string \<rightharpoonup> nat)) \<Rightarrow> string list \<Rightarrow> (string \<rightharpoonup> (string \<rightharpoonup> nat)) \<times> string list" where
  "count_operations [] byKind kindOrder = (byKind, kindOrder)"
| "count_operations (x # ifos) byKind kindOrder =
     (if st_Phase (ifo_Status x) \<noteq> OperationPhaseActive then count_operations ifos byKind kindOrder
      else
        (let kind = sr_Kind (is_Subject (ifo_Spec x));
             oper = is_Operation (ifo_Spec x);
             (ops, kindOrder) = (case byKind kind of
                Some ops \<Rightarrow> (ops, kindOrder)
              | None \<Rightarrow> (Map.empty, kindOrder @ [kind]));
             ops = ops(oper \<mapsto> (case ops oper of None \<Rightarrow> 0 | Some n \<Rightarrow> n) + 1) in
         count_operations ifos (byKind(kind \<mapsto> ops)) kindOrder))"

definition kind_line :: "(string \<Rightarrow> (string \<rightharpoonup> nat) \<Rightarrow> string list) \<Rightarrow> (string \<rightharpoonup> (string \<rightharpoonup> nat)) \<Rightarrow> string \<Rightarrow> string" where
  "kind_line names byKind kind =
     (let ops = (case byKind kind of None \<Rightarrow> Map.empty | Some ops \<Rightarrow> ops);
          opNames = sort_strings (names kind ops);
          parts = map (\<lambda>name. name @ ''('' @ dec (case ops name of None \<Rightarrow> 0 | Some n \<Rightarrow> n) @ '')'') opNames in
      ''  '' @ pad 28 (kind @ '':'') @ '' '' @ strings_Join parts '', '')"

definition printOperationSummary :: "(string \<Rightarrow> (string \<rightharpoonup> nat) \<Rightarrow> string list) \<Rightarrow> color_writer \<Rightarrow> ifo list \<Rightarrow> string list" where
  "printOperationSummary names color ifos =
     (let (byKind, kindOrder) = count_operations ifos Map.empty [];
          kindOrder = sort_strings kindOrder in
      if length kindOrder = 0 then []
      else Bold color ''ACTIVE OPERATIONS BY KIND:'' # map (kind_line names byKind) kindOrder)"

definition runSummary :: "('c, 'u, 'w) cluster \<Rightarrow> global_flags \<Rightarrow> 'w command" where
  "runSummary cx fl w =
     (case newClient cx fl of
        Some err \<Rightarrow> ((Some err, []), w)
      | None \<Rightarrow>
          (let opts = buildListOptions fl;
               opts = opts\<lparr>lo_FieldSelector := removeFieldSelector (lo_FieldSelector opts) ''status.phase''\<rparr> in
           case IFOClient_List cx opts w of
             (Inl err, w) \<Rightarrow> ((Some err, []), w)
           | (Inr ifos, w) \<Rightarrow>
               if length ifos = 0 then ((None, nothing_found), w)
               else
                 (let color = color_of cx fl in
                  ((None, lines_out (printComponentSummary color ifos @ [[]] @ printOperationSummary (cx_ops cx) color ifos)), w))))"

subsection \<open>Tree\<close>

definition and_labels :: "list_options \<Rightarrow> string list \<Rightarrow> list_options" where
  "and_labels opts parts =
     (if lo_LabelSelector opts \<noteq> [] then opts\<lparr>lo_LabelSelector := lo_LabelSelector opts @ [comma] @ strings_Join parts [comma]\<rparr>
      else opts\<lparr>lo_LabelSelector := strings_Join parts [comma]\<rparr>)"

definition subject_UID :: "ifo \<Rightarrow> string" where
  "subject_UID x = sr_UID (is_Subject (ifo_Spec x))"

fun grandchildren_loop ::
  "('c, 'u, 'w) cluster \<Rightarrow> global_flags \<Rightarrow> ifo list \<Rightarrow> ifo list \<Rightarrow> 'w \<Rightarrow> (goerr + ifo list) \<times> 'w"
where
  "grandchildren_loop cx fl [] allIFOs w = (Inr allIFOs, w)"
| "grandchildren_loop cx fl (child # rest) allIFOs w =
     (let uid = subject_UID child in
      if uid = [] then grandchildren_loop cx fl rest allIFOs w
      else
        (let gcOpts = (buildListOptions fl)\<lparr>lo_LabelSelector := key_equals LabelOwnerUID uid\<rparr> in
         case IFOClient_List cx gcOpts w of
           (Inl err, w) \<Rightarrow> (Inl err, w)
         | (Inr gcIFOs, w) \<Rightarrow> grandchildren_loop cx fl rest (allIFOs @ gcIFOs) w))"

definition listForResource :: "('c, 'u, 'w) cluster \<Rightarrow> global_flags \<Rightarrow> string \<Rightarrow> 'w \<Rightarrow> (goerr + ifo list) \<times> 'w" where
  "listForResource cx fl treeFor w =
     (case parseKindName treeFor of
        Inl err \<Rightarrow> (Inl err, w)
      | Inr (kind, name) \<Rightarrow>
          (let opts = and_labels (buildListOptions fl) [key_equals LabelSubjectKind kind, key_equals LabelSubjectName name] in
           case IFOClient_List cx opts w of
             (Inl err, w) \<Rightarrow> (Inl err, w)
           | (Inr rootIFOs, w) \<Rightarrow>
               (case rootIFOs of
                  [] \<Rightarrow> (Inr [], w)
                | root # _ \<Rightarrow>
                    if subject_UID root = [] then (Inr rootIFOs, w)
                    else
                      (let childOpts = and_labels (buildListOptions fl) [key_equals LabelOwnerUID (subject_UID root)] in
                       case IFOClient_List cx childOpts w of
                         (Inl err, w) \<Rightarrow> (Inl err, w)
                       | (Inr childIFOs, w) \<Rightarrow> grandchildren_loop cx fl childIFOs (rootIFOs @ childIFOs) w))))"

text \<open>
  The recursions over the tree get as much fuel as there are operations, which is enough
  (\<open>runTree_ends\<close>); without enough the command has no result.
\<close>

definition runTree :: "('c, 'u, 'w) cluster \<Rightarrow> global_flags \<Rightarrow> string \<Rightarrow> 'w \<Rightarrow> ((goerr option \<times> string) \<times> 'w) option" where
  "runTree cx fl treeFor w =
     (case newClient cx fl of
        Some err \<Rightarrow> Some ((Some err, []), w)
      | None \<Rightarrow>
          (case (if treeFor \<noteq> [] then listForResource cx fl treeFor w else IFOClient_List cx (buildListOptions fl) w) of
             (Inl err, w) \<Rightarrow> Some ((Some err, []), w)
           | (Inr ifos, w) \<Rightarrow>
               (let fuel = length ifos in
                case BuildForest fuel ifos (DefaultCorrelators (cx_groups cx)) of
                  None \<Rightarrow> None
                | Some f \<Rightarrow>
                    if fl_Output fl = OutputJSON then Some (PrintJSON (cx_json cx) stdout ifos [], w)
                    else if fl_Output fl = OutputYAML then Some (PrintYAML (cx_yaml cx) stdout ifos [], w)
                    else
                      (case (if treeFor \<noteq> [] \<and> length (f_Roots f) = 1
                             then PrintTree fuel (color_of cx fl) (cx_clock cx) (f_nodes f) (f_Roots f ! 0)
                             else PrintForest fuel (color_of cx fl) (cx_clock cx) f) of
                         None \<Rightarrow> None
                       | Some ls \<Rightarrow> Some ((None, lines_out ls), w)))))"

section \<open>Counting\<close>

lemma sort_distinct: "distinct xs \<Longrightarrow> set xs = A \<Longrightarrow> sort_strings xs = sorted_list_of_set A"
  using sorted_sort_strings [of xs] by (intro sorted_distinct_set_unique) auto

definition component_of :: "ifo \<Rightarrow> string" where
  "component_of x = (if is_Component (ifo_Spec x) = [] then ''(none)'' else is_Component (ifo_Spec x))"

definition kind_of :: "ifo \<Rightarrow> string" where
  "kind_of x = sr_Kind (is_Subject (ifo_Spec x))"

definition oper_of :: "ifo \<Rightarrow> string" where
  "oper_of x = is_Operation (ifo_Spec x)"

definition active :: "ifo \<Rightarrow> bool" where
  "active x \<longleftrightarrow> st_Phase (ifo_Status x) = OperationPhaseActive"

definition tally :: "('a \<Rightarrow> bool) \<Rightarrow> 'a list \<Rightarrow> nat" where
  "tally P xs = length (filter P xs)"

lemma tally_simps [simp]: "tally P [] = 0" "tally P (xs @ ys) = tally P xs + tally P ys" "tally P (x # xs) = (if P x then 1 else 0) + tally P xs"
  by (simp_all add: tally_def)

lemma tally_pos: "0 < tally P xs \<longleftrightarrow> (\<exists>x \<in> set xs. P x)"
  by (auto simp: tally_def filter_empty_conv)

definition components_counted :: "ifo list \<Rightarrow> (string \<rightharpoonup> counts) \<Rightarrow> string list \<Rightarrow> bool" where
  "components_counted seen byComponent order \<longleftrightarrow> distinct order \<and> set order = component_of ` set seen \<and>
     (\<forall>cmpt. byComponent cmpt = (if cmpt \<in> component_of ` set seen
        then Some \<lparr>co_active = tally (\<lambda>x. component_of x = cmpt \<and> active x) seen,
          co_completed = tally (\<lambda>x. component_of x = cmpt \<and> \<not> active x) seen\<rparr> else None))"

lemma count_components_counted:
  "components_counted seen byComponent order \<Longrightarrow> count_components xs byComponent order = (byComponent', order') \<Longrightarrow>
   components_counted (seen @ xs) byComponent' order'"
proof (induction xs arbitrary: seen byComponent order)
  case Nil
  then show ?case by simp
next
  case (Cons x xs)
  let ?c = "component_of x"
  let ?old = "case byComponent ?c of Some c \<Rightarrow> c | None \<Rightarrow> \<lparr>co_active = 0, co_completed = 0\<rparr>"
  let ?new = "if active x then ?old\<lparr>co_active := co_active ?old + 1\<rparr> else ?old\<lparr>co_completed := co_completed ?old + 1\<rparr>"
  let ?order = "case byComponent ?c of Some c \<Rightarrow> order | None \<Rightarrow> order @ [?c]"
  have none: "tally (\<lambda>y. component_of y = ?c \<and> P y) seen = 0" if "?c \<notin> component_of ` set seen" for P
  proof -
    have "\<not> (\<exists>y \<in> set seen. component_of y = ?c \<and> P y)" using that by (metis imageI)
    then show ?thesis using tally_pos [of "\<lambda>y. component_of y = ?c \<and> P y" seen] by blast
  qed
  have "components_counted (seen @ [x]) (byComponent(?c \<mapsto> ?new)) ?order"
    using Cons.prems(1) none by (auto simp: components_counted_def)
  moreover have "count_components xs (byComponent(?c \<mapsto> ?new)) ?order = (byComponent', order')"
    using Cons.prems(2)
    by (cases "byComponent ?c"; cases "active x") (simp_all add: component_of_def active_def Let_def)
  ultimately show ?case using Cons.IH by fastforce
qed

lemma component_rows_eq:
  "component_rows byComponent order a d =
    (map (\<lambda>cmpt. count_row cmpt (co_active (counts_of byComponent cmpt)) (co_completed (counts_of byComponent cmpt))) order,
     a + (\<Sum>cmpt \<leftarrow> order. co_active (counts_of byComponent cmpt)), d + (\<Sum>cmpt \<leftarrow> order. co_completed (counts_of byComponent cmpt)))"
  by (induction order arbitrary: a d) (simp_all add: Let_def add.assoc)

lemma tally_classes:
  "distinct ks \<Longrightarrow> f ` set xs \<subseteq> set ks \<Longrightarrow> (\<Sum>k \<leftarrow> ks. tally (\<lambda>x. f x = k \<and> P x) xs) = tally P xs"
proof (induction xs)
  case Nil
  then show ?case by (induction ks) simp_all
next
  case (Cons x xs)
  have "(\<Sum>k \<leftarrow> ks. (if f x = k \<and> P x then 1 else 0)) = (if P x then 1 else (0::nat))"
    using Cons.prems by (simp add: sum_list_distinct_conv_sum_set)
  then show ?case using Cons by (simp add: sum_list_addf)
qed

text \<open>What the two parts of the summary should say.\<close>

definition component_table :: "color_writer \<Rightarrow> ifo list \<Rightarrow> string list" where
  "component_table color ifos =
    tab_flush
      (Bold color (strings_Join [''COMPONENT'', ''ACTIVE'', ''COMPLETED'', ''TOTAL''] [TAB]) #
       map (\<lambda>cmpt. count_row cmpt (tally (\<lambda>x. component_of x = cmpt \<and> active x) ifos) (tally (\<lambda>x. component_of x = cmpt \<and> \<not> active x) ifos))
         (sorted_list_of_set (component_of ` set ifos)) @
       [count_row (Bold color ''Total'') (tally active ifos) (tally (\<lambda>x. \<not> active x) ifos)])"

lemma component_summary: "printComponentSummary color ifos = component_table color ifos"
proof -
  obtain m order where c: "count_components ifos Map.empty [] = (m, order)" by force
  have "components_counted [] Map.empty []" by (simp add: components_counted_def)
  from count_components_counted [OF this c] have cc: "components_counted ifos m order" by simp
  let ?ks = "sort_strings order"
  have ks: "?ks = sorted_list_of_set (component_of ` set ifos)" using cc by (intro sort_distinct) (auto simp: components_counted_def)
  have dist: "distinct ?ks" "component_of ` set ifos = set ?ks" using cc by (auto simp: components_counted_def)
  have at: "counts_of m k = \<lparr>co_active = tally (\<lambda>x. component_of x = k \<and> active x) ifos,
      co_completed = tally (\<lambda>x. component_of x = k \<and> \<not> active x) ifos\<rparr>" if "k \<in> set ?ks" for k
    using cc that dist(2) by (simp add: counts_of_def components_counted_def)
  have ma: "map (\<lambda>k. co_active (counts_of m k)) ?ks = map (\<lambda>k. tally (\<lambda>x. component_of x = k \<and> active x) ifos) ?ks"
    by (rule map_cong [OF refl]) (simp only: at counts.simps)
  have mc: "map (\<lambda>k. co_completed (counts_of m k)) ?ks = map (\<lambda>k. tally (\<lambda>x. component_of x = k \<and> \<not> active x) ifos) ?ks"
    by (rule map_cong [OF refl]) (simp only: at counts.simps)
  have rows: "map (\<lambda>k. count_row k (co_active (counts_of m k)) (co_completed (counts_of m k))) ?ks =
      map (\<lambda>k. count_row k (tally (\<lambda>x. component_of x = k \<and> active x) ifos) (tally (\<lambda>x. component_of x = k \<and> \<not> active x) ifos)) ?ks"
    by (rule map_cong [OF refl]) (simp only: at counts.simps)
  note total = tally_classes [OF dist(1) eq_refl [OF dist(2)]]
  have "printComponentSummary color ifos = tab_flush
      (Bold color (strings_Join [''COMPONENT'', ''ACTIVE'', ''COMPLETED'', ''TOTAL''] [TAB]) #
       map (\<lambda>k. count_row k (tally (\<lambda>x. component_of x = k \<and> active x) ifos) (tally (\<lambda>x. component_of x = k \<and> \<not> active x) ifos)) ?ks @
       [count_row (Bold color ''Total'') (tally active ifos) (tally (\<lambda>x. \<not> active x) ifos)])"
    by (simp only: printComponentSummary_def c component_rows_eq ma mc rows total Let_def prod.case add_0)
  then show ?thesis unfolding ks component_table_def .
qed

definition operations_counted :: "ifo list \<Rightarrow> (string \<rightharpoonup> (string \<rightharpoonup> nat)) \<Rightarrow> string list \<Rightarrow> bool" where
  "operations_counted seen byKind kindOrder \<longleftrightarrow> distinct kindOrder \<and> set kindOrder = {kind_of x |x. x \<in> set seen \<and> active x} \<and>
     (\<forall>kind. byKind kind = (if kind \<in> set kindOrder
        then Some (\<lambda>oper. let n = tally (\<lambda>x. active x \<and> kind_of x = kind \<and> oper_of x = oper) seen in if n = 0 then None else Some n) else None))"

lemma count_operations_counted:
  "operations_counted seen byKind kindOrder \<Longrightarrow> count_operations xs byKind kindOrder = (byKind', kindOrder') \<Longrightarrow>
   operations_counted (seen @ xs) byKind' kindOrder'"
proof (induction xs arbitrary: seen byKind kindOrder)
  case Nil
  then show ?case by simp
next
  case (Cons x xs)
  show ?case
  proof (cases "active x")
    case False
    then have "operations_counted (seen @ [x]) byKind kindOrder" using Cons.prems(1) unfolding operations_counted_def by auto
    moreover have "count_operations xs byKind kindOrder = (byKind', kindOrder')" using Cons.prems(2) False by (simp add: active_def)
    ultimately show ?thesis using Cons.IH by fastforce
  next
    case True
    let ?k = "kind_of x" and ?o = "oper_of x"
    let ?old = "case byKind ?k of Some ops \<Rightarrow> ops | None \<Rightarrow> Map.empty"
    let ?new = "?old(?o \<mapsto> (case ?old ?o of None \<Rightarrow> 0 | Some n \<Rightarrow> n) + 1)"
    let ?order = "case byKind ?k of Some ops \<Rightarrow> kindOrder | None \<Rightarrow> kindOrder @ [?k]"
    have none: "tally (\<lambda>y. active y \<and> kind_of y = ?k \<and> P y) seen = 0" if "?k \<notin> set kindOrder" for P
    proof -
      have "\<not> (\<exists>y \<in> set seen. active y \<and> kind_of y = ?k \<and> P y)" using that Cons.prems(1) by (auto simp: operations_counted_def)
      then show ?thesis using tally_pos [of "\<lambda>y. active y \<and> kind_of y = ?k \<and> P y" seen] by blast
    qed
    have old: "?old = (\<lambda>oper. let n = tally (\<lambda>x. active x \<and> kind_of x = ?k \<and> oper_of x = oper) seen in if n = 0 then None else Some n)"
      using Cons.prems(1) none by (auto simp: operations_counted_def Let_def fun_eq_iff)
    have new: "?new = (\<lambda>oper. let n = tally (\<lambda>x. active x \<and> kind_of x = ?k \<and> oper_of x = oper) (seen @ [x]) in if n = 0 then None else Some n)"
      unfolding old using True by (auto simp: Let_def fun_eq_iff)
    have order: "distinct ?order \<and> set ?order = {kind_of y |y. y \<in> set (seen @ [x]) \<and> active y}"
      using Cons.prems(1) True by (auto simp: operations_counted_def split: option.split)
    have "operations_counted (seen @ [x]) (byKind(?k \<mapsto> ?new)) ?order"
      unfolding operations_counted_def
    proof (intro conjI allI)
      fix kind
      show "(byKind(?k \<mapsto> ?new)) kind = (if kind \<in> set ?order
        then Some (\<lambda>oper. let n = tally (\<lambda>x. active x \<and> kind_of x = kind \<and> oper_of x = oper) (seen @ [x]) in if n = 0 then None else Some n) else None)"
      proof (cases "kind = ?k")
        case True
        with \<open>active x\<close> order show ?thesis unfolding new by auto
      next
        case False
        then have "kind \<in> set ?order \<longleftrightarrow> kind \<in> set kindOrder" by (auto split: option.split)
        moreover have "(if kind \<in> set kindOrder
          then Some (\<lambda>oper. let n = tally (\<lambda>x. active x \<and> kind_of x = kind \<and> oper_of x = oper) (seen @ [x]) in if n = 0 then None else Some n) else None) = byKind kind"
          using False Cons.prems(1) [unfolded operations_counted_def, THEN conjunct2, THEN conjunct2, THEN spec, of kind] by simp
        ultimately show ?thesis using False by simp
      qed
    qed (use order in blast)+
    moreover have "count_operations xs (byKind(?k \<mapsto> ?new)) ?order = (byKind', kindOrder')"
      using Cons.prems(2) True
      by (cases "byKind ?k") (simp_all add: kind_of_def oper_of_def active_def Let_def)
    ultimately show ?thesis using Cons.IH by fastforce
  qed
qed

definition operation_table :: "color_writer \<Rightarrow> ifo list \<Rightarrow> string list" where
  "operation_table color ifos =
    (if \<forall>x \<in> set ifos. \<not> active x then []
     else Bold color ''ACTIVE OPERATIONS BY KIND:'' #
       map (\<lambda>kind. ''  '' @ pad 28 (kind @ '':'') @ '' '' @
           strings_Join (map (\<lambda>oper. oper @ ''('' @ dec (tally (\<lambda>x. active x \<and> kind_of x = kind \<and> oper_of x = oper) ifos) @ '')'')
             (sorted_list_of_set {oper_of x |x. x \<in> set ifos \<and> active x \<and> kind_of x = kind})) '', '')
         (sorted_list_of_set {kind_of x |x. x \<in> set ifos \<and> active x}))"

lemma operation_summary:
  assumes names: "\<And>kind m. finite (dom m) \<Longrightarrow> enumerates (names kind m) m"
  shows "printOperationSummary names color ifos = operation_table color ifos"
proof -
  obtain m order where c: "count_operations ifos Map.empty [] = (m, order)" by force
  have "operations_counted [] Map.empty []" by (simp add: operations_counted_def)
  from count_operations_counted [OF this c] have cc: "operations_counted ifos m order" by simp
  let ?ks = "sort_strings order"
  have ks: "?ks = sorted_list_of_set {kind_of x |x. x \<in> set ifos \<and> active x}"
    using cc by (intro sort_distinct) (auto simp: operations_counted_def)
  have "set ?ks = {kind_of x |x. x \<in> set ifos \<and> active x}" using cc by (simp add: operations_counted_def)
  moreover have "length ?ks = 0 \<longleftrightarrow> set ?ks = {}" by simp
  ultimately have "length ?ks = 0 \<longleftrightarrow> {kind_of x |x. x \<in> set ifos \<and> active x} = {}" by (simp only:)
  then have empty: "length ?ks = 0 \<longleftrightarrow> (\<forall>x \<in> set ifos. \<not> active x)" by blast
  have line: "kind_line names m kind = ''  '' @ pad 28 (kind @ '':'') @ '' '' @
           strings_Join (map (\<lambda>oper. oper @ ''('' @ dec (tally (\<lambda>x. active x \<and> kind_of x = kind \<and> oper_of x = oper) ifos) @ '')'')
             (sorted_list_of_set {oper_of x |x. x \<in> set ifos \<and> active x \<and> kind_of x = kind})) '', ''" if "kind \<in> set ?ks" for kind
  proof -
    let ?n = "\<lambda>oper. tally (\<lambda>x. active x \<and> kind_of x = kind \<and> oper_of x = oper) ifos"
    let ?ops = "\<lambda>oper. let n = ?n oper in if n = 0 then None else Some n"
    have ops: "m kind = Some ?ops" using cc that by (simp add: operations_counted_def)
    have dom: "dom ?ops = {oper_of x |x. x \<in> set ifos \<and> active x \<and> kind_of x = kind}"
      using tally_pos [of "\<lambda>x. active x \<and> kind_of x = kind \<and> oper_of x = oper" ifos for oper] by (auto simp: dom_def Let_def)
    have "finite (dom ?ops)" unfolding dom by simp
    from names [OF this, of kind] have "distinct (names kind ?ops)" "set (names kind ?ops) = {oper_of x |x. x \<in> set ifos \<and> active x \<and> kind_of x = kind}"
      unfolding enumerates_def dom by blast+
    then have "sort_strings (names kind ?ops) = sorted_list_of_set {oper_of x |x. x \<in> set ifos \<and> active x \<and> kind_of x = kind}"
      by (rule sort_distinct)
    moreover have "(case ?ops oper of None \<Rightarrow> 0 | Some n \<Rightarrow> n) = ?n oper" for oper by (simp add: Let_def)
    ultimately show ?thesis by (simp add: kind_line_def ops Let_def)
  qed
  then have "map (kind_line names m) ?ks = map (\<lambda>kind. ''  '' @ pad 28 (kind @ '':'') @ '' '' @
           strings_Join (map (\<lambda>oper. oper @ ''('' @ dec (tally (\<lambda>x. active x \<and> kind_of x = kind \<and> oper_of x = oper) ifos) @ '')'')
             (sorted_list_of_set {oper_of x |x. x \<in> set ifos \<and> active x \<and> kind_of x = kind})) '', '') ?ks" by simp
  then show ?thesis using empty by (simp add: printOperationSummary_def operation_table_def c ks Let_def)
qed

section \<open>Selectors\<close>

text \<open>
  What the API server documents of the selectors the plugin writes, for the ones it accepts: an empty
  selector selects everything, \<open>key=value\<close> the objects with that value, and a comma means both sides.
  \<open>ok\<close> tells whether a selector selects an object with certain labels or fields.
\<close>

definition clean :: "string \<Rightarrow> bool" where
  "clean v \<longleftrightarrow> v \<noteq> [] \<and> set v \<inter> {comma, CHR ''='', CHR ''!'', CHR 0x5C, CHR ''('', CHR '')'', CHR ''<'', CHR ''>'', CHR '' ''} = {}"

definition selector_laws :: "(string \<Rightarrow> (string \<rightharpoonup> string) \<Rightarrow> bool) \<Rightarrow> bool" where
  "selector_laws ok \<longleftrightarrow>
     (\<forall>m. ok [] m) \<and>
     (\<forall>k v m. clean k \<and> clean v \<longrightarrow> ok (key_equals k v) m = (m k = Some v)) \<and>
     (\<forall>k v s m. clean k \<and> clean v \<and> s \<noteq> [] \<longrightarrow>
        ok (key_equals k v @ comma # s) m = (m k = Some v \<and> ok s m) \<and>
        ok (s @ comma # key_equals k v) m = (ok s m \<and> m k = Some v))"

text \<open>An evaluator of such selectors.\<close>

definition equality_selector :: "string \<Rightarrow> (string \<rightharpoonup> string) \<Rightarrow> bool" where
  "equality_selector s m = list_all (\<lambda>p. case split_at (CHR ''='') p of [] \<Rightarrow> False
     | [k] \<Rightarrow> k = [] | [k, v] \<Rightarrow> m k = Some v | _ \<Rightarrow> False) (split_at comma s)"

lemma split_at_append2: "split_at sep (a @ sep # b) = split_at sep a @ split_at sep b"
  by (induction a) (auto split: list.split)

lemma equality_selector_laws: "selector_laws equality_selector"
proof -
  have eq: "split_at (CHR ''='') (key_equals k v) = [k, v]" "comma \<notin> set (key_equals k v)" if "clean k" "clean v" for k v
    using that split_at_append [of "CHR ''=''" k v] by (auto simp: key_equals_def clean_def comma_def split_at_word)
  show ?thesis
    unfolding selector_laws_def equality_selector_def
    by (auto simp: eq split_at_append2 split_at_word)
qed

definition fields_of :: "ifo \<Rightarrow> (string \<rightharpoonup> string)" where
  "fields_of x = [''spec.subject.namespace'' \<mapsto> sr_Namespace (is_Subject (ifo_Spec x)), ''spec.operation'' \<mapsto> is_Operation (ifo_Spec x),
     ''status.phase'' \<mapsto> st_Phase (ifo_Status x)]"

definition flags_clean :: "global_flags \<Rightarrow> bool" where
  "flags_clean fl \<longleftrightarrow> (\<forall>v \<in> {fl_Component fl, fl_Kind fl, fl_Namespace fl, fl_Operation fl}. v = [] \<or> clean v)"

definition field_filters :: "global_flags \<Rightarrow> ifo \<Rightarrow> bool" where
  "field_filters fl x \<longleftrightarrow>
     (fl_Namespace fl = [] \<or> sr_Namespace (is_Subject (ifo_Spec x)) = fl_Namespace fl) \<and>
     (fl_Operation fl = [] \<or> is_Operation (ifo_Spec x) = fl_Operation fl) \<and>
     (fl_AllPhases fl \<or> st_Phase (ifo_Status x) = OperationPhaseActive)"

lemma field_selector:
  assumes ok: "selector_laws ok" and cl: "flags_clean fl"
  shows "ok (lo_FieldSelector (buildListOptions fl)) (fields_of x) = field_filters fl x"
proof -
  have phase: "''status.phase=Active'' = key_equals ''status.phase'' ''Active''" by (simp add: key_equals_def)
  have k: "clean ''spec.subject.namespace''" "clean ''spec.operation''" "clean ''status.phase''" "clean ''Active''"
    by (simp_all add: clean_def comma_def)
  have f: "fields_of x ''spec.subject.namespace'' = Some (sr_Namespace (is_Subject (ifo_Spec x)))"
    "fields_of x ''spec.operation'' = Some (is_Operation (ifo_Spec x))" "fields_of x ''status.phase'' = Some (st_Phase (ifo_Status x))"
    by (simp_all add: fields_of_def)
  have ne: "key_equals k v \<noteq> []" for k v by (simp add: key_equals_def)
  show ?thesis
    using ok cl unfolding selector_laws_def field_filters_def flags_clean_def phase
    by (auto simp: buildListOptions_def Let_def k f ne phase OperationPhaseActive_def)
qed

definition label_filters :: "(string \<Rightarrow> labels \<Rightarrow> bool) \<Rightarrow> global_flags \<Rightarrow> labels \<Rightarrow> bool" where
  "label_filters ok fl ls \<longleftrightarrow>
     (fl_Component fl = [] \<or> ls LabelComponent = Some (fl_Component fl)) \<and>
     (fl_Kind fl = [] \<or> ls LabelSubjectKind = Some (fl_Kind fl)) \<and>
     (fl_Selector fl = [] \<or> ok (fl_Selector fl) ls)"

lemma label_keys_clean: "clean LabelComponent" "clean LabelSubjectKind" "clean LabelSubjectName" "clean LabelOwnerUID"
  by (simp_all add: clean_def comma_def Label_defs)

lemma label_selector:
  assumes ok: "selector_laws ok" and cl: "flags_clean fl"
  shows "ok (lo_LabelSelector (buildListOptions fl)) ls = label_filters ok fl ls"
proof -
  have ne: "key_equals k v \<noteq> []" for k v by (simp add: key_equals_def)
  show ?thesis
    using ok cl unfolding selector_laws_def label_filters_def flags_clean_def
    by (auto simp: buildListOptions_def Let_def label_keys_clean ne)
qed

lemma remove_parts:
  assumes "\<forall>p \<in> set ps. p \<noteq> [] \<and> comma \<notin> set p"
  shows "removeFieldSelector (strings_Join ps [comma]) field = strings_Join (filter (\<lambda>p. \<not> HasPrefix p (field @ ''='')) ps) [comma]"
proof (cases ps)
  case Nil
  then show ?thesis by (simp add: removeFieldSelector_def)
next
  case (Cons p qs)
  then have "strings_Join ps [comma] \<noteq> []" using assms by (cases qs) auto
  moreover have "split_at comma (strings_Join ps [comma]) = ps" using assms Cons by (intro split_at_Join) auto
  ultimately show ?thesis by (simp add: removeFieldSelector_def)
qed

lemma field_parts:
  "lo_FieldSelector (buildListOptions fl) = strings_Join
     ((if fl_Namespace fl \<noteq> [] then [key_equals ''spec.subject.namespace'' (fl_Namespace fl)] else []) @
      (if fl_Operation fl \<noteq> [] then [key_equals ''spec.operation'' (fl_Operation fl)] else []) @
      (if \<not> fl_AllPhases fl then [''status.phase=Active''] else [])) [comma]"
  by (simp add: buildListOptions_def Let_def)

lemma removeFieldSelector_phase_eq:
  assumes "comma \<notin> set (fl_Namespace fl)" and "comma \<notin> set (fl_Operation fl)"
  shows "removeFieldSelector (lo_FieldSelector (buildListOptions fl)) ''status.phase'' =
    lo_FieldSelector (buildListOptions (fl\<lparr>fl_AllPhases := True\<rparr>))"
proof -
  let ?ns = "if fl_Namespace fl \<noteq> [] then [key_equals ''spec.subject.namespace'' (fl_Namespace fl)] else []"
  let ?op = "if fl_Operation fl \<noteq> [] then [key_equals ''spec.operation'' (fl_Operation fl)] else []"
  let ?ph = "if \<not> fl_AllPhases fl then [''status.phase=Active''] else []"
  have "\<forall>p \<in> set (?ns @ ?op @ ?ph). p \<noteq> [] \<and> comma \<notin> set p"
    using assms by (auto simp: key_equals_def comma_def)
  from remove_parts [OF this] have "removeFieldSelector (lo_FieldSelector (buildListOptions fl)) ''status.phase'' =
      strings_Join (filter (\<lambda>p. \<not> HasPrefix p (''status.phase'' @ ''='')) (?ns @ ?op @ ?ph)) [comma]"
    by (simp only: field_parts)
  also have "filter (\<lambda>p. \<not> HasPrefix p (''status.phase'' @ ''='')) (?ns @ ?op @ ?ph) = ?ns @ ?op"
    by (simp add: key_equals_def)
  finally show ?thesis by (simp add: field_parts)
qed

lemma and_labels_selects:
  assumes "selector_laws ok" and "clean k" and "clean v"
  shows "ok (lo_LabelSelector (and_labels opts [key_equals k v])) m \<longleftrightarrow> ok (lo_LabelSelector opts) m \<and> m k = Some v"
  using assms by (auto simp: and_labels_def selector_laws_def)

lemma and_labels_selects2:
  assumes "selector_laws ok" and "clean k" and "clean v" and "clean k'" and "clean v'"
  shows "ok (lo_LabelSelector (and_labels opts [key_equals k v, key_equals k' v'])) m \<longleftrightarrow>
    ok (lo_LabelSelector opts) m \<and> m k = Some v \<and> m k' = Some v'"
proof -
  have "and_labels opts [key_equals k v, key_equals k' v'] = and_labels (and_labels opts [key_equals k v]) [key_equals k' v']"
    by (simp add: and_labels_def key_equals_def)
  then show ?thesis using and_labels_selects [OF assms(1)] assms by simp
qed

lemma and_labels_fields [simp]: "lo_FieldSelector (and_labels opts parts) = lo_FieldSelector opts"
  by (simp add: and_labels_def)

text \<open>A server whose objects do not change and that answers every query with the selected ones.\<close>

definition selected ::
  "(string \<Rightarrow> labels \<Rightarrow> bool) \<Rightarrow> (string \<Rightarrow> (string \<rightharpoonup> string) \<Rightarrow> bool) \<Rightarrow> list_options \<Rightarrow> ifo \<Rightarrow> bool"
where
  "selected lab fld opts x \<longleftrightarrow> lab (lo_LabelSelector opts) (ifo_Labels x) \<and> fld (lo_FieldSelector opts) (fields_of x)"

definition answers where
  "answers cx lab fld objs \<longleftrightarrow> (\<forall>opts w. IFOClient_List cx opts w = (Inr (filter (selected lab fld opts) objs), w))"

text \<open>One such server: its objects are texts, the names of the operations, which decoding looks up.\<close>

definition demo_cluster :: "ifo list \<Rightarrow> (unit, string, unit) cluster" where
  "demo_cluster objs = \<lparr>cx_config = \<lambda>path ctx. Inr (), cx_dynamic = \<lambda>config. None,
     cx_List = \<lambda>opts w. (Inr (map ifo_Name (filter (selected equality_selector equality_selector opts) objs)), w),
     cx_Get = \<lambda>name w. (Inr name, w), cx_marshal = Inr,
     cx_unmarshal = \<lambda>s. (case find (\<lambda>x. ifo_Name x = s) objs of None \<Rightarrow> Inl (Plain s) | Some x \<Rightarrow> Inr x),
     cx_terminal = False, cx_clock = \<lambda>i. 0, cx_rfc3339 = \<lambda>t. [], cx_json = \<lambda>xs. Inr [], cx_yaml = \<lambda>xs. Inr [],
     cx_json1 = \<lambda>x. Inr [], cx_yaml1 = \<lambda>x. Inr [], cx_groups = sorted_groups,
     cx_ops = \<lambda>kind m. sorted_list_of_set (dom m), cx_labels = \<lambda>m. sorted_list_of_set (dom m)\<rparr>"

lemma convert_loop_all:
  "\<forall>x \<in> set xs. convert cx (f x) = Inr x \<Longrightarrow> convert_loop cx (map f xs) acc = Inr (acc @ xs)"
  by (induction xs arbitrary: acc) simp_all

lemma find_name: "distinct (map ifo_Name objs) \<Longrightarrow> x \<in> set objs \<Longrightarrow> find (\<lambda>y. ifo_Name y = ifo_Name x) objs = Some x"
  by (induction objs) (auto simp: image_iff)

lemma demo_answers:
  assumes "distinct (map ifo_Name objs)"
  shows "answers (demo_cluster objs) equality_selector equality_selector objs"
proof -
  have "convert (demo_cluster objs) (ifo_Name x) = Inr x" if "x \<in> set objs" for x
    using find_name [OF assms that] by (simp add: convert_def demo_cluster_def)
  then have "convert_loop (demo_cluster objs) (map ifo_Name (filter P objs)) [] = Inr (filter P objs)" for P
    using convert_loop_all [of "filter P objs" "demo_cluster objs" ifo_Name "[]"] by simp
  moreover have "cx_List (demo_cluster objs) opts w = (Inr (map ifo_Name (filter (selected equality_selector equality_selector opts) objs)), w)" for opts w
    by (simp add: demo_cluster_def)
  ultimately show ?thesis by (simp add: answers_def IFOClient_List_def convertList_def)
qed

text \<open>The family of a resource: what \<open>tree --for\<close> collects on such a server.\<close>

definition family_roots where
  "family_roots lab fl kind name objs = filter (\<lambda>x. label_filters lab fl (ifo_Labels x) \<and> field_filters fl x \<and>
     ifo_Labels x LabelSubjectKind = Some kind \<and> ifo_Labels x LabelSubjectName = Some name) objs"

definition family_children where
  "family_children lab fl roots objs =
     (if roots = [] \<or> subject_UID (hd roots) = [] then []
      else filter (\<lambda>x. label_filters lab fl (ifo_Labels x) \<and> field_filters fl x \<and>
        ifo_Labels x LabelOwnerUID = Some (subject_UID (hd roots))) objs)"

definition family_grandchildren where
  "family_grandchildren fl children objs = concat (map (\<lambda>c. if subject_UID c = [] then []
     else filter (\<lambda>x. field_filters fl x \<and> ifo_Labels x LabelOwnerUID = Some (subject_UID c)) objs) children)"

lemma grandchildren_collected:
  assumes ans: "answers cx lab fld objs" and laws: "selector_laws lab" "selector_laws fld" and cl: "flags_clean fl"
  shows "\<forall>c \<in> set children. subject_UID c = [] \<or> clean (subject_UID c) \<Longrightarrow>
    grandchildren_loop cx fl children acc w = (Inr (acc @ family_grandchildren fl children objs), w)"
proof (induction children arbitrary: acc)
  case Nil
  then show ?case by (simp add: family_grandchildren_def)
next
  case (Cons c cs)
  let ?o = "(buildListOptions fl)\<lparr>lo_LabelSelector := key_equals LabelOwnerUID (subject_UID c)\<rparr>"
  have sel: "selected lab fld ?o x \<longleftrightarrow> field_filters fl x \<and> ifo_Labels x LabelOwnerUID = Some (subject_UID c)"
    if "clean (subject_UID c)" for x
    using laws(1) that label_keys_clean field_selector [OF laws(2) cl] by (auto simp: selected_def selector_laws_def)
  have list: "IFOClient_List cx opts w = (Inr (filter (selected lab fld opts) objs), w)" for opts using ans by (simp add: answers_def)
  have "filter (selected lab fld ?o) objs = filter (\<lambda>x. field_filters fl x \<and> ifo_Labels x LabelOwnerUID = Some (subject_UID c)) objs"
    if "subject_UID c \<noteq> []"
    using sel Cons.prems that by (intro filter_cong refl) simp
  then show ?case using Cons by (simp add: list Let_def family_grandchildren_def)
qed

definition demo_flags :: global_flags where
  "demo_flags = \<lparr>fl_Kubeconfig = [], fl_Context = [], fl_AllPhases = True, fl_Namespace = [], fl_Component = ''network'', fl_Kind = [],
     fl_Operation = ''Migrating'', fl_Output = OutputTable, fl_Color = False, fl_NoColor = False, fl_Selector = []\<rparr>"

section \<open>Properties\<close>

text \<open>
  C29. The filters of the plugin and the labels of the controller agree: on an operation built by the controller,
  whatever its status, the selectors made from the flags select it exactly if its component, subject kind,
  subject namespace and operation are the ones asked for, the user's own selector selects its labels, and it is
  active or all phases are asked for.
\<close>

theorem flags_select_built:
  assumes "selector_laws lab" and "selector_laws fld" and "flags_clean fl"
    and "ifo_Labels x = operationLabels subj oper rs dyn" and "ifo_Spec x = ifo_Spec (Build subj oper rs dyn)"
  shows "lab (lo_LabelSelector (buildListOptions fl)) (ifo_Labels x) \<and> fld (lo_FieldSelector (buildListOptions fl)) (fields_of x) \<longleftrightarrow>
    (fl_Component fl = [] \<or> is_Component (ifo_Spec x) = fl_Component fl) \<and>
    (fl_Kind fl = [] \<or> sr_Kind (is_Subject (ifo_Spec x)) = fl_Kind fl) \<and>
    (fl_Selector fl = [] \<or> lab (fl_Selector fl) (ifo_Labels x)) \<and>
    (fl_Namespace fl = [] \<or> sr_Namespace (is_Subject (ifo_Spec x)) = fl_Namespace fl) \<and>
    (fl_Operation fl = [] \<or> is_Operation (ifo_Spec x) = fl_Operation fl) \<and>
    (fl_AllPhases fl \<or> st_Phase (ifo_Status x) = OperationPhaseActive)"
  using assms by (simp add: label_selector field_selector label_filters_def field_filters_def Build_def)

theorem flags_select_built_witness:
  "\<forall>rs. \<not> (equality_selector (lo_LabelSelector (buildListOptions demo_flags)) (operationLabels JNull ''Draining'' rs Map.empty) \<and>
     equality_selector (lo_FieldSelector (buildListOptions demo_flags)) (fields_of (Build JNull ''Draining'' rs Map.empty)))"
proof
  fix rs
  have "flags_clean demo_flags" by (simp add: flags_clean_def demo_flags_def clean_def comma_def)
  from flags_select_built [OF equality_selector_laws equality_selector_laws this,
      of "Build JNull ''Draining'' rs Map.empty" JNull "''Draining''" rs Map.empty]
  show "\<not> (equality_selector (lo_LabelSelector (buildListOptions demo_flags)) (operationLabels JNull ''Draining'' rs Map.empty) \<and>
     equality_selector (lo_FieldSelector (buildListOptions demo_flags)) (fields_of (Build JNull ''Draining'' rs Map.empty)))"
    by (simp add: Build_def demo_flags_def)
qed

text \<open>
  Dropping the phase filter gives back the query for all phases: for a namespace and an operation without a comma
  \<open>removeFieldSelector\<close> undoes what the missing \<open>--all-phases\<close> added to the field selector.
\<close>

theorem removeFieldSelector_phase:
  assumes "comma \<notin> set (fl_Namespace fl)" and "comma \<notin> set (fl_Operation fl)"
  shows "removeFieldSelector (lo_FieldSelector (buildListOptions fl)) ''status.phase'' =
    lo_FieldSelector (buildListOptions (fl\<lparr>fl_AllPhases := True\<rparr>))"
  using assms by (rule removeFieldSelector_phase_eq)

theorem removeFieldSelector_phase_witness:
  "removeFieldSelector (lo_FieldSelector (buildListOptions (demo_flags\<lparr>fl_AllPhases := False\<rparr>))) ''status.phase'' = ''spec.operation=Migrating''"
proof -
  have "comma \<notin> set (fl_Namespace (demo_flags\<lparr>fl_AllPhases := False\<rparr>))" "comma \<notin> set (fl_Operation (demo_flags\<lparr>fl_AllPhases := False\<rparr>))"
    by (simp_all add: demo_flags_def comma_def)
  from removeFieldSelector_phase [OF this] show ?thesis
    by (simp add: demo_flags_def buildListOptions_def key_equals_def)
qed

text \<open>
  C31. The summary counts every operation once: with whatever phase flag, the summary asks for all phases and prints, for each
  component in order, how many of its operations are active and how many are not, the totals over all of them,
  and below, for each subject kind that has active operations, how many of each operation are active.
\<close>

theorem runSummary_counts:
  assumes "\<forall>kind m. finite (dom m) \<longrightarrow> enumerates (cx_ops cx kind m) m"
    and "comma \<notin> set (fl_Namespace fl)" and "comma \<notin> set (fl_Operation fl)" and "newClient cx fl = None"
    and "IFOClient_List cx (buildListOptions (fl\<lparr>fl_AllPhases := True\<rparr>)) w = (Inr ifos, w')"
  shows "runSummary cx fl w = ((None, if ifos = [] then nothing_found
     else lines_out (component_table (color_of cx fl) ifos @ [[]] @ operation_table (color_of cx fl) ifos)), w')"
proof -
  have "(buildListOptions fl)\<lparr>lo_FieldSelector := removeFieldSelector (lo_FieldSelector (buildListOptions fl)) ''status.phase''\<rparr> =
      buildListOptions (fl\<lparr>fl_AllPhases := True\<rparr>)"
    by (simp add: removeFieldSelector_phase_eq [OF assms(2,3)]) (simp add: buildListOptions_def Let_def)
  moreover have "printOperationSummary (cx_ops cx) color ifos = operation_table color ifos" for color
    using assms(1) by (intro operation_summary) blast
  ultimately show ?thesis using assms(4,5) by (simp add: runSummary_def component_summary Let_def)
qed

text \<open>
  C32. What \<open>tree --for\<close> collects: of the operations on the named subject that pass the filters (the roots), of those whose
  first owner is the subject of the first root (the children), and, for each child with a UID, of the operations
  whose first owner is the child's subject, all that pass the filters on fields; the filters on labels are not
  applied to these, owners other than the first and deeper levels are not followed, and what belongs to two operations
  on the same child subject is collected once for each of them.
\<close>

theorem listForResource_family:
  assumes "answers cx lab fld objs" and "selector_laws lab" and "selector_laws fld" and "flags_clean fl"
    and "parseKindName treeFor = Inr (kind, name)" and "clean kind" and "clean name"
    and "\<forall>x \<in> set objs. subject_UID x = [] \<or> clean (subject_UID x)"
  shows "\<exists>roots children. roots = family_roots lab fl kind name objs \<and> children = family_children lab fl roots objs \<and>
    listForResource cx fl treeFor w = (Inr (roots @ children @ family_grandchildren fl children objs), w)"
proof -
  let ?roots = "family_roots lab fl kind name objs" and ?o = "buildListOptions fl"
  note sel = selected_def label_selector [OF assms(2,4)] field_selector [OF assms(3,4)]
  have roots: "filter (selected lab fld (and_labels ?o [key_equals LabelSubjectKind kind, key_equals LabelSubjectName name])) objs = ?roots"
    unfolding family_roots_def
    by (rule filter_cong [OF refl]) (simp add: sel and_labels_selects2 [OF assms(2) label_keys_clean(2) assms(6) label_keys_clean(3) assms(7)] conj_ac)
  have children: "filter (selected lab fld (and_labels ?o [key_equals LabelOwnerUID (subject_UID (hd ?roots))])) objs =
      family_children lab fl ?roots objs" if "?roots \<noteq> []" "subject_UID (hd ?roots) \<noteq> []"
  proof -
    have "hd ?roots \<in> set objs" using that(1) hd_in_set [of ?roots] by (auto simp: family_roots_def)
    with assms(8) that(2) have "clean (subject_UID (hd ?roots))" by blast
    with that show ?thesis unfolding family_children_def
      by (auto simp: sel and_labels_selects [OF assms(2) label_keys_clean(4)] intro!: filter_cong)
  qed
  have gc: "grandchildren_loop cx fl (family_children lab fl ?roots objs) acc w =
      (Inr (acc @ family_grandchildren fl (family_children lab fl ?roots objs) objs), w)" for acc
    using assms(8) by (intro grandchildren_collected [OF assms(1-4)]) (auto simp: family_children_def)
  have "listForResource cx fl treeFor w = (Inr (?roots @ family_children lab fl ?roots objs @
      family_grandchildren fl (family_children lab fl ?roots objs) objs), w)"
  proof (cases ?roots)
    case Nil
    with roots assms(1,5) show ?thesis
      by (simp add: listForResource_def answers_def Let_def family_children_def family_grandchildren_def)
  next
    case (Cons root rest)
    show ?thesis
    proof (cases "subject_UID root = []")
      case True
      with Cons roots assms(1,5) show ?thesis
        by (simp add: listForResource_def answers_def Let_def family_children_def family_grandchildren_def)
    next
      case False
      with Cons roots children gc assms(1,5) show ?thesis
        by (simp add: listForResource_def answers_def Let_def)
    qed
  qed
  then show ?thesis by blast
qed

definition demo_owned :: "string \<Rightarrow> string \<Rightarrow> string \<Rightarrow> string \<Rightarrow> ifo" where
  "demo_owned nm subj uid own = demo_ifo nm uid [own] [LabelSubjectKind \<mapsto> ''K'', LabelSubjectName \<mapsto> subj, LabelOwnerUID \<mapsto> own] 0"

definition demo_family :: "ifo list" where
  "demo_family = [demo_owned ''start'' ''vm'' ''u1'' [], demo_owned ''boot'' ''vmi'' ''u2'' ''u1'',
     demo_owned ''move'' ''vmi'' ''u2'' ''u1'', demo_owned ''pull'' ''pod'' ''u3'' ''u2'']"

definition all_flags :: global_flags where
  "all_flags = demo_flags\<lparr>fl_Component := [], fl_Operation := []\<rparr>"

theorem listForResource_family_witness:
  "map_sum id (map ifo_Name) (fst (listForResource (demo_cluster demo_family) all_flags ''K/vm'' ())) =
     Inr [''start'', ''boot'', ''move'', ''pull'', ''pull'']"
proof -
  have ans: "answers (demo_cluster demo_family) equality_selector equality_selector demo_family"
    by (rule demo_answers) (simp add: demo_family_def demo_owned_def demo_ifo_def)
  have fl: "flags_clean all_flags" "label_filters ok all_flags ls" "field_filters all_flags x" for ok ls x
    by (simp_all add: all_flags_def demo_flags_def flags_clean_def label_filters_def field_filters_def)
  have uid: "subject_UID (demo_owned nm subj u own) = u" for nm subj u own by (simp add: demo_owned_def demo_ifo_def subject_UID_def)
  have lab: "ifo_Labels (demo_owned nm subj u own) LabelSubjectKind = Some ''K''" "ifo_Labels (demo_owned nm subj u own) LabelSubjectName = Some subj"
    "ifo_Labels (demo_owned nm subj u own) LabelOwnerUID = Some own" "ifo_Name (demo_owned nm subj u own) = nm" for nm subj u own
    by (simp_all add: demo_owned_def demo_ifo_def Label_defs)
  have "clean ''K''" "clean ''vm''" "\<forall>x \<in> set demo_family. subject_UID x = [] \<or> clean (subject_UID x)"
    by (simp_all add: clean_def comma_def demo_family_def uid)
  from listForResource_family [OF ans equality_selector_laws equality_selector_laws fl(1) _ this, of "''K/vm''" "()"]
  show ?thesis
    by (simp add: parseKindName_def family_roots_def family_children_def family_grandchildren_def fl uid lab demo_family_def)
qed

theorem runSummary_counts_witness:
  "\<exists>out. runSummary (demo_cluster demo_family) all_flags () = ((None, out), ()) \<and> out = lines_out (component_table (color_of (demo_cluster demo_family) all_flags) demo_family @ [[]])"
proof -
  have "answers (demo_cluster demo_family) equality_selector equality_selector demo_family"
    by (rule demo_answers) (simp add: demo_family_def demo_owned_def demo_ifo_def)
  moreover have "filter (selected equality_selector equality_selector (buildListOptions (all_flags\<lparr>fl_AllPhases := True\<rparr>))) demo_family = demo_family"
    by (simp add: selected_def all_flags_def demo_flags_def buildListOptions_def equality_selector_def)
  ultimately have lst: "IFOClient_List (demo_cluster demo_family) (buildListOptions (all_flags\<lparr>fl_AllPhases := True\<rparr>)) () = (Inr demo_family, ())"
    by (simp add: answers_def)
  have "\<forall>kind m. finite (dom m) \<longrightarrow> enumerates (cx_ops (demo_cluster demo_family) kind m) m"
    by (simp add: demo_cluster_def enumerates_def)
  moreover have "comma \<notin> set (fl_Namespace all_flags)" "comma \<notin> set (fl_Operation all_flags)" "newClient (demo_cluster demo_family) all_flags = None"
    by (simp_all add: all_flags_def demo_flags_def demo_cluster_def newClient_def NewFromKubeconfig_def newFromConfig_def)
  ultimately have "runSummary (demo_cluster demo_family) all_flags () = ((None, if demo_family = [] then nothing_found
     else lines_out (component_table (color_of (demo_cluster demo_family) all_flags) demo_family @ [[]] @
       operation_table (color_of (demo_cluster demo_family) all_flags) demo_family)), ())"
    by (rule runSummary_counts [OF _ _ _ _ lst])
  moreover have "\<forall>x \<in> set demo_family. \<not> active x"
    by (simp add: demo_family_def demo_owned_def demo_ifo_def active_def empty_status_def OperationPhaseActive_def)
  ultimately show ?thesis by (simp add: operation_table_def demo_family_def)
qed

text \<open>
  \<open>tree\<close> always ends with a result, whatever the server answers: the forest is built, and the tree or the forest
  printed, within as many levels of recursion as there are operations.
\<close>

theorem runTree_ends:
  assumes "order_ok (cx_groups cx)"
  shows "\<exists>r. runTree cx fl treeFor w = Some r"
proof -
  let ?query = "if treeFor \<noteq> [] then listForResource cx fl treeFor w else IFOClient_List cx (buildListOptions fl) w"
  obtain q w' where q: "?query = (q, w')" by (cases ?query)
  consider err where "newClient cx fl = Some err" | err where "newClient cx fl = None" "q = Inl err"
    | ifos where "newClient cx fl = None" "q = Inr ifos"
    by (cases "newClient cx fl"; cases q) auto
  then show ?thesis
  proof cases
    case 1
    then show ?thesis by (simp add: runTree_def)
  next
    case 2
    with q show ?thesis by (simp only: runTree_def option.case prod.case sum.case) blast
  next
    case 3
    from BuildForest_spec [OF assms order_refl, of ifos] obtain f where
      f: "BuildForest (length ifos) ifos (DefaultCorrelators (cx_groups cx)) = Some f" "forest_ok f" "length (f_nodes f) \<le> length ifos"
      by blast
    obtain ls where forest: "PrintForest (length ifos) (color_of cx fl) (cx_clock cx) f = Some ls" using PrintForest_ends [OF f(2,3)] by blast
    have tree: "\<exists>ls. PrintTree (length ifos) (color_of cx fl) (cx_clock cx) (f_nodes f) (f_Roots f ! 0) = Some ls" if "length (f_Roots f) = 1"
      by (rule PrintTree_ends [OF f(2,3)]) (simp add: that)
    have "\<exists>ls. (if treeFor \<noteq> [] \<and> length (f_Roots f) = 1
        then PrintTree (length ifos) (color_of cx fl) (cx_clock cx) (f_nodes f) (f_Roots f ! 0)
        else PrintForest (length ifos) (color_of cx fl) (cx_clock cx) f) = Some ls"
      using forest tree by simp
    then obtain ls' where ls': "(if treeFor \<noteq> [] \<and> length (f_Roots f) = 1
        then PrintTree (length ifos) (color_of cx fl) (cx_clock cx) (f_nodes f) (f_Roots f ! 0)
        else PrintForest (length ifos) (color_of cx fl) (cx_clock cx) f) = Some ls'" ..
    show ?thesis
      by (simp only: runTree_def q 3 f(1) ls' Let_def option.case prod.case sum.case) (simp split: if_split)
  qed
qed

theorem runTree_ends_witness:
  "\<forall>fl treeFor. \<exists>r. runTree (demo_cluster demo_family) fl treeFor () = Some r"
  using runTree_ends [of "demo_cluster demo_family"] sorted_groups_ok by (simp add: demo_cluster_def)

text \<open>With nothing to list, the output format asked for does not matter.\<close>

theorem runList_nothing:
  assumes "newClient cx fl = None" and "IFOClient_List cx (buildListOptions fl) w = (Inr [], w')"
  shows "runList cx fl w = ((None, ''No in-flight operations found.'' @ [CHR 0x0A]), w')"
  using assms by (simp add: runList_def nothing_found_def lines_out_def)

theorem runList_nothing_witness:
  "runList (demo_cluster []) (all_flags\<lparr>fl_Output := OutputJSON\<rparr>) () = ((None, ''No in-flight operations found.'' @ [CHR 0x0A]), ())"
proof -
  have "answers (demo_cluster []) equality_selector equality_selector []" by (rule demo_answers) simp
  then have "IFOClient_List (demo_cluster []) opts () = (Inr [], ())" for opts by (simp add: answers_def)
  moreover have "newClient (demo_cluster []) (all_flags\<lparr>fl_Output := OutputJSON\<rparr>) = None"
    by (simp add: demo_cluster_def newClient_def NewFromKubeconfig_def newFromConfig_def)
  ultimately show ?thesis by (intro runList_nothing)
qed

end
