(* ===== verification/Role_Generators.thy ===== *)
theory Role_Generators
  imports Errors
begin

text \<open>
  The build-time tools over the rule set files: the generator of the watch role
  (\<open>cmd/watch-role-generator\<close>) and the bundler (\<open>cmd/ruleset-bundler\<close>). The file system is a record:
  what reading a file or a directory answers, and the calls \<open>filepath.WalkDir\<close> makes to its callback,
  in order. The YAML codecs and the writer are arguments; the orders in which maps are visited too.
\<close>

section \<open>The file system\<close>

record dir_entry =
  de_Path :: string
  de_Name :: string
  de_IsDir :: bool
  de_Err :: "goerr option"

record fsys =
  fs_Walk :: "string \<Rightarrow> dir_entry list"
  fs_ReadDir :: "string \<Rightarrow> goerr + dir_entry list"
  fs_ReadFile :: "string \<Rightarrow> goerr + string"
  fs_Join :: "string \<Rightarrow> string \<Rightarrow> string"

text \<open>\<open>WalkDir\<close> stops at the first call that answers an error, and answers it.\<close>

fun walk :: "(dir_entry \<Rightarrow> 's \<Rightarrow> goerr option \<times> 's) \<Rightarrow> dir_entry list \<Rightarrow> 's \<Rightarrow> goerr option \<times> 's" where
  "walk f [] s = (None, s)"
| "walk f (e # es) s = (case f e s of (Some err, s) \<Rightarrow> (Some err, s) | (None, s) \<Rightarrow> walk f es s)"

definition HasSuffix :: "string \<Rightarrow> string \<Rightarrow> bool" where
  "HasSuffix s suffix = HasPrefix (rev s) (rev suffix)"

section \<open>The targets of the rule sets\<close>

record ruleSetTarget =
  rt_Group :: string
  rt_Resource :: string

record ruleSetSpec =
  rss_Target :: ruleSetTarget

record ruleSetDocument =
  rd_Spec :: ruleSetSpec

type_synonym string_set = "string \<rightharpoonup> unit"

definition collect_step ::
  "fsys \<Rightarrow> (string \<Rightarrow> goerr + ruleSetDocument) \<Rightarrow> dir_entry \<Rightarrow> (string \<rightharpoonup> string_set) \<Rightarrow> goerr option \<times> (string \<rightharpoonup> string_set)"
where
  "collect_step fs unmarshal d grouped =
     (case de_Err d of
        Some err \<Rightarrow> (Some err, grouped)
      | None \<Rightarrow>
          if de_IsDir d then (None, grouped)
          else if \<not> HasSuffix (de_Name d) ''.yaml'' then (None, grouped)
          else
            (case fs_ReadFile fs (de_Path d) of
               Inl err \<Rightarrow> (Some (errorf (''reading '' @ de_Path d) err), grouped)
             | Inr data \<Rightarrow>
                 (case unmarshal data of
                    Inl err \<Rightarrow> (Some (errorf (''parsing '' @ de_Path d) err), grouped)
                  | Inr doc \<Rightarrow>
                      (let target = rss_Target (rd_Spec doc) in
                       if rt_Resource target = [] then (None, grouped)
                       else
                         (let grp = rt_Group target;
                              grouped = (if grouped grp = None then grouped(grp \<mapsto> Map.empty) else grouped);
                              resources = (case grouped grp of None \<Rightarrow> Map.empty | Some rs \<Rightarrow> rs) in
                          (None, grouped(grp \<mapsto> resources(rt_Resource target \<mapsto> ()))))))))"

text \<open>\<open>groups\<close> and \<open>members\<close> give the orders of the two ranges.\<close>

fun sorted_resources :: "(string_set \<Rightarrow> string list) \<Rightarrow> (string \<rightharpoonup> string_set) \<Rightarrow> string list \<Rightarrow> (string \<rightharpoonup> string list) \<Rightarrow> (string \<rightharpoonup> string list)" where
  "sorted_resources members grouped [] result = result"
| "sorted_resources members grouped (grp # gs) result =
     sorted_resources members grouped gs
       (result(grp \<mapsto> sort_strings (members (case grouped grp of None \<Rightarrow> Map.empty | Some rs \<Rightarrow> rs))))"

definition collectTargets ::
  "((string \<rightharpoonup> string_set) \<Rightarrow> string list) \<Rightarrow> (string_set \<Rightarrow> string list) \<Rightarrow> fsys \<Rightarrow> (string \<Rightarrow> goerr + ruleSetDocument) \<Rightarrow>
   string \<Rightarrow> goerr + (string \<rightharpoonup> string list)"
where
  "collectTargets groups members fs unmarshal rulesDir =
     (case walk (collect_step fs unmarshal) (fs_Walk fs rulesDir) Map.empty of
        (Some err, _) \<Rightarrow> Inl (errorf (''walking rules directory '' @ rulesDir) err)
      | (None, grouped) \<Rightarrow> Inr (sorted_resources members grouped (groups grouped) Map.empty))"

section \<open>The watch role\<close>

record PolicyRule =
  pr_APIGroups :: "string list"
  pr_Resources :: "string list"
  pr_Verbs :: "string list"

record ClusterRoleMeta =
  cm_Name :: string

record ClusterRole =
  cr_APIVersion :: string
  cr_Kind :: string
  cr_Metadata :: ClusterRoleMeta
  cr_Rules :: "PolicyRule list"

definition buildClusterRole :: "((string \<rightharpoonup> string list) \<Rightarrow> string list) \<Rightarrow> string \<Rightarrow> (string \<rightharpoonup> string list) \<Rightarrow> ClusterRole" where
  "buildClusterRole keys name targets =
     (let groups = sort_strings (keys targets);
          rules = map (\<lambda>grp. \<lparr>
            pr_APIGroups = [grp],
            pr_Resources = (case targets grp of None \<Rightarrow> [] | Some rs \<Rightarrow> rs),
            pr_Verbs = [''get'', ''list'', ''watch'']\<rparr>) groups in
      \<lparr>cr_APIVersion = ''rbac.authorization.k8s.io/v1'', cr_Kind = ''ClusterRole'',
       cr_Metadata = \<lparr>cm_Name = name\<rparr>, cr_Rules = rules\<rparr>)"

record generator_orders =
  go_groups :: "(string \<rightharpoonup> string_set) \<Rightarrow> string list"
  go_members :: "string_set \<Rightarrow> string list"
  go_targets :: "(string \<rightharpoonup> string list) \<Rightarrow> string list"

definition role_run ::
  "generator_orders \<Rightarrow> fsys \<Rightarrow> (string \<Rightarrow> goerr + ruleSetDocument) \<Rightarrow> (ClusterRole \<Rightarrow> goerr + string) \<Rightarrow>
   (string \<Rightarrow> 'w \<Rightarrow> goerr option \<times> 'w) \<Rightarrow> string \<Rightarrow> string \<Rightarrow> 'w \<Rightarrow> goerr option \<times> 'w"
where
  "role_run ord fs unmarshal marshal write rulesDir roleName w =
     (case collectTargets (go_groups ord) (go_members ord) fs unmarshal rulesDir of
        Inl err \<Rightarrow> (Some err, w)
      | Inr targets \<Rightarrow>
          (let role = buildClusterRole (go_targets ord) roleName targets in
           case marshal role of
             Inl err \<Rightarrow> (Some (errorf ''marshaling ClusterRole'' err), w)
           | Inr yamlBytes \<Rightarrow>
               (case write (''---'' @ [CHR 0x0A]) w of
                  (Some err, w) \<Rightarrow> (Some err, w)
                | (None, w) \<Rightarrow> write yamlBytes w)))"

section \<open>The bundle\<close>

definition bundle_step :: "dir_entry \<Rightarrow> string list \<Rightarrow> goerr option \<times> string list" where
  "bundle_step d paths =
     (case de_Err d of
        Some err \<Rightarrow> (Some err, paths)
      | None \<Rightarrow>
          if de_IsDir d \<or> \<not> HasSuffix (de_Name d) ''.yaml'' then (None, paths)
          else (None, paths @ [de_Path d]))"

text \<open>
  \<open>bytes.TrimSpace\<close>: the white space of \<open>unicode.IsSpace\<close>, in UTF-8, is taken off both ends.
\<close>

definition space_runes :: "string list" where
  "space_runes = [[CHR 0x09], [CHR 0x0A], [CHR 0x0B], [CHR 0x0C], [CHR 0x0D], [CHR 0x20], [CHR 0xC2, CHR 0x85], [CHR 0xC2, CHR 0xA0],
     [CHR 0xE1, CHR 0x9A, CHR 0x80], [CHR 0xE2, CHR 0x80, CHR 0x80], [CHR 0xE2, CHR 0x80, CHR 0x81], [CHR 0xE2, CHR 0x80, CHR 0x82],
     [CHR 0xE2, CHR 0x80, CHR 0x83], [CHR 0xE2, CHR 0x80, CHR 0x84], [CHR 0xE2, CHR 0x80, CHR 0x85], [CHR 0xE2, CHR 0x80, CHR 0x86],
     [CHR 0xE2, CHR 0x80, CHR 0x87], [CHR 0xE2, CHR 0x80, CHR 0x88], [CHR 0xE2, CHR 0x80, CHR 0x89], [CHR 0xE2, CHR 0x80, CHR 0x8A],
     [CHR 0xE2, CHR 0x80, CHR 0xA8], [CHR 0xE2, CHR 0x80, CHR 0xA9], [CHR 0xE2, CHR 0x80, CHR 0xAF], [CHR 0xE2, CHR 0x81, CHR 0x9F],
     [CHR 0xE3, CHR 0x80, CHR 0x80]]"

function strip :: "string list \<Rightarrow> string \<Rightarrow> string" where
  "strip ps s = (case find (\<lambda>p. p \<noteq> [] \<and> HasPrefix s p) ps of None \<Rightarrow> s | Some p \<Rightarrow> strip ps (drop (length p) s))"
  by pat_completeness auto
termination strip
proof (relation "measure (\<lambda>(ps, s). length s)", simp)
  fix ps s p assume "find (\<lambda>p. p \<noteq> [] \<and> HasPrefix s p) ps = Some p"
  then have "p \<noteq> []" "HasPrefix s p" by (auto simp: find_Some_iff)
  then show "((ps, drop (length p) s), ps, s) \<in> measure (\<lambda>(ps, s). length s)" by (auto simp: HasPrefix_iff)
qed

declare strip.simps [simp del]

definition TrimSpace :: "string \<Rightarrow> string" where
  "TrimSpace s = rev (strip (map rev space_runes) (rev (strip space_runes s)))"

fun bundle_write ::
  "fsys \<Rightarrow> (string \<Rightarrow> 'w \<Rightarrow> goerr option \<times> 'w) \<Rightarrow> string list \<Rightarrow> 'w \<Rightarrow> goerr option \<times> 'w"
where
  "bundle_write fs write [] w = (None, w)"
| "bundle_write fs write (path # rest) w =
     (case fs_ReadFile fs path of
        Inl err \<Rightarrow> (Some (errorf (''reading '' @ path) err), w)
      | Inr data \<Rightarrow>
          (let data = TrimSpace data in
           case write (''---'' @ [CHR 0x0A]) w of
             (Some err, w) \<Rightarrow> (Some err, w)
           | (None, w) \<Rightarrow>
               (case write data w of
                  (Some err, w) \<Rightarrow> (Some err, w)
                | (None, w) \<Rightarrow>
                    if rest \<noteq> [] then
                      (case write [CHR 0x0A] w of
                         (Some err, w) \<Rightarrow> (Some err, w)
                       | (None, w) \<Rightarrow> bundle_write fs write rest w)
                    else bundle_write fs write rest w)))"

definition bundler_run :: "fsys \<Rightarrow> (string \<Rightarrow> 'w \<Rightarrow> goerr option \<times> 'w) \<Rightarrow> string \<Rightarrow> 'w \<Rightarrow> goerr option \<times> 'w" where
  "bundler_run fs write rulesDir w =
     (case walk bundle_step (fs_Walk fs rulesDir) [] of
        (Some err, _) \<Rightarrow> (Some (errorf (''walking rules directory '' @ rulesDir) err), w)
      | (None, paths) \<Rightarrow>
          (case bundle_write fs write (sort_strings paths) w of
             (Some err, w) \<Rightarrow> (Some err, w)
           | (None, w) \<Rightarrow> write [CHR 0x0A] w))"

section \<open>Walking\<close>

lemma walk_None_iff:
  assumes "\<And>e s. fst (f e s) = None \<longleftrightarrow> \<not> bad e"
  shows "fst (walk f es s) = None \<longleftrightarrow> (\<forall>e \<in> set es. \<not> bad e)"
proof (induction es arbitrary: s)
  case (Cons e es)
  obtain r s' where f: "f e s = (r, s')" by force
  then show ?case using assms [of e s] Cons by (cases r) auto
qed simp

lemma walk_fold:
  assumes "\<And>e s. \<not> bad e \<Longrightarrow> f e s = (None, g e s)"
  shows "\<forall>e \<in> set es. \<not> bad e \<Longrightarrow> walk f es s = (None, fold g es s)"
  by (induction es arbitrary: s) (simp_all add: assms)

definition rule_file :: "dir_entry \<Rightarrow> bool" where
  "rule_file d \<longleftrightarrow> \<not> de_IsDir d \<and> HasSuffix (de_Name d) ''.yaml''"

definition decoded :: "fsys \<Rightarrow> (string \<Rightarrow> goerr + ruleSetDocument) \<Rightarrow> dir_entry \<Rightarrow> ruleSetTarget option" where
  "decoded fs unmarshal d =
     (case fs_ReadFile fs (de_Path d) of Inl _ \<Rightarrow> None
      | Inr data \<Rightarrow> (case unmarshal data of Inl _ \<Rightarrow> None | Inr doc \<Rightarrow> Some (rss_Target (rd_Spec doc))))"

definition walk_fails :: "fsys \<Rightarrow> (string \<Rightarrow> goerr + ruleSetDocument) \<Rightarrow> dir_entry \<Rightarrow> bool" where
  "walk_fails fs unmarshal d \<longleftrightarrow> de_Err d \<noteq> None \<or> rule_file d \<and> decoded fs unmarshal d = None"

text \<open>The targets, group and resource, of the rule set files met.\<close>

definition file_targets :: "fsys \<Rightarrow> (string \<Rightarrow> goerr + ruleSetDocument) \<Rightarrow> dir_entry list \<Rightarrow> (string \<times> string) set" where
  "file_targets fs unmarshal ds = {(g, r). r \<noteq> [] \<and> (\<exists>d \<in> set ds. rule_file d \<and>
     decoded fs unmarshal d = Some \<lparr>rt_Group = g, rt_Resource = r\<rparr>)}"

definition file_grouped :: "(string \<times> string) set \<Rightarrow> (string \<rightharpoonup> string_set) \<Rightarrow> bool" where
  "file_grouped T grouped \<longleftrightarrow> finite T \<and> dom grouped = fst ` T \<and> (\<forall>g rs. grouped g = Some rs \<longrightarrow> dom rs = {r. (g, r) \<in> T})"

definition add_target :: "ruleSetTarget \<Rightarrow> (string \<rightharpoonup> string_set) \<Rightarrow> (string \<rightharpoonup> string_set)" where
  "add_target t grouped =
     (if rt_Resource t = [] then grouped
      else grouped(rt_Group t \<mapsto> (case grouped (rt_Group t) of None \<Rightarrow> Map.empty | Some rs \<Rightarrow> rs)(rt_Resource t \<mapsto> ())))"

lemma file_grouped_add:
  "file_grouped T grouped \<Longrightarrow> file_grouped (T \<union> (if rt_Resource t = [] then {} else {(rt_Group t, rt_Resource t)})) (add_target t grouped)"
proof (cases "grouped (rt_Group t)")
  case None
  assume G: "file_grouped T grouped"
  with None have "rt_Group t \<notin> fst ` T" by (auto simp: file_grouped_def)
  then have "(rt_Group t, r) \<notin> T" for r by force
  with None G show ?thesis by (auto simp: file_grouped_def add_target_def)
next
  case (Some rs)
  assume G: "file_grouped T grouped"
  with Some have "rt_Group t \<in> fst ` T" by (auto simp: file_grouped_def)
  with Some G show ?thesis by (auto simp: file_grouped_def add_target_def)
qed

lemma collect_step_eq:
  "collect_step fs unmarshal d grouped =
     (if de_Err d \<noteq> None then (de_Err d, grouped)
      else if \<not> rule_file d then (None, grouped)
      else (case decoded fs unmarshal d of
         None \<Rightarrow> (fst (collect_step fs unmarshal d grouped), grouped) | Some t \<Rightarrow> (None, add_target t grouped)))"
  by (auto simp: collect_step_def rule_file_def decoded_def add_target_def Let_def split: option.split sum.split)

lemma collect_step_fails: "fst (collect_step fs unmarshal d grouped) = None \<longleftrightarrow> \<not> walk_fails fs unmarshal d"
  by (auto simp: collect_step_def rule_file_def decoded_def walk_fails_def Let_def split: option.split sum.split)

definition collect_one :: "fsys \<Rightarrow> (string \<Rightarrow> goerr + ruleSetDocument) \<Rightarrow> dir_entry \<Rightarrow> (string \<rightharpoonup> string_set) \<Rightarrow> (string \<rightharpoonup> string_set)" where
  "collect_one fs unmarshal d grouped =
     (case (if rule_file d then decoded fs unmarshal d else None) of None \<Rightarrow> grouped | Some t \<Rightarrow> add_target t grouped)"

lemma collect_step_ok: "\<not> walk_fails fs unmarshal d \<Longrightarrow> collect_step fs unmarshal d grouped = (None, collect_one fs unmarshal d grouped)"
  by (subst collect_step_eq) (auto simp: walk_fails_def collect_one_def)

lemma collect_all:
  "file_grouped (file_targets fs unmarshal seen) grouped \<Longrightarrow>
   file_grouped (file_targets fs unmarshal (seen @ ds)) (fold (collect_one fs unmarshal) ds grouped)"
proof (induction ds arbitrary: seen grouped)
  case (Cons d ds)
  have "file_grouped (file_targets fs unmarshal (seen @ [d])) (collect_one fs unmarshal d grouped)"
  proof (cases "if rule_file d then decoded fs unmarshal d else None")
    case None
    then have "file_targets fs unmarshal (seen @ [d]) = file_targets fs unmarshal seen" by (auto simp: file_targets_def split: if_splits)
    with None Cons.prems show ?thesis by (simp add: collect_one_def)
  next
    case (Some t)
    then have "rule_file d" "decoded fs unmarshal d = Some t" by (simp_all split: if_splits)
    then have "file_targets fs unmarshal (seen @ [d]) =
        file_targets fs unmarshal seen \<union> (if rt_Resource t = [] then {} else {(rt_Group t, rt_Resource t)})"
      by (auto simp: file_targets_def)
    with Some file_grouped_add [OF Cons.prems, of t] show ?thesis by (simp add: collect_one_def)
  qed
  from Cons.IH [OF this] show ?case by simp
qed simp

lemma sorted_resources_at:
  "sorted_resources members grouped gs result g =
    (if g \<in> set gs then Some (sort_strings (members (case grouped g of None \<Rightarrow> Map.empty | Some rs \<Rightarrow> rs))) else result g)"
  by (induction gs arbitrary: result) auto

definition orders_ok :: "generator_orders \<Rightarrow> bool" where
  "orders_ok ord \<longleftrightarrow> (\<forall>m. finite (dom m) \<longrightarrow> enumerates (go_groups ord m) m) \<and>
     (\<forall>m. finite (dom m) \<longrightarrow> enumerates (go_members ord m) m) \<and> (\<forall>m. finite (dom m) \<longrightarrow> enumerates (go_targets ord m) m)"

lemma collectTargets_spec:
  assumes ord: "orders_ok ord" and ok: "\<forall>d \<in> set (fs_Walk fs dir). \<not> walk_fails fs unmarshal d"
  defines "T \<equiv> file_targets fs unmarshal (fs_Walk fs dir)"
  shows "\<exists>targets. collectTargets (go_groups ord) (go_members ord) fs unmarshal dir = Inr targets \<and> finite (dom targets) \<and> dom targets = fst ` T \<and>
    (\<forall>g rs. targets g = Some rs \<longrightarrow> sorted rs \<and> distinct rs \<and> set rs = {r. (g, r) \<in> T})"
proof -
  let ?G = "fold (collect_one fs unmarshal) (fs_Walk fs dir) Map.empty"
  have "file_grouped (file_targets fs unmarshal []) Map.empty" by (simp add: file_grouped_def file_targets_def)
  from collect_all [OF this] have G: "file_grouped T ?G" by (simp add: T_def)
  then have fin: "finite (dom ?G)" "finite (dom rs)" if "?G g = Some rs" for g rs
  proof -
    show "finite (dom ?G)" using G by (simp add: file_grouped_def)
    have "{r. (g, r) \<in> T} = snd ` (T \<inter> {g} \<times> UNIV)" by force
    with that G show "finite (dom rs)" by (simp add: file_grouped_def)
  qed
  have fdom: "finite (dom ?G)" using G by (simp add: file_grouped_def)
  have "walk (collect_step fs unmarshal) (fs_Walk fs dir) Map.empty = (None, ?G)"
    using walk_fold [of "walk_fails fs unmarshal" "collect_step fs unmarshal" "collect_one fs unmarshal"] collect_step_ok ok by blast
  then have "collectTargets (go_groups ord) (go_members ord) fs unmarshal dir =
      Inr (sorted_resources (go_members ord) ?G (go_groups ord ?G) Map.empty)" by (simp add: collectTargets_def)
  moreover have gs: "set (go_groups ord ?G) = dom ?G" using ord fdom by (simp add: orders_ok_def enumerates_def)
  then have "dom (sorted_resources (go_members ord) ?G (go_groups ord ?G) Map.empty) = dom ?G"
    by (auto simp: dom_def sorted_resources_at)
  moreover have "sorted rs \<and> distinct rs \<and> set rs = {r. (g, r) \<in> T}"
    if "sorted_resources (go_members ord) ?G (go_groups ord ?G) Map.empty g = Some rs" for g rs
  proof -
    from that gs obtain m where m: "?G g = Some m" "rs = sort_strings (go_members ord m)"
      by (auto simp: sorted_resources_at split: if_splits)
    then have "enumerates (go_members ord m) m" using ord fin(2) by (simp add: orders_ok_def)
    with m G show ?thesis by (simp add: enumerates_def sorted_sort_strings file_grouped_def)
  qed
  ultimately show ?thesis using G fdom by (auto simp: file_grouped_def)
qed

section \<open>Properties\<close>

definition grants :: "PolicyRule list \<Rightarrow> string \<Rightarrow> string \<Rightarrow> string \<Rightarrow> bool" where
  "grants rules g r v \<longleftrightarrow> (\<exists>rule \<in> set rules. g \<in> set (pr_APIGroups rule) \<and> r \<in> set (pr_Resources rule) \<and> v \<in> set (pr_Verbs rule))"

lemma buildClusterRole_grants:
  assumes "finite (dom targets)" and "enumerates (keys targets) targets"
  shows "grants (cr_Rules (buildClusterRole keys name targets)) g r v \<longleftrightarrow>
    (\<exists>rs. targets g = Some rs \<and> r \<in> set rs) \<and> v \<in> {''get'', ''list'', ''watch''}"
  using enumerates_mem [OF assms(2)] by (auto simp: grants_def buildClusterRole_def Let_def split: option.splits)

lemma buildClusterRole_groups:
  assumes "enumerates (keys targets) targets"
  shows "\<exists>groups. map pr_APIGroups (cr_Rules (buildClusterRole keys name targets)) = map (\<lambda>g. [g]) groups \<and> sorted groups \<and> distinct groups"
  using assms by (intro exI [of _ "sort_strings (keys targets)"])
    (simp add: buildClusterRole_def Let_def sorted_sort_strings enumerates_def)

lemma watch_role_spec:
  assumes "orders_ok ord"
  shows "case collectTargets (go_groups ord) (go_members ord) fs unmarshal dir of
      Inl err \<Rightarrow> \<exists>d \<in> set (fs_Walk fs dir). walk_fails fs unmarshal d
    | Inr targets \<Rightarrow> (\<forall>d \<in> set (fs_Walk fs dir). \<not> walk_fails fs unmarshal d) \<and>
        (\<forall>g r v. grants (cr_Rules (buildClusterRole (go_targets ord) name targets)) g r v \<longleftrightarrow>
           (g, r) \<in> file_targets fs unmarshal (fs_Walk fs dir) \<and> v \<in> {''get'', ''list'', ''watch''}) \<and>
        (\<exists>groups. map pr_APIGroups (cr_Rules (buildClusterRole (go_targets ord) name targets)) = map (\<lambda>g. [g]) groups \<and>
           sorted groups \<and> distinct groups)"
proof (cases "\<forall>d \<in> set (fs_Walk fs dir). \<not> walk_fails fs unmarshal d")
  case True
  from collectTargets_spec [OF assms True] obtain targets where
    t: "collectTargets (go_groups ord) (go_members ord) fs unmarshal dir = Inr targets" "finite (dom targets)"
      "dom targets = fst ` file_targets fs unmarshal (fs_Walk fs dir)"
    and each: "\<forall>g rs. targets g = Some rs \<longrightarrow> sorted rs \<and> distinct rs \<and> set rs = {r. (g, r) \<in> file_targets fs unmarshal (fs_Walk fs dir)}"
    by (elim exE conjE)
  have t4: "set rs = {r. (g, r) \<in> file_targets fs unmarshal (fs_Walk fs dir)}" if "targets g = Some rs" for g rs
    using each that by simp
  have en: "enumerates (go_targets ord targets) targets" using assms t(2) by (simp add: orders_ok_def)
  have "(\<exists>rs. targets g = Some rs \<and> r \<in> set rs) \<longleftrightarrow> (g, r) \<in> file_targets fs unmarshal (fs_Walk fs dir)" for g r
  proof
    assume "(g, r) \<in> file_targets fs unmarshal (fs_Walk fs dir)"
    moreover from this have "g \<in> dom targets" unfolding t(3) by force
    ultimately show "\<exists>rs. targets g = Some rs \<and> r \<in> set rs" using t4 by blast
  qed (use t4 in blast)
  then have gr: "grants (cr_Rules (buildClusterRole (go_targets ord) name targets)) g r v \<longleftrightarrow>
      (g, r) \<in> file_targets fs unmarshal (fs_Walk fs dir) \<and> v \<in> {''get'', ''list'', ''watch''}" for g r v
    by (simp only: buildClusterRole_grants [of targets "go_targets ord", OF t(2) en])
  show ?thesis unfolding t(1) sum.case by (intro conjI allI) (rule True, rule gr, rule buildClusterRole_groups [of "go_targets ord" targets, OF en])
next
  case False
  with walk_None_iff [of "collect_step fs unmarshal" "walk_fails fs unmarshal", OF collect_step_fails]
  have "fst (walk (collect_step fs unmarshal) (fs_Walk fs dir) Map.empty) \<noteq> None" by blast
  then have "\<exists>err. collectTargets (go_groups ord) (go_members ord) fs unmarshal dir = Inl err"
    by (cases "walk (collect_step fs unmarshal) (fs_Walk fs dir) Map.empty") (auto simp: collectTargets_def)
  with False show ?thesis by auto
qed

lemma watch_role_grants:
  assumes "orders_ok ord" and "collectTargets (go_groups ord) (go_members ord) fs unmarshal dir = Inr targets"
  shows "grants (cr_Rules (buildClusterRole (go_targets ord) name targets)) g r v \<longleftrightarrow>
    (g, r) \<in> file_targets fs unmarshal (fs_Walk fs dir) \<and> v \<in> {''get'', ''list'', ''watch''}"
  using watch_role_spec [OF assms(1), where fs = fs and unmarshal = unmarshal and dir = dir and name = name] unfolding assms(2) sum.case by blast

text \<open>
  C26. The watch role is exactly as wide as the rule sets: the generator fails exactly when a directory entry, a rule set file
  or its YAML cannot be read; otherwise the role grants a verb on a resource of a group exactly if a \<open>.yaml\<close> file
  below the directory targets that resource of that group and the verb is get, list or watch, and its
  rules are in a canonical form: one per group, in the order of the groups.
\<close>

theorem watch_role_exact:
  assumes "orders_ok ord"
  shows "case collectTargets (go_groups ord) (go_members ord) fs unmarshal dir of
      Inl err \<Rightarrow> \<exists>d \<in> set (fs_Walk fs dir). walk_fails fs unmarshal d
    | Inr targets \<Rightarrow> (\<forall>d \<in> set (fs_Walk fs dir). \<not> walk_fails fs unmarshal d) \<and>
        (\<forall>g r v. grants (cr_Rules (buildClusterRole (go_targets ord) name targets)) g r v \<longleftrightarrow>
           (g, r) \<in> file_targets fs unmarshal (fs_Walk fs dir) \<and> v \<in> {''get'', ''list'', ''watch''}) \<and>
        (\<exists>groups. map pr_APIGroups (cr_Rules (buildClusterRole (go_targets ord) name targets)) = map (\<lambda>g. [g]) groups \<and>
           sorted groups \<and> distinct groups)"
  using assms by (rule watch_role_spec)

text \<open>A rules directory with two rule sets on one group and a file of another kind.\<close>

definition demo_target :: "string \<Rightarrow> string \<Rightarrow> ruleSetDocument" where
  "demo_target g r = \<lparr>rd_Spec = \<lparr>rss_Target = \<lparr>rt_Group = g, rt_Resource = r\<rparr>\<rparr>\<rparr>"

definition demo_file :: "string \<Rightarrow> dir_entry" where
  "demo_file nm = \<lparr>de_Path = nm, de_Name = nm, de_IsDir = False, de_Err = None\<rparr>"

definition demo_rules :: fsys where
  "demo_rules = \<lparr>fs_Walk = \<lambda>dir. map demo_file [''b.yaml'', ''a.yaml'', ''README''],
     fs_ReadDir = \<lambda>dir. Inr (map demo_file [''b.yaml'', ''a.yaml'', ''README'']), fs_ReadFile = Inr, fs_Join = \<lambda>d n. n\<rparr>"

definition demo_unmarshal :: "string \<Rightarrow> goerr + ruleSetDocument" where
  "demo_unmarshal s = Inr (demo_target ''apps'' (if s = ''a.yaml'' then ''deployments'' else ''daemonsets''))"

definition sorted_orders :: generator_orders where
  "sorted_orders = \<lparr>go_groups = \<lambda>m. sorted_list_of_set (dom m), go_members = \<lambda>m. sorted_list_of_set (dom m),
     go_targets = \<lambda>m. sorted_list_of_set (dom m)\<rparr>"

lemma sorted_orders_ok: "orders_ok sorted_orders"
  by (simp add: orders_ok_def sorted_orders_def enumerates_def)

lemma demo_rules_files:
  "fs_Walk demo_rules dir = map demo_file [''b.yaml'', ''a.yaml'', ''README'']" "rule_file (demo_file ''b.yaml'')" "rule_file (demo_file ''a.yaml'')"
  "\<not> rule_file (demo_file ''README'')"
  by (simp_all add: demo_rules_def rule_file_def demo_file_def HasSuffix_def)

lemma demo_decoded:
  "decoded demo_rules demo_unmarshal (demo_file nm) = Some (rss_Target (rd_Spec (demo_target ''apps'' (if nm = ''a.yaml'' then ''deployments'' else ''daemonsets''))))"
  by (simp add: decoded_def demo_rules_def demo_file_def demo_unmarshal_def)

lemma demo_walk_ok: "\<not> (\<exists>d \<in> set (fs_Walk demo_rules ''rules''). walk_fails demo_rules demo_unmarshal d)"
proof -
  have "\<not> walk_fails demo_rules demo_unmarshal (demo_file nm)" for nm
    using demo_decoded [of nm] by (simp add: walk_fails_def) (simp add: demo_file_def)
  then show ?thesis by (simp add: demo_rules_files)
qed

lemma demo_collects: "\<exists>targets. collectTargets (go_groups sorted_orders) (go_members sorted_orders) demo_rules demo_unmarshal ''rules'' = Inr targets"
  using collectTargets_spec [OF sorted_orders_ok, of demo_rules "''rules''" demo_unmarshal] demo_walk_ok by blast

lemma demo_file_targets:
  "(''apps'', ''deployments'') \<in> file_targets demo_rules demo_unmarshal (fs_Walk demo_rules ''rules'')"
  "(''apps'', ''daemonsets'') \<in> file_targets demo_rules demo_unmarshal (fs_Walk demo_rules ''rules'')"
  using demo_decoded [of "''a.yaml''"] demo_decoded [of "''b.yaml''"] demo_rules_files(2,3)
  by (auto simp: file_targets_def demo_rules_files(1) demo_target_def)

theorem watch_role_exact_witness:
  "\<exists>targets. collectTargets (go_groups sorted_orders) (go_members sorted_orders) demo_rules demo_unmarshal ''rules'' = Inr targets \<and>
     grants (cr_Rules (buildClusterRole (go_targets sorted_orders) ''watch-role'' targets)) ''apps'' ''deployments'' ''watch'' \<and>
     \<not> grants (cr_Rules (buildClusterRole (go_targets sorted_orders) ''watch-role'' targets)) ''apps'' ''deployments'' ''delete''"
proof -
  obtain targets where "collectTargets (go_groups sorted_orders) (go_members sorted_orders) demo_rules demo_unmarshal ''rules'' = Inr targets"
    using demo_collects ..
  with demo_file_targets(1) watch_role_exact [OF sorted_orders_ok, where fs = demo_rules and unmarshal = demo_unmarshal
      and dir = "''rules''" and name = "''watch-role''"]
  show ?thesis by auto
qed

definition append_out :: "string \<Rightarrow> string \<Rightarrow> goerr option \<times> string" where
  "append_out data out = (None, out @ data)"

lemma bundle_step_fold:
  assumes "de_Err d = None"
  shows "bundle_step d paths = (None, if rule_file d then paths @ [de_Path d] else paths)"
  using assms by (simp add: bundle_step_def rule_file_def)

lemma bundle_paths:
  "fold (\<lambda>d paths. if rule_file d then paths @ [de_Path d] else paths) ds acc = acc @ map de_Path (filter rule_file ds)"
  by (induction ds arbitrary: acc) simp_all

lemma bundle_write_all:
  assumes "\<forall>p \<in> set ps. fs_ReadFile fs p = Inr (data p)"
  shows "bundle_write fs append_out ps out = (None, out @ strings_Join (map (\<lambda>p. ''---'' @ [CHR 0x0A] @ TrimSpace (data p)) ps) [CHR 0x0A])"
  using assms
proof (induction ps arbitrary: out)
  case (Cons p ps)
  then show ?case by (cases ps) (simp_all add: append_out_def Let_def)
qed simp

text \<open>
  The bundle: when everything can be read, what the bundler writes is, for each \<open>.yaml\<close> file below the directory once, in the
  order of the paths and so independent of the order of the walk, a document separator on a line of its own, the
  file without the white space around it, and a line break; with no such file it is a line break.
\<close>

theorem bundle_exact:
  assumes "\<forall>d \<in> set (fs_Walk fs dir). de_Err d = None"
    and "\<forall>d \<in> set (fs_Walk fs dir). rule_file d \<longrightarrow> fs_ReadFile fs (de_Path d) = Inr (data (de_Path d))"
  shows "\<exists>paths. mset paths = mset (map de_Path (filter rule_file (fs_Walk fs dir))) \<and> sorted paths \<and>
    bundler_run fs append_out dir [] = (None, if paths = [] then [CHR 0x0A]
      else concat (map (\<lambda>p. ''---'' @ [CHR 0x0A] @ TrimSpace (data p) @ [CHR 0x0A]) paths))"
proof -
  let ?ps = "map de_Path (filter rule_file (fs_Walk fs dir))"
  have "walk bundle_step (fs_Walk fs dir) [] = (None, ?ps)"
    using walk_fold [of "\<lambda>d. de_Err d \<noteq> None" bundle_step "\<lambda>d paths. if rule_file d then paths @ [de_Path d] else paths"]
      bundle_step_fold assms(1) bundle_paths by simp
  moreover have "\<forall>p \<in> set (sort_strings ?ps). fs_ReadFile fs p = Inr (data p)" using assms(2) by auto
  note bundle_write_all [OF this, of "[]"]
  moreover have "strings_Join (map f ps) [CHR 0x0A] @ [CHR 0x0A] =
      (if ps = [] then [CHR 0x0A] else concat (map (\<lambda>p. f p @ [CHR 0x0A]) ps))" for f :: "string \<Rightarrow> string" and ps
    by (induction ps rule: induct_list012) simp_all
  ultimately have "bundler_run fs append_out dir [] = (None, if sort_strings ?ps = [] then [CHR 0x0A]
      else concat (map (\<lambda>p. ''---'' @ [CHR 0x0A] @ TrimSpace (data p) @ [CHR 0x0A]) (sort_strings ?ps)))"
    by (simp add: bundler_run_def append_out_def)
  then show ?thesis using sorted_sort_strings mset_sort_strings by blast
qed

theorem bundle_exact_witness:
  "\<exists>paths. mset paths = {#''b.yaml'', ''a.yaml''#} \<and> sorted paths \<and>
     fst (bundler_run demo_rules append_out ''rules'' []) = None"
proof -
  have "\<forall>d \<in> set (fs_Walk demo_rules ''rules''). de_Err d = None" by (simp add: demo_rules_def demo_file_def)
  moreover have "\<forall>d \<in> set (fs_Walk demo_rules ''rules''). rule_file d \<longrightarrow> fs_ReadFile demo_rules (de_Path d) = Inr (de_Path d)"
    by (simp add: demo_rules_def)
  ultimately have "\<exists>paths. mset paths = mset (map de_Path (filter rule_file (fs_Walk demo_rules ''rules''))) \<and> sorted paths \<and>
      bundler_run demo_rules append_out ''rules'' [] = (None, if paths = [] then [CHR 0x0A]
        else concat (map (\<lambda>p. ''---'' @ [CHR 0x0A] @ TrimSpace p @ [CHR 0x0A]) paths))"
    by (rule bundle_exact)
  moreover have "map de_Path (filter rule_file (fs_Walk demo_rules ''rules'')) = [''b.yaml'', ''a.yaml'']"
    by (simp add: demo_rules_files) (simp add: demo_file_def)
  ultimately show ?thesis by force
qed

end
