(* ===== verification/Csv_Generator.thy ===== *)
theory Csv_Generator
  imports Role_Generators
begin

text \<open>
  The generator of the operator's ClusterServiceVersion (\<open>cmd/csv-generator\<close>): its types, the reading of
  RBAC and CRD files, the manifest it builds, and what it writes. Map-typed fields are partial
  functions, optional pointers are options. The YAML codecs are arguments, gathered in \<open>csv_codec\<close>; the
  file system is the one of the role generator.
\<close>

section \<open>The types of a ClusterServiceVersion\<close>

record CSVMetadata =
  md_Name :: string
  md_Namespace :: string
  md_Annotations :: labels

record Link =
  ln_Name :: string
  ln_URL :: string

record Maintainer =
  mt_Name :: string
  mt_Email :: string

record Provider =
  pv_Name :: string
  pv_URL :: string

record Icon =
  ic_Base64Data :: string
  ic_MediaType :: string

record InstallMode =
  im_Type :: string
  im_Supported :: bool

record StrategyDeploymentPermissions =
  sp_ServiceAccountName :: string
  sp_Rules :: "PolicyRule list"

record LabelSelector =
  ls_MatchLabels :: labels

record PodMetadata =
  pm_Annotations :: labels
  pm_Labels :: labels

record SeccompProfile =
  sc_Type :: string

record PodSecurityContext =
  ps_RunAsNonRoot :: "bool option"
  ps_SeccompProfile :: "SeccompProfile option"

record Capabilities =
  ca_Drop :: "string list"

record SecurityContext =
  sx_AllowPrivilegeEscalation :: "bool option"
  sx_ReadOnlyRootFilesystem :: "bool option"
  sx_Capabilities :: "Capabilities option"

record HTTPGetAction =
  hg_Path :: string
  hg_Port :: int

record Probe =
  pb_HTTPGet :: "HTTPGetAction option"
  pb_InitialDelaySeconds :: int
  pb_PeriodSeconds :: int

record EnvVar =
  ev_Name :: string
  ev_Value :: string

record ResourceRequirements =
  rq_Limits :: labels
  rq_Requests :: labels

record Container =
  ct_Name :: string
  ct_Image :: string
  ct_ImagePullPolicy :: string
  ct_Command :: "string list"
  ct_Args :: "string list"
  ct_Env :: "EnvVar list"
  ct_Resources :: ResourceRequirements
  ct_SecurityContext :: "SecurityContext option"
  ct_LivenessProbe :: "Probe option"
  ct_ReadinessProbe :: "Probe option"
  ct_TerminationMessagePolicy :: string

record PodSpec =
  po_Containers :: "Container list"
  po_SecurityContext :: "PodSecurityContext option"
  po_ServiceAccountName :: string
  po_TerminationGracePeriodSeconds :: "int option"

record PodTemplateSpec =
  pt_Metadata :: PodMetadata
  pt_Spec :: PodSpec

record DeploymentSpec =
  dp_Replicas :: int
  dp_Selector :: "LabelSelector option"
  dp_Template :: PodTemplateSpec

record StrategyDeploymentSpec =
  sd_Name :: string
  sd_Label :: labels
  sd_Spec :: DeploymentSpec

record InstallStrategySpec =
  ss_ClusterPermissions :: "StrategyDeploymentPermissions list"
  ss_Permissions :: "StrategyDeploymentPermissions list"
  ss_Deployments :: "StrategyDeploymentSpec list"

record NamedInstallStrategy =
  ns_Strategy :: string
  ns_Spec :: InstallStrategySpec

record CRDDescription =
  cd_Name :: string
  cd_Version :: string
  cd_Kind :: string
  cd_DisplayName :: string
  cd_Description :: string

record CustomResourceDefinitions =
  cr_Owned :: "CRDDescription list"
  cr_Required :: "CRDDescription list"

record CSVSpec =
  cv_DisplayName :: string
  cv_Description :: string
  cv_Keywords :: "string list"
  cv_Links :: "Link list"
  cv_Maintainers :: "Maintainer list"
  cv_Provider :: Provider
  cv_Maturity :: string
  cv_Version :: string
  cv_Icon :: "Icon list"
  cv_InstallModes :: "InstallMode list"
  cv_Install :: NamedInstallStrategy
  cv_CustomResourceDefinitions :: CustomResourceDefinitions

record ClusterServiceVersion =
  csv_APIVersion :: string
  csv_Kind :: string
  csv_Metadata :: CSVMetadata
  csv_Spec :: CSVSpec

section \<open>Reading the inputs\<close>

record rbacDocument =
  rb_Rules :: "PolicyRule list"

record crdVersion =
  vn_Name :: string
  vn_Served :: bool

record crdNames =
  cn_Kind :: string
  cn_Plural :: string

record crdSpec =
  cs_Group :: string
  cs_Names :: crdNames
  cs_Versions :: "crdVersion list"

record crdDocument =
  cc_Spec :: crdSpec

record 'o csv_codec =
  y_rbac :: "string \<Rightarrow> goerr + rbacDocument"
  y_crd :: "string \<Rightarrow> goerr + crdDocument"
  y_object :: "string \<Rightarrow> goerr + 'o"
  y_marshal :: "'o \<Rightarrow> goerr + string"
  y_marshal_csv :: "ClusterServiceVersion \<Rightarrow> goerr + string"

definition readRBACRules :: "fsys \<Rightarrow> 'o csv_codec \<Rightarrow> string \<Rightarrow> goerr + PolicyRule list" where
  "readRBACRules fs y path =
     (case fs_ReadFile fs path of
        Inl err \<Rightarrow> Inl (errorf (''reading RBAC file '' @ path) err)
      | Inr data \<Rightarrow>
          (case y_rbac y data of
             Inl err \<Rightarrow> Inl (errorf (''parsing RBAC file '' @ path) err)
           | Inr doc \<Rightarrow> Inr (rb_Rules doc)))"

definition metricsAuthRules :: "PolicyRule list" where
  "metricsAuthRules =
     [\<lparr>pr_APIGroups = [''authentication.k8s.io''], pr_Resources = [''tokenreviews''], pr_Verbs = [''create'']\<rparr>,
      \<lparr>pr_APIGroups = [''authorization.k8s.io''], pr_Resources = [''subjectaccessreviews''], pr_Verbs = [''create'']\<rparr>]"

fun first_served :: "crdVersion list \<Rightarrow> string" where
  "first_served [] = []"
| "first_served (v # vs) = (if vn_Served v then vn_Name v else first_served vs)"

definition readCRD :: "fsys \<Rightarrow> 'o csv_codec \<Rightarrow> string \<Rightarrow> goerr + CRDDescription" where
  "readCRD fs y path =
     (case fs_ReadFile fs path of
        Inl err \<Rightarrow> Inl (errorf (''reading CRD file '' @ path) err)
      | Inr data \<Rightarrow>
          (case y_crd y data of
             Inl err \<Rightarrow> Inl (errorf (''parsing CRD file '' @ path) err)
           | Inr doc \<Rightarrow>
               (let version = first_served (cs_Versions (cc_Spec doc));
                    name = cn_Plural (cs_Names (cc_Spec doc)) @ ''.'' @ cs_Group (cc_Spec doc) in
                Inr \<lparr>cd_Name = name, cd_Version = version, cd_Kind = cn_Kind (cs_Names (cc_Spec doc)),
                  cd_DisplayName = [], cd_Description = []\<rparr>)))"

fun owned_loop :: "fsys \<Rightarrow> 'o csv_codec \<Rightarrow> string \<Rightarrow> dir_entry list \<Rightarrow> CRDDescription list \<Rightarrow> goerr + CRDDescription list" where
  "owned_loop fs y dir [] owned = Inr owned"
| "owned_loop fs y dir (entry # entries) owned =
     (if de_IsDir entry then owned_loop fs y dir entries owned
      else
        (case readCRD fs y (fs_Join fs dir (de_Name entry)) of
           Inl err \<Rightarrow> Inl err
         | Inr desc \<Rightarrow> owned_loop fs y dir entries (owned @ [desc])))"

definition readOwnedCRDs :: "fsys \<Rightarrow> 'o csv_codec \<Rightarrow> string \<Rightarrow> goerr + CRDDescription list" where
  "readOwnedCRDs fs y dir =
     (case fs_ReadDir fs dir of
        Inl err \<Rightarrow> Inl (errorf (''reading CRD directory '' @ dir) err)
      | Inr entries \<Rightarrow> owned_loop fs y dir entries [])"

section \<open>The manifest\<close>

record generatorFlags =
  gf_crds :: string
  gf_rbacDir :: string
  gf_dumpCRDs :: bool
  gf_csvVersion :: string
  gf_namespace :: string
  gf_operatorImage :: string
  gf_operatorVersion :: string
  gf_pullPolicy :: string

definition serviceAccountName :: string where
  "serviceAccountName = ''inflightoperations-controller-manager''"

definition buildClusterPermissions :: "fsys \<Rightarrow> 'o csv_codec \<Rightarrow> generatorFlags \<Rightarrow> goerr + PolicyRule list" where
  "buildClusterPermissions fs y fl =
     (case readRBACRules fs y (fs_Join fs (gf_rbacDir fl) ''role.yaml'') of
        Inl err \<Rightarrow> Inl (errorf ''reading manager role'' err)
      | Inr managerRules \<Rightarrow>
          (case readRBACRules fs y (fs_Join fs (gf_rbacDir fl) ''watch_role.yaml'') of
             Inl err \<Rightarrow> Inl (errorf ''reading watch role'' err)
           | Inr watchRules \<Rightarrow> Inr (managerRules @ metricsAuthRules @ watchRules)))"

definition manager_labels :: labels where
  "manager_labels = [''app.kubernetes.io/name'' \<mapsto> ''inflightoperations'', ''control-plane'' \<mapsto> ''controller-manager'']"

definition manager_container :: "generatorFlags \<Rightarrow> Container" where
  "manager_container fl = \<lparr>
     ct_Name = ''manager'',
     ct_Image = gf_operatorImage fl,
     ct_ImagePullPolicy = gf_pullPolicy fl,
     ct_Command = [''/manager''],
     ct_Args = [''--metrics-bind-address=:8443'', ''--leader-elect'', ''--health-probe-bind-address=:8081''],
     ct_Env = [\<lparr>ev_Name = ''OPERATOR_VERSION'', ev_Value = gf_operatorVersion fl\<rparr>],
     ct_Resources = \<lparr>rq_Limits = [''cpu'' \<mapsto> ''500m'', ''memory'' \<mapsto> ''512Mi''],
       rq_Requests = [''cpu'' \<mapsto> ''10m'', ''memory'' \<mapsto> ''256Mi'']\<rparr>,
     ct_SecurityContext = Some \<lparr>sx_AllowPrivilegeEscalation = Some False, sx_ReadOnlyRootFilesystem = Some True,
       sx_Capabilities = Some \<lparr>ca_Drop = [''ALL'']\<rparr>\<rparr>,
     ct_LivenessProbe = Some \<lparr>pb_HTTPGet = Some \<lparr>hg_Path = ''/healthz'', hg_Port = 8081\<rparr>,
       pb_InitialDelaySeconds = 15, pb_PeriodSeconds = 20\<rparr>,
     ct_ReadinessProbe = Some \<lparr>pb_HTTPGet = Some \<lparr>hg_Path = ''/readyz'', hg_Port = 8081\<rparr>,
       pb_InitialDelaySeconds = 5, pb_PeriodSeconds = 10\<rparr>,
     ct_TerminationMessagePolicy = ''FallbackToLogsOnError''\<rparr>"

definition manager_deployment :: "generatorFlags \<Rightarrow> StrategyDeploymentSpec" where
  "manager_deployment fl = \<lparr>
     sd_Name = serviceAccountName,
     sd_Label = manager_labels,
     sd_Spec = \<lparr>
       dp_Replicas = 1,
       dp_Selector = Some \<lparr>ls_MatchLabels = manager_labels\<rparr>,
       dp_Template = \<lparr>
         pt_Metadata = \<lparr>pm_Annotations = [''kubectl.kubernetes.io/default-container'' \<mapsto> ''manager''], pm_Labels = manager_labels\<rparr>,
         pt_Spec = \<lparr>
           po_Containers = [manager_container fl],
           po_SecurityContext = Some \<lparr>ps_RunAsNonRoot = Some True, ps_SeccompProfile = Some \<lparr>sc_Type = ''RuntimeDefault''\<rparr>\<rparr>,
           po_ServiceAccountName = serviceAccountName,
           po_TerminationGracePeriodSeconds = Some 10\<rparr>\<rparr>\<rparr>\<rparr>"

definition buildCSV :: "generatorFlags \<Rightarrow> PolicyRule list \<Rightarrow> PolicyRule list \<Rightarrow> CRDDescription list \<Rightarrow> ClusterServiceVersion" where
  "buildCSV fl clusterPermRules permRules ownedCRDs = \<lparr>
     csv_APIVersion = ''operators.coreos.com/v1alpha1'',
     csv_Kind = ''ClusterServiceVersion'',
     csv_Metadata = \<lparr>
       md_Name = ''inflightoperations.v'' @ gf_csvVersion fl,
       md_Namespace = gf_namespace fl,
       md_Annotations = [''alm-examples'' \<mapsto> ''[]'', ''capabilities'' \<mapsto> ''Basic Install'',
         ''containerImage'' \<mapsto> gf_operatorImage fl,
         ''repository'' \<mapsto> ''https://github.com/openshift-virtualization/inflightoperations'']\<rparr>,
     csv_Spec = \<lparr>
       cv_DisplayName = ''InFlightOperations'',
       cv_Description = ''Detects in-flight operations on Kubernetes resources using '' @
         ''CEL expressions and creates InFlightOperation objects to track them.'',
       cv_Keywords = [''inflightoperations'', ''kubevirt'', ''virtualization'', ''observability''],
       cv_Links = [\<lparr>ln_Name = ''Source Code'', ln_URL = ''https://github.com/openshift-virtualization/inflightoperations''\<rparr>],
       cv_Maintainers = [\<lparr>mt_Name = ''Samuel Lucidi'', mt_Email = ''slucidi@redhat.com''\<rparr>],
       cv_Provider = \<lparr>pv_Name = ''Red Hat'', pv_URL = ''https://www.redhat.com''\<rparr>,
       cv_Maturity = ''alpha'',
       cv_Version = gf_csvVersion fl,
       cv_Icon = [],
       cv_InstallModes = [
         \<lparr>im_Type = ''OwnNamespace'', im_Supported = False\<rparr>,
         \<lparr>im_Type = ''SingleNamespace'', im_Supported = False\<rparr>,
         \<lparr>im_Type = ''MultiNamespace'', im_Supported = False\<rparr>,
         \<lparr>im_Type = ''AllNamespaces'', im_Supported = True\<rparr>],
       cv_Install = \<lparr>
         ns_Strategy = ''deployment'',
         ns_Spec = \<lparr>
           ss_ClusterPermissions = [\<lparr>sp_ServiceAccountName = serviceAccountName, sp_Rules = clusterPermRules\<rparr>],
           ss_Permissions = [\<lparr>sp_ServiceAccountName = serviceAccountName, sp_Rules = permRules\<rparr>],
           ss_Deployments = [manager_deployment fl]\<rparr>\<rparr>,
       cv_CustomResourceDefinitions = \<lparr>cr_Owned = ownedCRDs, cr_Required = []\<rparr>\<rparr>\<rparr>"

section \<open>Writing\<close>

definition writeDocument :: "('a \<Rightarrow> goerr + string) \<Rightarrow> (string \<Rightarrow> 'w \<Rightarrow> goerr option \<times> 'w) \<Rightarrow> 'a \<Rightarrow> 'w \<Rightarrow> goerr option \<times> 'w" where
  "writeDocument marshal write obj w =
     (case marshal obj of
        Inl err \<Rightarrow> (Some err, w)
      | Inr yamlBytes \<Rightarrow>
          (case write (''---'' @ [CHR 0x0A]) w of
             (Some err, w) \<Rightarrow> (Some err, w)
           | (None, w) \<Rightarrow> write yamlBytes w))"

fun dump_loop :: "fsys \<Rightarrow> 'o csv_codec \<Rightarrow> (string \<Rightarrow> 'w \<Rightarrow> goerr option \<times> 'w) \<Rightarrow> string \<Rightarrow> dir_entry list \<Rightarrow> 'w \<Rightarrow> goerr option \<times> 'w" where
  "dump_loop fs y write dir [] w = (None, w)"
| "dump_loop fs y write dir (entry # entries) w =
     (if de_IsDir entry then dump_loop fs y write dir entries w
      else
        (case fs_ReadFile fs (fs_Join fs dir (de_Name entry)) of
           Inl err \<Rightarrow> (Some err, w)
         | Inr data \<Rightarrow>
             (case y_object y data of
                Inl err \<Rightarrow> (Some err, w)
              | Inr obj \<Rightarrow>
                  (case writeDocument (y_marshal y) write obj w of
                     (Some err, w) \<Rightarrow> (Some err, w)
                   | (None, w) \<Rightarrow> dump_loop fs y write dir entries w))))"

definition dumpCRDs :: "fsys \<Rightarrow> 'o csv_codec \<Rightarrow> (string \<Rightarrow> 'w \<Rightarrow> goerr option \<times> 'w) \<Rightarrow> string \<Rightarrow> 'w \<Rightarrow> goerr option \<times> 'w" where
  "dumpCRDs fs y write dir w =
     (case fs_ReadDir fs dir of
        Inl err \<Rightarrow> (Some (errorf (''reading CRD directory '' @ dir) err), w)
      | Inr entries \<Rightarrow> dump_loop fs y write dir entries w)"

definition generate :: "fsys \<Rightarrow> 'o csv_codec \<Rightarrow> (string \<Rightarrow> 'w \<Rightarrow> goerr option \<times> 'w) \<Rightarrow> generatorFlags \<Rightarrow> 'w \<Rightarrow> goerr option \<times> 'w" where
  "generate fs y write fl w =
     (case buildClusterPermissions fs y fl of
        Inl err \<Rightarrow> (Some (errorf ''building cluster permissions'' err), w)
      | Inr clusterPermRules \<Rightarrow>
          (case readRBACRules fs y (fs_Join fs (gf_rbacDir fl) ''leader_election_role.yaml'') of
             Inl err \<Rightarrow> (Some (errorf ''reading leader election role'' err), w)
           | Inr permRules \<Rightarrow>
               (case readOwnedCRDs fs y (gf_crds fl) of
                  Inl err \<Rightarrow> (Some (errorf ''reading owned CRDs'' err), w)
                | Inr ownedCRDs \<Rightarrow>
                    (let csv = buildCSV fl clusterPermRules permRules ownedCRDs in
                     case writeDocument (y_marshal_csv y) write csv w of
                       (Some err, w) \<Rightarrow> (Some (errorf ''writing CSV'' err), w)
                     | (None, w) \<Rightarrow>
                         if gf_dumpCRDs fl then
                           (case dumpCRDs fs y write (gf_crds fl) w of
                              (Some err, w) \<Rightarrow> (Some (errorf ''dumping CRDs'' err), w)
                            | (None, w) \<Rightarrow> (None, w))
                         else (None, w)))))"

section \<open>Properties\<close>

lemma grants_append: "grants (rs @ rs') g r v \<longleftrightarrow> grants rs g r v \<or> grants rs' g r v"
  by (auto simp: grants_def)

lemma metricsAuthRules_grants:
  "grants metricsAuthRules g r v \<longleftrightarrow> v = ''create'' \<and>
     (g, r) \<in> {(''authentication.k8s.io'', ''tokenreviews''), (''authorization.k8s.io'', ''subjectaccessreviews'')}"
  by (auto simp: grants_def metricsAuthRules_def)

text \<open>The permissions of a manifest that apply to the account its deployments run under.\<close>

definition cluster_grants :: "ClusterServiceVersion \<Rightarrow> string \<Rightarrow> string \<Rightarrow> string \<Rightarrow> bool" where
  "cluster_grants csv g r v \<longleftrightarrow>
     (\<exists>perm \<in> set (ss_ClusterPermissions (ns_Spec (cv_Install (csv_Spec csv)))).
        (\<forall>dep \<in> set (ss_Deployments (ns_Spec (cv_Install (csv_Spec csv)))).
           po_ServiceAccountName (pt_Spec (dp_Template (sd_Spec dep))) = sp_ServiceAccountName perm) \<and>
        grants (sp_Rules perm) g r v)"

lemma buildCSV_grants: "cluster_grants (buildCSV fl rules perm owned) g r v \<longleftrightarrow> grants rules g r v"
  by (simp add: cluster_grants_def buildCSV_def manager_deployment_def)

lemma permissions_of_bundle:
  assumes "orders_ok ord" and "collectTargets (go_groups ord) (go_members ord) rules_fs unmarshal dir = Inr targets"
    and "readRBACRules fs y (fs_Join fs (gf_rbacDir fl) ''watch_role.yaml'') = Inr (cr_Rules (buildClusterRole (go_targets ord) name targets))"
    and "readRBACRules fs y (fs_Join fs (gf_rbacDir fl) ''role.yaml'') = Inr managerRules"
  shows "\<exists>rules. buildClusterPermissions fs y fl = Inr rules \<and>
    (\<forall>g r v. cluster_grants (buildCSV fl rules perm owned) g r v \<longleftrightarrow>
       grants managerRules g r v \<or>
       v = ''create'' \<and> (g, r) \<in> {(''authentication.k8s.io'', ''tokenreviews''), (''authorization.k8s.io'', ''subjectaccessreviews'')} \<or>
       (g, r) \<in> file_targets rules_fs unmarshal (fs_Walk rules_fs dir) \<and> v \<in> {''get'', ''list'', ''watch''})"
proof -
  let ?watch = "cr_Rules (buildClusterRole (go_targets ord) name targets)"
  have "buildClusterPermissions fs y fl = Inr (managerRules @ metricsAuthRules @ ?watch)"
    using assms(3,4) by (simp add: buildClusterPermissions_def)
  moreover have "grants ?watch g r v \<longleftrightarrow> (g, r) \<in> file_targets rules_fs unmarshal (fs_Walk rules_fs dir) \<and> v \<in> {''get'', ''list'', ''watch''}" for g r v
    using watch_role_grants [OF assms(1,2)] .
  ultimately show ?thesis
    by (intro exI [of _ "managerRules @ metricsAuthRules @ ?watch"]) (simp only: buildCSV_grants grants_append metricsAuthRules_grants simp_thms)
qed


text \<open>The demonstration directory also serves as the RBAC directory: every file decodes by its name.\<close>

definition demo_targets :: "string \<rightharpoonup> string list" where
  "demo_targets = (case collectTargets (go_groups sorted_orders) (go_members sorted_orders) demo_rules demo_unmarshal ''rules'' of
     Inl _ \<Rightarrow> Map.empty | Inr targets \<Rightarrow> targets)"

definition demo_codec :: "unit csv_codec" where
  "demo_codec = \<lparr>
     y_rbac = \<lambda>data. Inr \<lparr>rb_Rules = if data = ''watch_role.yaml'' then cr_Rules (buildClusterRole (go_targets sorted_orders) ''watch-role'' demo_targets) else []\<rparr>,
     y_crd = \<lambda>data. Inl (Plain ''no''), y_object = \<lambda>data. Inr (), y_marshal = \<lambda>u. Inr [], y_marshal_csv = \<lambda>csv. Inr []\<rparr>"

definition demo_generator :: generatorFlags where
  "demo_generator = \<lparr>gf_crds = ''crds'', gf_rbacDir = ''rbac'', gf_dumpCRDs = False, gf_csvVersion = ''0.1.0'', gf_namespace = ''ifo'',
     gf_operatorImage = ''img'', gf_operatorVersion = ''0.1.0'', gf_pullPolicy = ''Always''\<rparr>"

lemma demo_bundle:
  "orders_ok sorted_orders"
  "collectTargets (go_groups sorted_orders) (go_members sorted_orders) demo_rules demo_unmarshal ''rules'' = Inr demo_targets"
  "readRBACRules demo_rules demo_codec (fs_Join demo_rules (gf_rbacDir demo_generator) ''watch_role.yaml'') =
     Inr (cr_Rules (buildClusterRole (go_targets sorted_orders) ''watch-role'' demo_targets))"
  "readRBACRules demo_rules demo_codec (fs_Join demo_rules (gf_rbacDir demo_generator) ''role.yaml'') = Inr []"
proof -
  show "orders_ok sorted_orders" by (rule sorted_orders_ok)
  show "collectTargets (go_groups sorted_orders) (go_members sorted_orders) demo_rules demo_unmarshal ''rules'' = Inr demo_targets"
    using demo_collects by (auto simp: demo_targets_def)
  show "readRBACRules demo_rules demo_codec (fs_Join demo_rules (gf_rbacDir demo_generator) ''watch_role.yaml'') =
      Inr (cr_Rules (buildClusterRole (go_targets sorted_orders) ''watch-role'' demo_targets))"
    by (simp add: readRBACRules_def) (simp add: demo_rules_def demo_codec_def)
  show "readRBACRules demo_rules demo_codec (fs_Join demo_rules (gf_rbacDir demo_generator) ''role.yaml'') = Inr []"
    by (simp add: readRBACRules_def) (simp add: demo_rules_def demo_codec_def)
qed


lemma writeDocument_append:
  "writeDocument marshal append_out obj out =
     (case marshal obj of Inl err \<Rightarrow> (Some err, out) | Inr doc \<Rightarrow> (None, out @ ''---'' @ [CHR 0x0A] @ doc))"
  by (simp add: writeDocument_def append_out_def split: sum.split)

text \<open>
  The manifest is written only when every input could be read: what is written starts with the whole manifest, or nothing
  is written and there is an error; without \<open>--dump-crds\<close> it is the manifest alone.
\<close>

theorem generate_writes:
  "case (buildClusterPermissions fs y fl, readRBACRules fs y (fs_Join fs (gf_rbacDir fl) ''leader_election_role.yaml''), readOwnedCRDs fs y (gf_crds fl)) of
     (Inr rules, Inr perm, Inr owned) \<Rightarrow>
       (case y_marshal_csv y (buildCSV fl rules perm owned) of
          Inl err \<Rightarrow> generate fs y append_out fl out = (Some (errorf ''writing CSV'' err), out)
        | Inr doc \<Rightarrow> \<exists>more. snd (generate fs y append_out fl out) = out @ ''---'' @ [CHR 0x0A] @ doc @ more \<and>
            (\<not> gf_dumpCRDs fl \<longrightarrow> fst (generate fs y append_out fl out) = None \<and> more = []))
   | _ \<Rightarrow> fst (generate fs y append_out fl out) \<noteq> None \<and> snd (generate fs y append_out fl out) = out"
proof -
  have grows: "\<exists>more. snd (dump_loop fs y append_out dir es o') = o' @ more" for dir es o'
  proof (induction es arbitrary: o')
    case (Cons e es)
    have step: "\<exists>more. snd (dump_loop fs y append_out dir es (o' @ a)) = o' @ more" for a using Cons [of "o' @ a"] by auto
    show ?case using Cons [of o'] step by (auto simp: writeDocument_append split: sum.split)
  qed simp
  have dumps: "\<exists>more. snd (dumpCRDs fs y append_out dir o') = o' @ more" for dir o'
    using grows by (simp add: dumpCRDs_def split: sum.split)
  show ?thesis
  proof (cases "y_marshal_csv y (buildCSV fl (projr (buildClusterPermissions fs y fl))
      (projr (readRBACRules fs y (fs_Join fs (gf_rbacDir fl) ''leader_election_role.yaml''))) (projr (readOwnedCRDs fs y (gf_crds fl))))")
    case (Inl err)
    then show ?thesis by (auto simp: generate_def writeDocument_append Let_def split: sum.split)
  next
    case (Inr doc)
    obtain r o' where d: "dumpCRDs fs y append_out (gf_crds fl) (out @ ''---'' @ [CHR 0x0A] @ doc) = (r, o')" by force
    then obtain more where "o' = out @ ''---'' @ [CHR 0x0A] @ doc @ more" using dumps [of "gf_crds fl" "out @ ''---'' @ [CHR 0x0A] @ doc"] by auto
    with Inr d show ?thesis
      by (cases r) (auto simp: generate_def writeDocument_append Let_def split: sum.split)
  qed
qed

text \<open>Each CRD is described with its first served version, and with none when no version is served.\<close>

lemma first_served_spec:
  "(\<exists>pre v post. vs = pre @ v # post \<and> \<not> (\<exists>u \<in> set pre. vn_Served u) \<and> vn_Served v \<and> first_served vs = vn_Name v) \<or>
   \<not> (\<exists>u \<in> set vs. vn_Served u) \<and> first_served vs = []"
proof (induction vs)
  case (Cons v vs)
  show ?case
  proof (cases "vn_Served v")
    case True
    then show ?thesis by (intro disjI1 exI [of _ "[]"]) simp
  next
    case False
    from Cons.IH show ?thesis
    proof
      assume "\<exists>pre u post. vs = pre @ u # post \<and> \<not> (\<exists>w \<in> set pre. vn_Served w) \<and> vn_Served u \<and> first_served vs = vn_Name u"
      then obtain pre u post where "vs = pre @ u # post" "\<not> (\<exists>w \<in> set pre. vn_Served w)" "vn_Served u" "first_served vs = vn_Name u" by blast
      with False show ?thesis by (intro disjI1 exI [of _ "v # pre"] exI [of _ u] exI [of _ post]) simp
    qed (use False in simp)
  qed
qed simp

end
