(* ===== verification/Programs.thy ===== *)
theory Programs
  imports Command_Line Plugin_Cmd Csv_Generator
begin

text \<open>
  The command lines of the kubectl plugin (\<open>pkg/plugin/cmd\<close>, \<open>cmd/kubectl-ifo\<close>) and of the three
  generators (\<open>cmd/csv-generator\<close>, \<open>cmd/watch-role-generator\<close>, \<open>cmd/ruleset-bundler\<close>): the flags each
  registers, the commands, what each runs, and the exit status of the process. What cobra itself prints, for
  help and for its own commands, and how it exits then, is the argument \<open>lib\<close> of the mains. Error messages and
  usage texts go to the standard error, which is not modelled.
\<close>

section \<open>The kubectl plugin\<close>

text \<open>The package's variables: \<open>globalFlags\<close> and \<open>treeFor\<close>.\<close>

record plugin_vars =
  pv_globalFlags :: global_flags
  pv_treeFor :: string

type_synonym ('c, 'u, 'w) run_e =
  "('c, 'u, 'w) cluster \<Rightarrow> plugin_vars \<Rightarrow> string list \<Rightarrow> 'w \<Rightarrow> ((goerr option \<times> string) \<times> 'w) option"

definition list_RunE :: "('c, 'u, 'w) run_e" where
  "list_RunE cx v args w = Some (runList cx (pv_globalFlags v) w)"

definition tree_RunE :: "('c, 'u, 'w) run_e" where
  "tree_RunE cx v args w = runTree cx (pv_globalFlags v) (pv_treeFor v) w"

text \<open>\<open>args[0]\<close> of an empty list would panic.\<close>

definition get_RunE :: "('c, 'u, 'w) run_e" where
  "get_RunE cx v args w =
     (case args of [] \<Rightarrow> None | name # _ \<Rightarrow> Some (runGet cx (pv_globalFlags v) name w))"

definition summary_RunE :: "('c, 'u, 'w) run_e" where
  "summary_RunE cx v args w = Some (runSummary cx (pv_globalFlags v) w)"

type_synonym ('c, 'u, 'w) plugin_command = "(plugin_vars vars, ('c, 'u, 'w) run_e) Command"

definition NewListCommand :: "('c, 'u, 'w) plugin_command" where
  "NewListCommand = Command ''list'' [''ls''] [] [] None (Some list_RunE) []"

definition NewTreeCommand :: "('c, 'u, 'w) plugin_command" where
  "NewTreeCommand = Command ''tree'' [] [StringVarP pv_treeFor_update ''for'' []] [] None (Some tree_RunE) []"

definition NewGetCommand :: "('c, 'u, 'w) plugin_command" where
  "NewGetCommand = Command ''get <name>'' [] [] [] (Some 1) (Some get_RunE) []"

definition NewSummaryCommand :: "('c, 'u, 'w) plugin_command" where
  "NewSummaryCommand = Command ''summary'' [] [] [] None (Some summary_RunE) []"

definition persistent_flags :: "plugin_vars vars pflag list" where
  "persistent_flags = [
     StringVarP (\<lambda>f. pv_globalFlags_update (fl_Kubeconfig_update f)) ''kubeconfig'' [],
     StringVarP (\<lambda>f. pv_globalFlags_update (fl_Context_update f)) ''context'' [],
     BoolVarP (\<lambda>f. pv_globalFlags_update (fl_AllPhases_update f)) ''all-phases'' ''A'',
     StringVarP (\<lambda>f. pv_globalFlags_update (fl_Namespace_update f)) ''namespace'' ''n'',
     StringVarP (\<lambda>f. pv_globalFlags_update (fl_Component_update f)) ''component'' ''c'',
     StringVarP (\<lambda>f. pv_globalFlags_update (fl_Kind_update f)) ''kind'' ''k'',
     StringVarP (\<lambda>f. pv_globalFlags_update (fl_Operation_update f)) ''operation'' ''o'',
     StringVarP (\<lambda>f. pv_globalFlags_update (fl_Output_update f)) ''output'' ''O'',
     BoolVarP (\<lambda>f. pv_globalFlags_update (fl_Color_update f)) ''color'' [],
     BoolVarP (\<lambda>f. pv_globalFlags_update (fl_NoColor_update f)) ''no-color'' [],
     StringVarP (\<lambda>f. pv_globalFlags_update (fl_Selector_update f)) ''selector'' ''l'']"

text \<open>The values the registration of the flags gives the variables.\<close>

definition default_vars :: plugin_vars where
  "default_vars = \<lparr>pv_globalFlags = \<lparr>fl_Kubeconfig = [], fl_Context = [], fl_AllPhases = False, fl_Namespace = [],
     fl_Component = [], fl_Kind = [], fl_Operation = [], fl_Output = ''table'', fl_Color = False,
     fl_NoColor = False, fl_Selector = []\<rparr>, pv_treeFor = []\<rparr>"

definition NewRootCommand :: "('c, 'u, 'w) plugin_command" where
  "NewRootCommand =
     (let root = Command ''kubectl-ifo'' [] [] persistent_flags None None [];
          root = AddCommand NewListCommand root;
          root = AddCommand NewTreeCommand root;
          root = AddCommand NewGetCommand root;
          root = AddCommand NewSummaryCommand root in
      Command (cb_Use root) (cb_Aliases root) (cb_Flags root) (cb_PersistentFlags root) (cb_Args root)
        (cb_Run NewListCommand) (cb_commands root))"

text \<open>The exit status of the process and what it wrote to the standard output.\<close>

definition plugin_main ::
  "('c, 'u, 'w) cluster \<Rightarrow> (string list \<Rightarrow> nat \<times> string) \<Rightarrow> string list \<Rightarrow> 'w \<Rightarrow> ((nat \<times> string) \<times> 'w) option"
where
  "plugin_main cx lib args w =
     (case ExecuteC NewRootCommand args default_vars of
        Fails err \<Rightarrow> Some ((1, []), w)
      | ShowsHelp \<Rightarrow> Some ((0, snd (lib args)), w)
      | OwnCommand nm \<Rightarrow> Some (lib args, w)
      | Runs RunE v pos \<Rightarrow>
          (case RunE cx v pos w of
             None \<Rightarrow> None
           | Some ((err, out), w) \<Rightarrow> Some ((if err \<noteq> None then 1 else 0, out), w)))"

section \<open>The generators\<close>

text \<open>\<open>Run\<close> of a generator: an error is printed and the process exits with 1.\<close>

definition exit_status :: "goerr option \<times> 'w \<Rightarrow> nat \<times> 'w" where
  "exit_status r = (if fst r \<noteq> None then 1 else 0, snd r)"

text \<open>What cobra answers by itself, written with the program's \<open>write\<close> to the standard output.\<close>

definition answer ::
  "(string \<Rightarrow> 'w \<Rightarrow> goerr option \<times> 'w) \<Rightarrow> (string list \<Rightarrow> nat \<times> string) \<Rightarrow> string list \<Rightarrow> 'w \<Rightarrow> nat \<times> 'w"
where
  "answer write lib args w = (fst (lib args), snd (write (snd (lib args)) w))"

definition generator_main ::
  "('c vars, 'c \<Rightarrow> 'w \<Rightarrow> goerr option \<times> 'w) Command \<Rightarrow> 'c \<Rightarrow> (string \<Rightarrow> 'w \<Rightarrow> goerr option \<times> 'w) \<Rightarrow>
   (string list \<Rightarrow> nat \<times> string) \<Rightarrow> string list \<Rightarrow> 'w \<Rightarrow> nat \<times> 'w"
where
  "generator_main cmd defaults write lib args w =
     (case ExecuteC cmd args defaults of
        Fails err \<Rightarrow> (1, w)
      | ShowsHelp \<Rightarrow> (0, snd (answer write lib args w))
      | OwnCommand nm \<Rightarrow> answer write lib args w
      | Runs run v pos \<Rightarrow> exit_status (run v w))"

subsection \<open>csv-generator\<close>

definition csv_flags :: "generatorFlags vars pflag list" where
  "csv_flags = [
     StringVarP gf_crds_update ''crds'' [],
     StringVarP gf_rbacDir_update ''rbac-dir'' [],
     StringVarP gf_csvVersion_update ''csv-version'' [],
     StringVarP gf_namespace_update ''namespace'' [],
     StringVarP gf_operatorImage_update ''operator-image'' [],
     StringVarP gf_operatorVersion_update ''operator-version'' [],
     StringVarP gf_pullPolicy_update ''pull-policy'' [],
     BoolVarP gf_dumpCRDs_update ''dump-crds'' []]"

definition csv_defaults :: generatorFlags where
  "csv_defaults = \<lparr>gf_crds = ''config/crd/bases'', gf_rbacDir = ''config/rbac'', gf_dumpCRDs = False,
     gf_csvVersion = [], gf_namespace = [], gf_operatorImage = [], gf_operatorVersion = [],
     gf_pullPolicy = ''IfNotPresent''\<rparr>"

definition csv_required :: "string list" where
  "csv_required = [''csv-version'', ''namespace'', ''operator-image'', ''operator-version'']"

text \<open>\<open>None\<close> is the panic of \<open>init\<close>.\<close>

fun mark_required :: "string list \<Rightarrow> 'c pflag list \<Rightarrow> 'c pflag list option" where
  "mark_required [] fs = Some fs"
| "mark_required (required # names) fs =
     (case MarkFlagRequired required fs of None \<Rightarrow> None | Some fs \<Rightarrow> mark_required names fs)"

definition csv_command ::
  "generatorFlags vars pflag list \<Rightarrow> fsys \<Rightarrow> 'o csv_codec \<Rightarrow> (string \<Rightarrow> 'w \<Rightarrow> goerr option \<times> 'w) \<Rightarrow>
   (generatorFlags vars, generatorFlags \<Rightarrow> 'w \<Rightarrow> goerr option \<times> 'w) Command"
where
  "csv_command fs f y write = Command ''csv-generator'' [] fs [] None (Some (generate f y write)) []"

definition csv_main ::
  "fsys \<Rightarrow> 'o csv_codec \<Rightarrow> (string \<Rightarrow> 'w \<Rightarrow> goerr option \<times> 'w) \<Rightarrow> (string list \<Rightarrow> nat \<times> string) \<Rightarrow>
   string list \<Rightarrow> 'w \<Rightarrow> (nat \<times> 'w) option"
where
  "csv_main f y write lib args w =
     (case mark_required csv_required csv_flags of
        None \<Rightarrow> None
      | Some fs \<Rightarrow> Some (generator_main (csv_command fs f y write) csv_defaults write lib args w))"

subsection \<open>watch-role-generator and ruleset-bundler\<close>

record role_flags =
  rf_rulesDir :: string
  rf_roleName :: string

definition role_command ::
  "(role_flags \<Rightarrow> 'w \<Rightarrow> goerr option \<times> 'w) \<Rightarrow> (role_flags vars, role_flags \<Rightarrow> 'w \<Rightarrow> goerr option \<times> 'w) Command"
where
  "role_command run = Command ''watch-role-generator'' []
     [StringVarP rf_rulesDir_update ''rules-dir'' [], StringVarP rf_roleName_update ''role-name'' []]
     [] None (Some run) []"

definition role_defaults :: role_flags where
  "role_defaults = \<lparr>rf_rulesDir = ''rules'', rf_roleName = ''watch-role''\<rparr>"

definition role_main ::
  "generator_orders \<Rightarrow> fsys \<Rightarrow> (string \<Rightarrow> goerr + ruleSetDocument) \<Rightarrow> (ClusterRole \<Rightarrow> goerr + string) \<Rightarrow>
   (string \<Rightarrow> 'w \<Rightarrow> goerr option \<times> 'w) \<Rightarrow> (string list \<Rightarrow> nat \<times> string) \<Rightarrow> string list \<Rightarrow> 'w \<Rightarrow> nat \<times> 'w"
where
  "role_main ord f unmarshal marshal write lib args w =
     generator_main
       (role_command (\<lambda>v. role_run ord f unmarshal marshal write (rf_rulesDir v) (rf_roleName v)))
       role_defaults write lib args w"

definition bundler_command ::
  "(string \<Rightarrow> 'w \<Rightarrow> goerr option \<times> 'w) \<Rightarrow> (string vars, string \<Rightarrow> 'w \<Rightarrow> goerr option \<times> 'w) Command"
where
  "bundler_command run = Command ''ruleset-bundler'' [] [StringVarP (\<lambda>f. f) ''rules-dir'' []] [] None (Some run) []"

definition bundler_main ::
  "fsys \<Rightarrow> (string \<Rightarrow> 'w \<Rightarrow> goerr option \<times> 'w) \<Rightarrow> (string list \<Rightarrow> nat \<times> string) \<Rightarrow> string list \<Rightarrow> 'w \<Rightarrow> nat \<times> 'w"
where
  "bundler_main f write lib args w =
     generator_main (bundler_command (\<lambda>rulesDir. bundler_run f write rulesDir)) ''rules'' write lib args w"

section \<open>The plugin's flags\<close>

definition show_bool :: "bool \<Rightarrow> string" where
  "show_bool b = (if b then ''true'' else ''false'')"

lemma bool_set_show [simp]: "bool_set (show_bool b) = Some b"
  by (simp add: bool_set_def show_bool_def ParseBool_def)

text \<open>The variables, written as settings: every flag with its value.\<close>

definition global_settings :: "global_flags \<Rightarrow> (string \<times> string) list" where
  "global_settings g = [
     (''kubeconfig'', fl_Kubeconfig g), (''context'', fl_Context g), (''all-phases'', show_bool (fl_AllPhases g)),
     (''namespace'', fl_Namespace g), (''component'', fl_Component g), (''kind'', fl_Kind g),
     (''operation'', fl_Operation g), (''output'', fl_Output g), (''color'', show_bool (fl_Color g)),
     (''no-color'', show_bool (fl_NoColor g)), (''selector'', fl_Selector g)]"

definition tree_settings :: "plugin_vars \<Rightarrow> (string \<times> string) list" where
  "tree_settings v = (''for'', pv_treeFor v) # global_settings (pv_globalFlags v)"

definition tree_flags :: "plugin_vars vars pflag list" where
  "tree_flags = StringVarP pv_treeFor_update ''for'' [] # persistent_flags @ [help_flag]"

lemmas flag_defs = StringVarP_def BoolVarP_def help_flag_def persistent_flags_def

lemma command_flags:
  "InitDefaultHelpFlag (merged_flags persistent_flags NewTreeCommand) = tree_flags"
  "InitDefaultHelpFlag (merged_flags persistent_flags NewListCommand) = persistent_flags @ [help_flag]"
  "InitDefaultHelpFlag (merged_flags persistent_flags NewGetCommand) = persistent_flags @ [help_flag]"
  "InitDefaultHelpFlag (merged_flags persistent_flags NewSummaryCommand) = persistent_flags @ [help_flag]"
  "InitDefaultHelpFlag (merged_flags [] NewRootCommand) = persistent_flags @ [help_flag]"
  by (simp_all add: InitDefaultHelpFlag_def merged_flags_def AddFlagSet_def Lookup_def flag_defs tree_flags_def
      NewTreeCommand_def NewListCommand_def NewGetCommand_def NewSummaryCommand_def NewRootCommand_def Let_def)

lemma assign_tree [simp]:
  "assign tree_flags (''for'', x) (v, h) = (v\<lparr>pv_treeFor := x\<rparr>, h)"
  "assign tree_flags (''kubeconfig'', x) (v, h) = (pv_globalFlags_update (fl_Kubeconfig_update (\<lambda>_. x)) v, h)"
  "assign tree_flags (''context'', x) (v, h) = (pv_globalFlags_update (fl_Context_update (\<lambda>_. x)) v, h)"
  "assign tree_flags (''all-phases'', show_bool b) (v, h) = (pv_globalFlags_update (fl_AllPhases_update (\<lambda>_. b)) v, h)"
  "assign tree_flags (''namespace'', x) (v, h) = (pv_globalFlags_update (fl_Namespace_update (\<lambda>_. x)) v, h)"
  "assign tree_flags (''component'', x) (v, h) = (pv_globalFlags_update (fl_Component_update (\<lambda>_. x)) v, h)"
  "assign tree_flags (''kind'', x) (v, h) = (pv_globalFlags_update (fl_Kind_update (\<lambda>_. x)) v, h)"
  "assign tree_flags (''operation'', x) (v, h) = (pv_globalFlags_update (fl_Operation_update (\<lambda>_. x)) v, h)"
  "assign tree_flags (''output'', x) (v, h) = (pv_globalFlags_update (fl_Output_update (\<lambda>_. x)) v, h)"
  "assign tree_flags (''color'', show_bool b) (v, h) = (pv_globalFlags_update (fl_Color_update (\<lambda>_. b)) v, h)"
  "assign tree_flags (''no-color'', show_bool b) (v, h) = (pv_globalFlags_update (fl_NoColor_update (\<lambda>_. b)) v, h)"
  "assign tree_flags (''selector'', x) (v, h) = (pv_globalFlags_update (fl_Selector_update (\<lambda>_. x)) v, h)"
  by (simp_all add: assign_def tree_flags_def Lookup_def flag_defs)

lemma settings_commute:
  assumes "s \<in> set (tree_settings v)" "t \<in> set (tree_settings v)"
  shows "assign tree_flags s \<circ> assign tree_flags t = assign tree_flags t \<circ> assign tree_flags s"
proof
  fix p :: "plugin_vars vars"
  show "(assign tree_flags s \<circ> assign tree_flags t) p = (assign tree_flags t \<circ> assign tree_flags s) p"
  proof (cases p)
    case (Pair u h)
    with assms show ?thesis
      by (cases u) (auto simp: tree_settings_def global_settings_def)
  qed
qed

lemma global_settings_distinct [simp]: "distinct (tree_settings v)" "distinct (global_settings g)"
  by (simp_all add: tree_settings_def global_settings_def)

lemma tree_settings_accepted: "s \<in> set (tree_settings v) \<Longrightarrow> accepts tree_flags s"
proof -
  have "\<forall>s \<in> set (tree_settings v). accepts tree_flags s"
    by (simp add: accepts_def flag_name_def tree_settings_def global_settings_def tree_flags_def Lookup_def flag_defs)
  then show "s \<in> set (tree_settings v) \<Longrightarrow> ?thesis" by blast
qed

lemma global_lookup:
  "s \<in> set (global_settings g) \<Longrightarrow> Lookup (fst s) (persistent_flags @ [help_flag]) = Lookup (fst s) tree_flags"
  by (auto simp: global_settings_def tree_flags_def Lookup_def flag_defs)

lemma global_settings_read:
  assumes "s \<in> set (global_settings g)"
  shows "accepts (persistent_flags @ [help_flag]) s"
    and "assign (persistent_flags @ [help_flag]) s = assign tree_flags s"
  using global_lookup [OF assms] tree_settings_accepted [of s "\<lparr>pv_globalFlags = g, pv_treeFor = []\<rparr>"] assms
  by (auto simp: accepts_def assign_def tree_settings_def)

lemma fold_tree_settings: "fold (assign tree_flags) (tree_settings v) (default_vars, False) = (v, False)"
  by (cases v; cases "pv_globalFlags v")
    (simp add: tree_settings_def global_settings_def default_vars_def)

lemma default_setting:
  "s \<in> set (tree_settings default_vars) \<Longrightarrow> assign tree_flags s (default_vars, False) = (default_vars, False)"
proof -
  have "\<forall>s \<in> set (tree_settings default_vars). assign tree_flags s (default_vars, False) = (default_vars, False)"
    by (simp add: tree_settings_def global_settings_def default_vars_def)
  then show "s \<in> set (tree_settings default_vars) \<Longrightarrow> ?thesis" by blast
qed

text \<open>\<open>xs\<close> are settings of \<open>v\<close>, each given once; those left out are defaults.\<close>

definition sets_vars :: "(string \<times> string) list \<Rightarrow> plugin_vars \<Rightarrow> bool" where
  "sets_vars xs v \<longleftrightarrow> distinct xs \<and> set xs \<subseteq> set (tree_settings v) \<and>
     (\<forall>s \<in> set (tree_settings v). s \<in> set xs \<or> s \<in> set (tree_settings default_vars))"

interpretation plugin: flag_settings "assign tree_flags" tree_settings "\<lambda>v. (v, False)" default_vars
  by unfold_locales (simp_all add: settings_commute fold_tree_settings default_setting)

lemma fold_sets_vars: "sets_vars xs v \<Longrightarrow> fold (assign tree_flags) xs (default_vars, False) = (v, False)"
  by (rule plugin.read_back) (simp_all add: sets_vars_def)

text \<open>Without \<open>--for\<close>, the flags that all commands have suffice.\<close>

lemma no_for_global:
  assumes "sets_vars xs v" "''for'' \<notin> fst ` set xs" "s \<in> set xs"
  shows "s \<in> set (global_settings (pv_globalFlags v))"
proof -
  have "s \<in> set (tree_settings v)" using assms(1,3) by (auto simp: sets_vars_def)
  moreover have "fst s \<noteq> ''for''" using assms(2,3) by (metis imageI)
  ultimately show ?thesis by (auto simp: tree_settings_def)
qed

lemma fold_sets_globals:
  assumes "sets_vars xs v" "''for'' \<notin> fst ` set xs"
  shows "fold (assign (persistent_flags @ [help_flag])) xs (default_vars, False) = (v, False)"
proof -
  have "fold (assign (persistent_flags @ [help_flag])) xs (default_vars, False) =
      fold (assign tree_flags) xs (default_vars, False)"
    using global_settings_read(2) [OF no_for_global [OF assms]] by (intro fold_cong) simp_all
  then show ?thesis by (simp add: fold_sets_vars [OF assms(1)])
qed

lemma no_required: "fl \<in> set tree_flags \<Longrightarrow> \<not> pf_Required fl"
  by (auto simp: tree_flags_def flag_defs)

lemma no_required_globals: "fl \<in> set (persistent_flags @ [help_flag]) \<Longrightarrow> \<not> pf_Required fl"
  by (auto simp: flag_defs)

lemma execute_tree:
  assumes "sets_vars xs v" "ends rest pos"
  shows "execute \<lparr>fd_cmd = NewTreeCommand, fd_parents = persistent_flags, fd_root = False, fd_args = map long xs @ rest\<rparr> default_vars =
    Runs tree_RunE v pos"
  using assms tree_settings_accepted no_required
  by (intro execute_settings [OF command_flags(1)] fold_sets_vars)
    (auto simp: sets_vars_def NewTreeCommand_def ValidateArgs_def)

lemma execute_globals:
  assumes "InitDefaultHelpFlag (merged_flags parents c) = persistent_flags @ [help_flag]"
    and "sets_vars xs v" "''for'' \<notin> fst ` set xs" "ends rest pos"
    and "cb_Run c = Some run" "ValidateArgs (cb_Args c) pos = None"
  shows "execute \<lparr>fd_cmd = c, fd_parents = parents, fd_root = r, fd_args = map long xs @ rest\<rparr> default_vars = Runs run v pos"
  by (intro execute_settings [OF assms(1)] fold_sets_globals assms ballI)
    (simp_all add: global_settings_read(1) [OF no_for_global [OF assms(2,3)]] no_required_globals)

lemma plugin_findNext:
  "findNext NewRootCommand ''list'' = Some NewListCommand" "findNext NewRootCommand ''ls'' = Some NewListCommand"
  "findNext NewRootCommand ''tree'' = Some NewTreeCommand" "findNext NewRootCommand ''get'' = Some NewGetCommand"
  "findNext NewRootCommand ''summary'' = Some NewSummaryCommand"
  by (simp_all add: findNext_def NewRootCommand_def NewListCommand_def NewTreeCommand_def NewGetCommand_def
      NewSummaryCommand_def cb_Name_def Let_def)

lemma plugin_root: "cb_PersistentFlags NewRootCommand = persistent_flags" "cb_Run NewRootCommand = Some list_RunE"
  "cb_Args NewRootCommand = None"
  by (simp_all add: NewRootCommand_def NewListCommand_def Let_def)

lemma plugin_words: "word ''list''" "word ''ls''" "word ''tree''" "word ''get''" "word ''summary''"
  by (simp_all add: word_def)

text \<open>Which function the words of a command line name, and the arguments it takes.\<close>

definition names :: "string list \<Rightarrow> string list \<Rightarrow> ('c, 'u, 'w) run_e \<Rightarrow> bool" where
  "names sub pos RunE \<longleftrightarrow>
     sub \<in> {[], [''list''], [''ls'']} \<and> RunE = list_RunE \<or>
     sub = [''tree''] \<and> RunE = tree_RunE \<or>
     sub = [''summary''] \<and> RunE = summary_RunE \<or>
     sub = [''get''] \<and> length pos = 1 \<and> RunE = get_RunE"

lemma plugin_runs:
  fixes RunE :: "('c, 'u, 'w) run_e"
  assumes "sets_vars (xs @ ys) v" "sub = [''tree''] \<or> ''for'' \<notin> fst ` set (xs @ ys)" "ends rest pos" "names sub pos RunE"
  shows "ExecuteC NewRootCommand (map long xs @ sub @ map long ys @ rest) default_vars = Runs RunE v pos"
proof -
  have sub: "ExecuteC NewRootCommand (map long xs @ s # map long ys @ rest) default_vars =
      execute \<lparr>fd_cmd = cmd, fd_parents = persistent_flags, fd_root = False, fd_args = map long (xs @ ys) @ rest\<rparr> default_vars"
    if "word s" "findNext NewRootCommand s = Some cmd" "cb_Run cmd \<noteq> None" for s and cmd :: "('c, 'u, 'w) plugin_command"
    using ExecuteC_sub [OF that(1,2) assms(3) that(3)] by (simp add: plugin_root)
  have list: "execute \<lparr>fd_cmd = NewListCommand, fd_parents = persistent_flags, fd_root = False, fd_args = map long (xs @ ys) @ rest\<rparr>
      default_vars = Runs list_RunE v pos" if "sub \<noteq> [''tree'']"
    using assms(1-3) that by (intro execute_globals command_flags) (auto simp: NewListCommand_def ValidateArgs_def)
  have get: "execute \<lparr>fd_cmd = NewGetCommand, fd_parents = persistent_flags, fd_root = False, fd_args = map long (xs @ ys) @ rest\<rparr>
      default_vars = Runs get_RunE v pos" if "sub = [''get'']" "length pos = 1"
    using assms(1-3) that by (intro execute_globals command_flags) (auto simp: NewGetCommand_def ValidateArgs_def)
  have summary: "execute \<lparr>fd_cmd = NewSummaryCommand, fd_parents = persistent_flags, fd_root = False, fd_args = map long (xs @ ys) @ rest\<rparr>
      default_vars = Runs summary_RunE v pos" if "sub = [''summary'']"
    using assms(1-3) that by (intro execute_globals command_flags) (auto simp: NewSummaryCommand_def ValidateArgs_def)
  have root: "ExecuteC NewRootCommand (map long (xs @ ys) @ rest) default_vars = Runs list_RunE v pos" if "sub = []"
  proof -
    have "ExecuteC NewRootCommand (map long (xs @ ys) @ rest) default_vars = execute \<lparr>fd_cmd = NewRootCommand,
        fd_parents = [], fd_root = True, fd_args = map long (xs @ ys) @ rest\<rparr> default_vars"
      by (rule ExecuteC_root [OF assms(3)]) (simp add: plugin_root)
    also have "\<dots> = Runs list_RunE v pos"
      using assms(1-3) that by (intro execute_globals command_flags) (auto simp: plugin_root ValidateArgs_def)
    finally show ?thesis .
  qed
  from assms(4) consider
      "sub = []" "RunE = list_RunE" | "sub = [''list'']" "RunE = list_RunE" | "sub = [''ls'']" "RunE = list_RunE"
    | "sub = [''tree'']" "RunE = tree_RunE" | "sub = [''summary'']" "RunE = summary_RunE"
    | "sub = [''get'']" "length pos = 1" "RunE = get_RunE"
    by (auto simp: names_def)
  then show ?thesis
  proof cases
    case 1 then show ?thesis using root by simp
  next
    case 2 then show ?thesis using sub [OF plugin_words(1) plugin_findNext(1)] list by (simp add: NewListCommand_def)
  next
    case 3 then show ?thesis using sub [OF plugin_words(2) plugin_findNext(2)] list by (simp add: NewListCommand_def)
  next
    case 4 then show ?thesis
      using sub [OF plugin_words(3) plugin_findNext(3)] execute_tree [OF assms(1,3)] by (simp add: NewTreeCommand_def)
  next
    case 5 then show ?thesis using sub [OF plugin_words(5) plugin_findNext(5)] summary by (simp add: NewSummaryCommand_def)
  next
    case 6 then show ?thesis using sub [OF plugin_words(4) plugin_findNext(4)] get by (simp add: NewGetCommand_def)
  qed
qed

text \<open>
  C30. The plugin's command line. The words of the command line, \<open>list\<close>, \<open>ls\<close>, \<open>tree\<close>, \<open>summary\<close>, \<open>get\<close> or none,
  decide which function runs, none meaning \<open>list\<close>. It runs with the variables the settings describe, whatever
  their order and on whichever side of the words they stand, with defaults for those left out, and its error is the
  exit status. Every value, also one with \<open>=\<close> or a leading \<open>-\<close>, is read as it was given.
\<close>

theorem plugin_reads_flags:
  fixes RunE :: "('c, 'u, 'w) run_e"
  assumes "sets_vars (xs @ ys) v" "sub = [''tree''] \<or> ''for'' \<notin> fst ` set (xs @ ys)" "ends rest pos" "names sub pos RunE"
  shows "plugin_main cx lib (map long xs @ sub @ map long ys @ rest) w =
    (case RunE cx v pos w of
       None \<Rightarrow> None
     | Some ((err, out), w) \<Rightarrow> Some ((if err \<noteq> None then 1 else 0, out), w))"
  by (simp only: plugin_main_def plugin_runs [OF assms] outcome.case)

definition demo_vars :: plugin_vars where
  "demo_vars = default_vars\<lparr>pv_treeFor := ''VM/x'', pv_globalFlags :=
     pv_globalFlags default_vars\<lparr>fl_Namespace := ''-a=b'', fl_AllPhases := True\<rparr>\<rparr>"

theorem plugin_reads_flags_witness:
  "plugin_main (demo_cluster []) (\<lambda>args. (0, [])) [''--namespace=-a=b'', ''tree'', ''--all-phases=true'', ''--for=VM/x''] () =
    (case tree_RunE (demo_cluster []) demo_vars [] () of
       None \<Rightarrow> None
     | Some ((err, out), w) \<Rightarrow> Some ((if err \<noteq> None then 1 else 0, out), w))"
proof -
  have "sets_vars ([(''namespace'', ''-a=b'')] @ [(''all-phases'', ''true''), (''for'', ''VM/x'')]) demo_vars"
    by (simp add: sets_vars_def demo_vars_def tree_settings_def global_settings_def default_vars_def show_bool_def)
  from plugin_reads_flags [OF this, of "[''tree'']" "[]" "[]" "tree_RunE" "demo_cluster []" "\<lambda>args. (0, [])" "()"]
  show ?thesis by (simp add: names_def long_def)
qed

text \<open>
  What the plugin refuses: a first word that is no command, or \<open>get\<close> with other than one argument, ends with 1,
  whatever settings come with it, and nothing is asked of the API server or printed.
\<close>

lemma fold_no_help:
  "\<forall>s \<in> set xs. s \<in> set (global_settings g) \<Longrightarrow> snd (fold (assign (persistent_flags @ [help_flag])) xs (v, False)) = False"
proof (induction xs arbitrary: v)
  case (Cons s xs)
  have "\<forall>s \<in> set (global_settings g). snd (assign tree_flags s (v, False)) = False"
    by (simp add: global_settings_def)
  then have "snd (assign (persistent_flags @ [help_flag]) s (v, False)) = False"
    using Cons.prems global_settings_read(2) [of s g] by simp
  then have "assign (persistent_flags @ [help_flag]) s (v, False) =
      (fst (assign (persistent_flags @ [help_flag]) s (v, False)), False)"
    by (cases "assign (persistent_flags @ [help_flag]) s (v, False)") simp
  then show ?case using Cons by (metis fold_simps(2) list.set_intros(2))
qed simp

theorem plugin_rejects:
  fixes cx :: "('c, 'u, 'w) cluster"
  shows "(word sub \<and> sub \<notin> {''list'', ''ls'', ''tree'', ''get'', ''summary''} \<union> own_names \<longrightarrow>
      plugin_main cx lib (map long xs @ sub # rest) w = Some ((1, []), w)) \<and>
   (set (ys @ zs) \<subseteq> set (global_settings g) \<and> length pos \<noteq> 1 \<longrightarrow>
      plugin_main cx lib (map long ys @ ''get'' # map long zs @ ''--'' # pos) w = Some ((1, []), w))"
proof (intro conjI impI)
  assume *: "word sub \<and> sub \<notin> {''list'', ''ls'', ''tree'', ''get'', ''summary''} \<union> own_names"
  then have none: "findNext (NewRootCommand :: ('c, 'u, 'w) plugin_command) sub = None"
    by (auto simp: findNext_def NewRootCommand_def NewListCommand_def NewTreeCommand_def NewGetCommand_def
        NewSummaryCommand_def cb_Name_def Let_def find_None_iff)
  have "ExecuteC (NewRootCommand :: ('c, 'u, 'w) plugin_command) (map long xs @ sub # rest) default_vars = Fails (UnknownCommand sub)"
    using * none by (intro ExecuteC_unknown) (auto simp: plugin_root NewRootCommand_def Let_def)
  then show "plugin_main cx lib (map long xs @ sub # rest) w = Some ((1, []), w)" by (simp add: plugin_main_def)
next
  assume *: "set (ys @ zs) \<subseteq> set (global_settings g) \<and> length pos \<noteq> 1"
  then have s: "\<forall>s \<in> set (ys @ zs). s \<in> set (global_settings g)" by auto
  have "execute \<lparr>fd_cmd = NewGetCommand :: ('c, 'u, 'w) plugin_command, fd_parents = persistent_flags, fd_root = False,
      fd_args = map long (ys @ zs) @ ''--'' # pos\<rparr> default_vars = Fails (WrongArgs 1 (length pos))"
    by (rule execute_wrong_args [OF command_flags(3)])
      (use * s global_settings_read(1) fold_no_help [OF s] in \<open>auto simp: NewGetCommand_def ValidateArgs_def\<close>)
  moreover have "findNext (NewRootCommand :: ('c, 'u, 'w) plugin_command) ''get'' = Some NewGetCommand"
    by (rule plugin_findNext(4))
  note get = ExecuteC_sub [OF plugin_words(4) this ends_simps(2), of ys zs pos default_vars]
  ultimately have "ExecuteC (NewRootCommand :: ('c, 'u, 'w) plugin_command)
      (map long ys @ ''get'' # map long zs @ ''--'' # pos) default_vars = Fails (WrongArgs 1 (length pos))"
    using get by (simp add: plugin_root NewGetCommand_def)
  then show "plugin_main cx lib (map long ys @ ''get'' # map long zs @ ''--'' # pos) w = Some ((1, []), w)"
    by (simp add: plugin_main_def)
qed

theorem plugin_rejects_witness:
  "plugin_main (demo_cluster []) (\<lambda>args. (0, [])) [''--kind=VM'', ''lst'', ''--help''] () = Some ((1, []), ()) \<and>
   plugin_main (demo_cluster []) (\<lambda>args. (0, [])) [''get'', ''--'', ''a'', ''b''] () = Some ((1, []), ())"
  using plugin_rejects [of "''lst''" "demo_cluster []" "\<lambda>args. (0, [])" "[(''kind'', ''VM'')]" "[''--help'']" "()"
      "[]" "[]" undefined "[''a'', ''b'']"]
  by (simp add: word_def own_names_def long_def)

section \<open>The csv generator's flags\<close>

text \<open>The flags after \<open>init\<close>, which does not panic.\<close>

definition csv_marked :: "generatorFlags vars pflag list" where
  "csv_marked = map (\<lambda>fl. if pf_Name fl \<in> set csv_required then fl\<lparr>pf_Required := True\<rparr> else fl) csv_flags"

lemma csv_init: "mark_required csv_required csv_flags = Some csv_marked"
  by (simp add: csv_required_def csv_flags_def csv_marked_def MarkFlagRequired_def Lookup_def flag_defs)

definition csv_settings :: "generatorFlags \<Rightarrow> (string \<times> string) list" where
  "csv_settings v = [
     (''crds'', gf_crds v), (''rbac-dir'', gf_rbacDir v), (''csv-version'', gf_csvVersion v),
     (''namespace'', gf_namespace v), (''operator-image'', gf_operatorImage v),
     (''operator-version'', gf_operatorVersion v), (''pull-policy'', gf_pullPolicy v),
     (''dump-crds'', show_bool (gf_dumpCRDs v))]"

definition csv_all :: "generatorFlags vars pflag list" where
  "csv_all = csv_marked @ [help_flag]"

lemma csv_merged: "InitDefaultHelpFlag (merged_flags [] (csv_command csv_marked f y write)) = csv_all"
  by (simp add: InitDefaultHelpFlag_def merged_flags_def AddFlagSet_def csv_command_def csv_all_def csv_marked_def
      csv_flags_def csv_required_def Lookup_def flag_defs)

lemma assign_csv [simp]:
  "assign csv_all (''crds'', x) (v, h) = (v\<lparr>gf_crds := x\<rparr>, h)"
  "assign csv_all (''rbac-dir'', x) (v, h) = (v\<lparr>gf_rbacDir := x\<rparr>, h)"
  "assign csv_all (''csv-version'', x) (v, h) = (v\<lparr>gf_csvVersion := x\<rparr>, h)"
  "assign csv_all (''namespace'', x) (v, h) = (v\<lparr>gf_namespace := x\<rparr>, h)"
  "assign csv_all (''operator-image'', x) (v, h) = (v\<lparr>gf_operatorImage := x\<rparr>, h)"
  "assign csv_all (''operator-version'', x) (v, h) = (v\<lparr>gf_operatorVersion := x\<rparr>, h)"
  "assign csv_all (''pull-policy'', x) (v, h) = (v\<lparr>gf_pullPolicy := x\<rparr>, h)"
  "assign csv_all (''dump-crds'', show_bool b) (v, h) = (v\<lparr>gf_dumpCRDs := b\<rparr>, h)"
  by (simp_all add: assign_def csv_all_def csv_marked_def csv_flags_def csv_required_def Lookup_def flag_defs)

lemma csv_commute:
  assumes "s \<in> set (csv_settings v)" "t \<in> set (csv_settings v)"
  shows "assign csv_all s \<circ> assign csv_all t = assign csv_all t \<circ> assign csv_all s"
proof
  fix p :: "generatorFlags vars"
  show "(assign csv_all s \<circ> assign csv_all t) p = (assign csv_all t \<circ> assign csv_all s) p"
  proof (cases p)
    case (Pair u h)
    with assms show ?thesis by (cases u) (auto simp: csv_settings_def)
  qed
qed

lemma csv_accepted: "s \<in> set (csv_settings v) \<Longrightarrow> accepts csv_all s"
proof -
  have "\<forall>s \<in> set (csv_settings v). accepts csv_all s"
    by (simp add: accepts_def flag_name_def csv_settings_def csv_all_def csv_marked_def csv_flags_def csv_required_def Lookup_def flag_defs)
  then show "s \<in> set (csv_settings v) \<Longrightarrow> ?thesis" by blast
qed

text \<open>\<open>xs\<close> are settings of \<open>v\<close>, each given once, all required ones among them; those left out are defaults.\<close>

definition sets_csv :: "(string \<times> string) list \<Rightarrow> generatorFlags \<Rightarrow> bool" where
  "sets_csv xs v \<longleftrightarrow> distinct xs \<and> set xs \<subseteq> set (csv_settings v) \<and> set csv_required \<subseteq> fst ` set xs \<and>
     (\<forall>s \<in> set (csv_settings v). s \<in> set xs \<or> s \<in> set (csv_settings csv_defaults))"

lemma csv_default:
  "s \<in> set (csv_settings csv_defaults) \<Longrightarrow> assign csv_all s (csv_defaults, False) = (csv_defaults, False)"
proof -
  have "\<forall>s \<in> set (csv_settings csv_defaults). assign csv_all s (csv_defaults, False) = (csv_defaults, False)"
    by (simp add: csv_settings_def csv_defaults_def)
  then show "s \<in> set (csv_settings csv_defaults) \<Longrightarrow> ?thesis" by blast
qed

lemma fold_csv_settings: "fold (assign csv_all) (csv_settings v) (csv_defaults, False) = (v, False)"
  by (cases v) (simp add: csv_settings_def csv_defaults_def)

interpretation csv: flag_settings "assign csv_all" csv_settings "\<lambda>v. (v, False)" csv_defaults
  by unfold_locales (simp_all add: csv_commute fold_csv_settings csv_default, simp add: csv_settings_def)

lemma fold_sets_csv: "sets_csv xs v \<Longrightarrow> fold (assign csv_all) xs (csv_defaults, False) = (v, False)"
  by (rule csv.read_back) (simp_all add: sets_csv_def)

lemma csv_required_flags:
  "fl \<in> set csv_all \<Longrightarrow> pf_Required fl \<Longrightarrow> pf_Name fl \<in> set csv_required"
  by (auto simp: csv_all_def csv_marked_def csv_flags_def csv_required_def flag_defs)

lemma csv_required_marked:
  "n \<in> set csv_required \<Longrightarrow> \<exists>fl \<in> set csv_all. pf_Name fl = n \<and> pf_Required fl \<and> \<not> has_shorthand csv_all n"
  by (auto simp: csv_all_def csv_marked_def csv_flags_def csv_required_def has_shorthand_def flag_defs)

text \<open>
  C28. The csv generator's command line. With settings that describe \<open>v\<close>, the required ones among them, it generates
  with \<open>v\<close>, and its error is the exit status. Without a mention of one of the required flags it generates nothing, whatever
  the other arguments, the files and the codecs are: it exits with 1 having written nothing, or cobra answers by itself.
\<close>

theorem csv_command_line:
  "(sets_csv xs v \<and> ends rest pos \<longrightarrow>
      csv_main f y write lib (map long xs @ rest) w = Some (exit_status (generate f y write v w))) \<and>
   (n \<in> {''csv-version'', ''namespace'', ''operator-image'', ''operator-version''} \<and> \<not> mentions args n \<longrightarrow>
      csv_main f y write lib args w = Some (1, w) \<or>
      (\<exists>code. csv_main f y write lib args w = Some (code, snd (write (snd (lib args)) w)) \<and> code \<in> {0, fst (lib args)}))"
proof (intro conjI impI)
  assume *: "sets_csv xs v \<and> ends rest pos"
  let ?c = "csv_command csv_marked f y write"
  have run: "cb_Run ?c = Some (generate f y write)" by (simp add: csv_command_def)
  have "ExecuteC ?c (map long xs @ rest) csv_defaults = execute \<lparr>fd_cmd = ?c, fd_parents = [], fd_root = True,
      fd_args = map long xs @ rest\<rparr> csv_defaults"
    using * run by (intro ExecuteC_root) auto
  also have "\<dots> = Runs (generate f y write) v pos"
    using * run csv_accepted csv_required_flags
    by (intro execute_settings [OF csv_merged] fold_sets_csv) (auto simp: sets_csv_def csv_command_def ValidateArgs_def)
  finally show "csv_main f y write lib (map long xs @ rest) w = Some (exit_status (generate f y write v w))"
    by (simp add: csv_main_def csv_init generator_main_def)
next
  assume "n \<in> {''csv-version'', ''namespace'', ''operator-image'', ''operator-version''} \<and> \<not> mentions args n"
  then have *: "n \<in> set csv_required \<and> \<not> mentions args n" by (simp add: csv_required_def)
  let ?c = "csv_command csv_marked f y write"
  have "ExecuteC ?c args csv_defaults \<noteq> Runs run v pos" for run v pos
  proof
    assume r: "ExecuteC ?c args csv_defaults = Runs run v pos"
    from * csv_required_marked obtain fl
      where fl: "fl \<in> set csv_all" "pf_Name fl = n" "pf_Required fl" "\<not> has_shorthand csv_all n" by blast
    have "cb_commands ?c = []" by (simp add: csv_command_def)
    from Runs_required [OF ExecuteC_leaf [OF this r], of csv_all fl] fl * show False by (simp add: csv_merged)
  qed
  then show "csv_main f y write lib args w = Some (1, w) \<or>
      (\<exists>code. csv_main f y write lib args w = Some (code, snd (write (snd (lib args)) w)) \<and> code \<in> {0, fst (lib args)})"
    by (cases "ExecuteC ?c args csv_defaults") (auto simp: csv_main_def csv_init generator_main_def answer_def)
qed

theorem csv_command_line_witness:
  "csv_main demo_rules demo_codec append_out (\<lambda>args. (0, ''usage''))
      [''--csv-version=0.1.0'', ''--operator-version=0.1.0'', ''--namespace=ifo'', ''--crds=crds'', ''--rbac-dir=rbac'',
       ''--operator-image=img'', ''--pull-policy=Always''] [] =
     Some (exit_status (generate demo_rules demo_codec append_out demo_generator [])) \<and>
   (csv_main demo_rules demo_codec append_out (\<lambda>args. (0, ''usage'')) [''--namespace=ifo''] [] = Some (1, []) \<or>
    csv_main demo_rules demo_codec append_out (\<lambda>args. (0, ''usage'')) [''--namespace=ifo''] [] = Some (0, ''usage''))"
proof -
  have "sets_csv [(''csv-version'', ''0.1.0''), (''operator-version'', ''0.1.0''), (''namespace'', ''ifo''), (''crds'', ''crds''),
      (''rbac-dir'', ''rbac''), (''operator-image'', ''img''), (''pull-policy'', ''Always'')] demo_generator"
    by (simp add: sets_csv_def csv_settings_def csv_required_def csv_defaults_def demo_generator_def show_bool_def)
  moreover have "\<not> mentions [''--namespace=ifo''] ''csv-version''"
    by (simp add: mentions_def)
  ultimately show ?thesis
    using csv_command_line [of "[(''csv-version'', ''0.1.0''), (''operator-version'', ''0.1.0''), (''namespace'', ''ifo''), (''crds'', ''crds''),
        (''rbac-dir'', ''rbac''), (''operator-image'', ''img''), (''pull-policy'', ''Always'')]" demo_generator "[]" "[]"
        demo_rules demo_codec append_out "\<lambda>args. (0, ''usage'')" "[]" "''csv-version''" "[''--namespace=ifo'']"]
    by (simp add: long_def append_out_def)
qed

section \<open>The flags of the other generators\<close>

definition role_all :: "role_flags vars pflag list" where
  "role_all = [StringVarP rf_rulesDir_update ''rules-dir'' [], StringVarP rf_roleName_update ''role-name'' [], help_flag]"

definition role_settings :: "role_flags \<Rightarrow> (string \<times> string) list" where
  "role_settings v = [(''rules-dir'', rf_rulesDir v), (''role-name'', rf_roleName v)]"

lemma assign_role [simp]:
  "assign role_all (''rules-dir'', x) (v, h) = (v\<lparr>rf_rulesDir := x\<rparr>, h)"
  "assign role_all (''role-name'', x) (v, h) = (v\<lparr>rf_roleName := x\<rparr>, h)"
  by (simp_all add: assign_def role_all_def Lookup_def flag_defs)

lemma role_commute:
  "s \<in> set (role_settings v) \<Longrightarrow> t \<in> set (role_settings v) \<Longrightarrow>
   assign role_all s \<circ> assign role_all t = assign role_all t \<circ> assign role_all s"
  by (auto simp: role_settings_def fun_eq_iff)

lemma fold_role_settings: "fold (assign role_all) (role_settings v) (role_defaults, False) = (v, False)"
  by (cases v) (simp add: role_settings_def role_defaults_def)

interpretation role: flag_settings "assign role_all" role_settings "\<lambda>v. (v, False)" role_defaults
  by unfold_locales
    (simp_all add: role_commute fold_role_settings, auto simp: role_settings_def role_defaults_def)

text \<open>
  The role generator reads its flags back and passes its error on as the exit status; a directory and a name
  that are left out are \<open>rules\<close> and \<open>watch-role\<close>.
\<close>

theorem role_reads_flags:
  assumes "distinct xs" "set xs \<subseteq> set (role_settings v)" "ends rest pos"
    and "\<forall>s \<in> set (role_settings v). s \<in> set xs \<or> s \<in> set (role_settings role_defaults)"
  shows "role_main ord f unmarshal marshal write lib (map long xs @ rest) w =
    exit_status (role_run ord f unmarshal marshal write (rf_rulesDir v) (rf_roleName v) w)"
proof -
  let ?run = "\<lambda>v. role_run ord f unmarshal marshal write (rf_rulesDir v) (rf_roleName v)"
  let ?c = "role_command ?run"
  have flags: "InitDefaultHelpFlag (merged_flags [] ?c) = role_all"
    by (simp add: InitDefaultHelpFlag_def merged_flags_def AddFlagSet_def role_command_def role_all_def Lookup_def flag_defs)
  have "\<forall>s \<in> set (role_settings v). accepts role_all s"
    by (simp add: accepts_def flag_name_def role_settings_def role_all_def Lookup_def flag_defs)
  then have "execute \<lparr>fd_cmd = ?c, fd_parents = [], fd_root = True, fd_args = map long xs @ rest\<rparr> role_defaults = Runs ?run v pos"
    using assms by (intro execute_settings [OF flags] role.read_back)
      (auto simp: role_command_def ValidateArgs_def role_all_def flag_defs)
  then show ?thesis
    using ExecuteC_root [OF assms(3), of ?c xs role_defaults]
    by (simp add: role_main_def generator_main_def role_command_def)
qed

theorem role_reads_flags_witness:
  "role_main sorted_orders demo_rules demo_unmarshal (\<lambda>role. Inr (cb role)) append_out (\<lambda>args. (0, [])) [''--role-name=reader''] [] =
    exit_status (role_run sorted_orders demo_rules demo_unmarshal (\<lambda>role. Inr (cb role)) append_out ''rules'' ''reader'' [])"
  using role_reads_flags [of "[(''role-name'', ''reader'')]" "\<lparr>rf_rulesDir = ''rules'', rf_roleName = ''reader''\<rparr>" "[]" "[]"
      sorted_orders demo_rules demo_unmarshal "\<lambda>role. Inr (cb role)" append_out "\<lambda>args. (0, [])" "[]"]
  by (simp add: role_settings_def role_defaults_def long_def)

end
