(* ===== verification/Deep_Copy.thy ===== *)
theory Deep_Copy
  imports Api_Types
begin

text \<open>
  The generated deep copies (\<open>zz_generated.deepcopy.go\<close> of \<open>api/v1alpha1\<close> and \<open>lib/condition\<close>, with those of the
  object metadata they call) over an explicit store: slices, maps and pointers lead to blocks, and a copy
  allocates its own. That a copy has the value of the original and shares no block with it is a contract,
  the locale \<open>deep_copier\<close>, which the ways of building a type preserve and each generated
  function is shown to meet.

  The store is typed: a reference leads to a block of its type, which \<open>value\<close> checks. The memory \<open>new\<close>
  returns for a whole object is known to nobody else, so an object is its contents; an optional one
  stands for a pointer that may be nil.
\<close>

section \<open>The store\<close>

type_synonym address = nat

text \<open>A slice header: the array, the offset into it, the length.\<close>

type_synonym slice = "(address \<times> nat \<times> nat) option"
type_synonym pointer = "address option"

record raw_owner =
  row_APIVersion :: string
  row_Kind :: string
  row_Name :: string
  row_UID :: string
  row_Controller :: pointer
  row_BlockOwnerDeletion :: pointer

record raw_managed =
  rmf_Manager :: string
  rmf_Operation :: string
  rmf_APIVersion :: string
  rmf_Time :: pointer
  rmf_FieldsType :: string
  rmf_FieldsV1 :: pointer
  rmf_Subresource :: string

record raw_meta =
  rm_Name :: string
  rm_GenerateName :: string
  rm_Namespace :: string
  rm_SelfLink :: string
  rm_UID :: string
  rm_ResourceVersion :: string
  rm_Generation :: int
  rm_CreationTimestamp :: time
  rm_DeletionTimestamp :: pointer
  rm_DeletionGracePeriodSeconds :: pointer
  rm_Labels :: pointer
  rm_Annotations :: pointer
  rm_OwnerReferences :: slice
  rm_Finalizers :: slice
  rm_ManagedFields :: slice

record raw_condition =
  rcn_Type :: string
  rcn_Status :: string
  rcn_Reason :: string
  rcn_Category :: string
  rcn_Message :: string
  rcn_LastTransitionTime :: time
  rcn_Durable :: bool
  rcn_Items :: slice
  rcn_staged :: bool

record raw_explain =
  rex_Added :: pointer
  rex_Updated :: pointer
  rex_Deleted :: pointer

record raw_conditions =
  rcs_List :: slice
  rcs_staging :: bool
  rcs_explain :: raw_explain

record raw_ors_spec =
  ros_Component :: string
  ros_Target :: gvr
  ros_Rules :: slice
  ros_Namespaces :: slice
  ros_Labels :: pointer
  ros_LabelExpressions :: slice

record raw_ors_status =
  rst_Conditions :: raw_conditions
  rst_WatchActive :: bool
  rst_LastEvaluationTime :: pointer
  rst_ObservedGeneration :: int

record raw_ors =
  ro_Kind :: string
  ro_APIVersion :: string
  ro_Meta :: raw_meta
  ro_Spec :: raw_ors_spec
  ro_Status :: raw_ors_status

record raw_subject =
  rsu_APIVersion :: string
  rsu_Kind :: string
  rsu_Name :: string
  rsu_Namespace :: string
  rsu_UID :: string
  rsu_OwnerReferences :: slice

record raw_ifo_spec =
  ris_Operation :: string
  ris_RuleSet :: string
  ris_Component :: string
  ris_Subject :: raw_subject

record raw_ifo_status =
  rit_Phase :: string
  rit_Completed :: pointer
  rit_LastDetected :: pointer
  rit_DetectedBy :: slice
  rit_SubjectGeneration :: int
  rit_Conditions :: raw_conditions

record raw_ifo =
  ri_Kind :: string
  ri_APIVersion :: string
  ri_Meta :: raw_meta
  ri_Spec :: raw_ifo_spec
  ri_Status :: raw_ifo_status

record raw_list_meta =
  rlm_SelfLink :: string
  rlm_ResourceVersion :: string
  rlm_Continue :: string
  rlm_RemainingItemCount :: pointer

text \<open>The two lists of objects have the same fields.\<close>

record raw_list =
  rl_Kind :: string
  rl_APIVersion :: string
  rl_Meta :: raw_list_meta
  rl_Items :: slice

text \<open>A map holds its entries in the order a \<open>range\<close> over it visits them.\<close>

datatype block =
    BTime (un_BTime: time) | BInt (un_BInt: int) | BBool (un_BBool: bool)
  | BBytes (un_BBytes: string) | BFieldsV1 (un_BFieldsV1: slice)
  | BStrings (un_BStrings: "string list") | BRules (un_BRules: "rule list")
  | BLabelExprs (un_BLabelExprs: "label_expression list")
  | BOwners (un_BOwners: "raw_owner list") | BManaged (un_BManaged: "raw_managed list")
  | BConditions (un_BConditions: "raw_condition list")
  | BRuleSets (un_BRuleSets: "raw_ors list") | BOperations (un_BOperations: "raw_ifo list")
  | BStringMap (un_BStringMap: "(string \<times> string) list")
  | BConditionMap (un_BConditionMap: "(string \<times> raw_condition) list")

type_synonym store = "block list"

section \<open>Ways of copying\<close>

text \<open>A plain value is copied by assignment.\<close>

definition flat_copy :: "'r \<Rightarrow> store \<Rightarrow> 'r \<times> store" where
  "flat_copy x st = (x, st)"

text \<open>Two fields, one after the other.\<close>

definition pair_copy ::
  "('a \<Rightarrow> store \<Rightarrow> 'a \<times> store) \<Rightarrow> ('b \<Rightarrow> store \<Rightarrow> 'b \<times> store) \<Rightarrow> 'a \<times> 'b \<Rightarrow> store \<Rightarrow> ('a \<times> 'b) \<times> store"
where
  "pair_copy into_a into_b ab st =
     (let (a, st) = into_a (fst ab) st; (b, st) = into_b (snd ab) st in ((a, b), st))"

fun copy_all :: "('r \<Rightarrow> store \<Rightarrow> 'r \<times> store) \<Rightarrow> 'r list \<Rightarrow> store \<Rightarrow> 'r list \<times> store" where
  "copy_all into [] st = ([], st)"
| "copy_all into (x # xs) st =
     (let (y, st) = into x st; (ys, st) = copy_all into xs st in (y # ys, st))"

text \<open>
  A slice: nil stays nil; otherwise a new array of zero values of the slice's length is made and filled with the
  copies of the elements.
\<close>

definition slice_copy ::
  "('r list \<Rightarrow> block) \<Rightarrow> (block \<Rightarrow> 'r list) \<Rightarrow> 'r \<Rightarrow> ('r \<Rightarrow> store \<Rightarrow> 'r \<times> store) \<Rightarrow> slice \<Rightarrow> store \<Rightarrow> slice \<times> store"
where
  "slice_copy wrap unwrap zero into s st =
     (case s of
        None \<Rightarrow> (None, st)
      | Some (a, off, n) \<Rightarrow>
          (let xs = take n (drop off (unwrap (st ! a)));
               b = length st;
               (ys, st) = copy_all into xs (st @ [wrap (replicate n zero)]) in
           (Some (b, 0, n), st[b := wrap ys])))"

text \<open>A pointer: a new block that is filled with the copy of what the old one holds.\<close>

definition pointer_copy ::
  "('r \<Rightarrow> block) \<Rightarrow> (block \<Rightarrow> 'r) \<Rightarrow> 'r \<Rightarrow> ('r \<Rightarrow> store \<Rightarrow> 'r \<times> store) \<Rightarrow> pointer \<Rightarrow> store \<Rightarrow> pointer \<times> store"
where
  "pointer_copy wrap unwrap zero into p st =
     (case p of
        None \<Rightarrow> (None, st)
      | Some a \<Rightarrow>
          (let b = length st;
               (y, st) = into (unwrap (st ! a)) (st @ [wrap zero]) in
           (Some b, st[b := wrap y])))"

text \<open>A map: a new map, and each visited key assigned the copy of its value.\<close>

definition map_put :: "string \<Rightarrow> 'r \<Rightarrow> (string \<times> 'r) list \<Rightarrow> (string \<times> 'r) list" where
  "map_put k v es = (if k \<in> fst ` set es then map (\<lambda>e. if fst e = k then (k, v) else e) es else es @ [(k, v)])"

fun copy_entries :: "('r \<Rightarrow> store \<Rightarrow> 'r \<times> store) \<Rightarrow> (string \<times> 'r) list \<Rightarrow> (string \<times> 'r) list \<Rightarrow> store \<Rightarrow> (string \<times> 'r) list \<times> store" where
  "copy_entries into [] m st = (m, st)"
| "copy_entries into ((k, x) # es) m st =
     (let (y, st) = into x st in copy_entries into es (map_put k y m) st)"

definition map_copy ::
  "((string \<times> 'r) list \<Rightarrow> block) \<Rightarrow> (block \<Rightarrow> (string \<times> 'r) list) \<Rightarrow> ('r \<Rightarrow> store \<Rightarrow> 'r \<times> store) \<Rightarrow>
   pointer \<Rightarrow> store \<Rightarrow> pointer \<times> store"
where
  "map_copy wrap unwrap into p st =
     (case p of
        None \<Rightarrow> (None, st)
      | Some a \<Rightarrow>
          (let b = length st;
               (m, st) = copy_entries into (unwrap (st ! a)) [] (st @ [wrap []]) in
           (Some b, st[b := wrap m])))"

text \<open>\<open>DeepCopy\<close> of every type: nil for nil, and otherwise \<open>DeepCopyInto\<close> a new object.\<close>

definition new_copy :: "('r \<Rightarrow> store \<Rightarrow> 'r \<times> store) \<Rightarrow> 'r option \<Rightarrow> store \<Rightarrow> 'r option \<times> store" where
  "new_copy into p st =
     (case p of None \<Rightarrow> (None, st) | Some r \<Rightarrow> (let (out, st) = into r st in (Some out, st)))"

section \<open>The contract\<close>

text \<open>
  \<open>value\<close> is what a reader finds from a struct, if the store is well typed below it; \<open>foot\<close> is the set of blocks it
  finds it in. A deep copy only allocates, yields the value it was given, and lives in new blocks.
\<close>

locale deep_copier =
  fixes into :: "'r \<Rightarrow> store \<Rightarrow> 'r \<times> store"
    and val :: "store \<Rightarrow> 'r \<Rightarrow> 'v option"
    and foot :: "store \<Rightarrow> 'r \<Rightarrow> address set"
  assumes bound: "val st r = Some v \<Longrightarrow> foot st r \<subseteq> {..<length st}"
    and local: "val st r = Some v \<Longrightarrow> \<forall>a \<in> foot st r. st' ! a = st ! a \<Longrightarrow> length st \<le> length st' \<Longrightarrow>
      val st' r = Some v \<and> foot st' r = foot st r"
    and copies: "val st r = Some v \<Longrightarrow>
      \<exists>bs. snd (into r st) = st @ bs \<and> val (snd (into r st)) (fst (into r st)) = Some v \<and>
        foot (snd (into r st)) (fst (into r st)) \<inter> {..<length st} = {}"
begin

lemma frame:
  assumes "val st r = Some v"
  shows "val (st @ bs) r = Some v" "foot (st @ bs) r = foot st r"
  using local [OF assms, of "st @ bs"] bound [OF assms] by (auto simp: nth_append subset_iff)

lemma copied:
  assumes "val st r = Some v" "into r st = (r', st')"
  obtains bs where "st' = st @ bs" "val st' r' = Some v" "foot st' r' \<subseteq> {length st..<length st'}"
proof -
  from copies [OF assms(1)] assms(2) obtain bs where
    *: "st' = st @ bs" "val st' r' = Some v" "foot st' r' \<inter> {..<length st} = {}" by auto
  have "foot st' r' \<subseteq> {length st..<length st'}" using bound [OF *(2)] *(3) by force
  with * that show ?thesis by blast
qed

text \<open>Copying into a block that has been allocated for it, which is then overwritten.\<close>

lemma filled:
  assumes "val st r = Some v" "into r (st @ [z]) = (r', st')"
  obtains bs where "st'[length st := w] = st @ w # bs" "val (st @ w # bs) r' = Some v"
    "foot (st @ w # bs) r' \<subseteq> {length st<..<length (st @ w # bs)}"
proof -
  have "val (st @ [z]) r = Some v" by (rule frame [OF assms(1)])
  then obtain bs where bs: "st' = (st @ [z]) @ bs" "val st' r' = Some v"
    "foot st' r' \<subseteq> {length (st @ [z])..<length st'}"
    by (rule copied [OF _ assms(2)])
  have upd: "st'[length st := w] = st @ w # bs" using bs(1) by (simp add: list_update_append)
  have "\<forall>a \<in> foot st' r'. (st @ w # bs) ! a = st' ! a"
    using bs(1,3) by (auto simp: nth_append nth_Cons split: nat.splits dest!: subsetD)
  then have "val (st @ w # bs) r' = Some v \<and> foot (st @ w # bs) r' = foot st' r'"
    by (rule local [OF bs(2)]) (simp add: bs(1))
  moreover have "foot st' r' \<subseteq> {length st<..<length (st @ w # bs)}" using bs(1,3) by (auto dest!: subsetD)
  ultimately show ?thesis using that [OF upd] by simp
qed

text \<open>What follows from the contract for whoever holds a copy: neither side sees writes to the other's memory.\<close>

lemma independent:
  assumes "val st r = Some v" "into r st = (r', st')" "length st' \<le> length st''"
  shows "\<forall>a \<ge> length st. a < length st' \<longrightarrow> st'' ! a = st' ! a \<Longrightarrow> val st'' r' = Some v"
    and "\<forall>a < length st. st'' ! a = st' ! a \<Longrightarrow> val st'' r = Some v"
proof -
  obtain bs where bs: "st' = st @ bs" "val st' r' = Some v" "foot st' r' \<subseteq> {length st..<length st'}"
    using copied [OF assms(1,2)] .
  show "val st'' r' = Some v" if *: "\<forall>a \<ge> length st. a < length st' \<longrightarrow> st'' ! a = st' ! a"
  proof -
    have "\<forall>a \<in> foot st' r'. st'' ! a = st' ! a" using bs(3) * by force
    with local [OF bs(2) _ assms(3)] show ?thesis by blast
  qed
  show "val st'' r = Some v" if *: "\<forall>a < length st. st'' ! a = st' ! a"
  proof -
    have "\<forall>a \<in> foot st r. st'' ! a = st ! a" using bound [OF assms(1)] bs(1) * by (auto simp: nth_append subset_iff)
    moreover have "length st \<le> length st''" using bs(1) assms(3) by simp
    ultimately show ?thesis using local [OF assms(1)] by blast
  qed
qed

end

text \<open>Values that hold no references.\<close>

definition flat_val :: "store \<Rightarrow> 'r \<Rightarrow> 'r option" where "flat_val st x = Some x"
definition flat_foot :: "store \<Rightarrow> 'r \<Rightarrow> address set" where "flat_foot st x = {}"

interpretation flat: deep_copier flat_copy flat_val flat_foot
  by unfold_locales (simp_all add: flat_copy_def flat_val_def flat_foot_def)

text \<open>Two fields.\<close>

definition pair_val :: "(store \<Rightarrow> 'a \<Rightarrow> 'v option) \<Rightarrow> (store \<Rightarrow> 'b \<Rightarrow> 'w option) \<Rightarrow> store \<Rightarrow> 'a \<times> 'b \<Rightarrow> ('v \<times> 'w) option" where
  "pair_val va vb st ab = (case (va st (fst ab), vb st (snd ab)) of (Some v, Some w) \<Rightarrow> Some (v, w) | _ \<Rightarrow> None)"

definition pair_foot :: "(store \<Rightarrow> 'a \<Rightarrow> address set) \<Rightarrow> (store \<Rightarrow> 'b \<Rightarrow> address set) \<Rightarrow> store \<Rightarrow> 'a \<times> 'b \<Rightarrow> address set" where
  "pair_foot fa fb st ab = fa st (fst ab) \<union> fb st (snd ab)"

locale pair_copier = left: deep_copier into_a val_a foot_a + right: deep_copier into_b val_b foot_b
  for into_a :: "'a \<Rightarrow> store \<Rightarrow> 'a \<times> store" and val_a :: "store \<Rightarrow> 'a \<Rightarrow> 'v option" and foot_a
    and into_b :: "'b \<Rightarrow> store \<Rightarrow> 'b \<times> store" and val_b :: "store \<Rightarrow> 'b \<Rightarrow> 'w option" and foot_b

sublocale pair_copier \<subseteq> both: deep_copier "pair_copy into_a into_b" "pair_val val_a val_b" "pair_foot foot_a foot_b"
proof
  fix st :: store and r :: "'a \<times> 'b" and v :: "'v \<times> 'w"
  assume "pair_val val_a val_b st r = Some v"
  then obtain va vb where v: "val_a st (fst r) = Some va" "val_b st (snd r) = Some vb" "v = (va, vb)"
    by (auto simp: pair_val_def split: option.splits)
  show "pair_foot foot_a foot_b st r \<subseteq> {..<length st}"
    using left.bound [OF v(1)] right.bound [OF v(2)] by (simp add: pair_foot_def)
  show "pair_val val_a val_b st' r = Some v \<and> pair_foot foot_a foot_b st' r = pair_foot foot_a foot_b st r"
    if "\<forall>a \<in> pair_foot foot_a foot_b st r. st' ! a = st ! a" "length st \<le> length st'" for st'
    using that left.local [OF v(1), of st'] right.local [OF v(2), of st'] v(3)
    by (simp add: pair_foot_def pair_val_def)
  obtain a st1 where a: "into_a (fst r) st = (a, st1)" by fastforce
  obtain b st2 where b: "into_b (snd r) st1 = (b, st2)" by fastforce
  obtain as where as: "st1 = st @ as" "val_a st1 a = Some va" "foot_a st1 a \<subseteq> {length st..<length st1}"
    using left.copied [OF v(1) a] .
  have "val_b st1 (snd r) = Some vb" unfolding as(1) by (rule right.frame [OF v(2)])
  then obtain bs where bs: "st2 = st1 @ bs" "val_b st2 b = Some vb" "foot_b st2 b \<subseteq> {length st1..<length st2}"
    by (rule right.copied [OF _ b])
  have "val_a st2 a = Some va" "foot_a st2 a = foot_a st1 a"
    unfolding bs(1) by (rule left.frame [OF as(2)])+
  moreover have "foot_a st1 a \<inter> {..<length st} = {}" using as(3) by force
  moreover have "foot_b st2 b \<inter> {..<length st} = {}" using bs(3) as(1) by force
  moreover have "pair_copy into_a into_b r st = ((a, b), st2)" using a b by (simp add: pair_copy_def)
  ultimately show "\<exists>cs. snd (pair_copy into_a into_b r st) = st @ cs \<and>
      pair_val val_a val_b (snd (pair_copy into_a into_b r st)) (fst (pair_copy into_a into_b r st)) = Some v \<and>
      pair_foot foot_a foot_b (snd (pair_copy into_a into_b r st)) (fst (pair_copy into_a into_b r st)) \<inter> {..<length st} = {}"
    using as(1) bs(1,2) v(3) by (simp add: pair_val_def pair_foot_def Int_Un_distrib2)
qed

text \<open>The fields of a struct that hold references: \<open>get\<close> them, \<open>set\<close> them; \<open>erase\<close> forgets them.\<close>

definition struct_val :: "('s \<Rightarrow> 'r) \<Rightarrow> ('s \<Rightarrow> 's) \<Rightarrow> (store \<Rightarrow> 'r \<Rightarrow> 'v option) \<Rightarrow> store \<Rightarrow> 's \<Rightarrow> ('s \<times> 'v) option" where
  "struct_val get erase val st s = map_option (Pair (erase s)) (val st (get s))"

definition struct_foot :: "('s \<Rightarrow> 'r) \<Rightarrow> (store \<Rightarrow> 'r \<Rightarrow> address set) \<Rightarrow> store \<Rightarrow> 's \<Rightarrow> address set" where
  "struct_foot get foot st s = foot st (get s)"

locale struct_copier = fields: deep_copier into val foot
  for into :: "'r \<Rightarrow> store \<Rightarrow> 'r \<times> store" and val :: "store \<Rightarrow> 'r \<Rightarrow> 'v option" and foot +
  fixes get :: "'s \<Rightarrow> 'r" and set_fields :: "'r \<Rightarrow> 's \<Rightarrow> 's" and erase :: "'s \<Rightarrow> 's"
    and struct_into :: "'s \<Rightarrow> store \<Rightarrow> 's \<times> store"
  assumes get_set: "get (set_fields x s) = x"
    and erase_set: "erase (set_fields x s) = erase s"
    and into_fields: "struct_into s st = (let (x, st) = into (get s) st in (set_fields x s, st))"

sublocale struct_copier \<subseteq> struct: deep_copier struct_into "struct_val get erase val" "struct_foot get foot"
proof
  fix st :: store and s :: 's and v :: "'s \<times> 'v"
  assume "struct_val get erase val st s = Some v"
  then obtain w where w: "val st (get s) = Some w" "v = (erase s, w)" by (auto simp: struct_val_def)
  show "struct_foot get foot st s \<subseteq> {..<length st}"
    using fields.bound [OF w(1)] by (simp add: struct_foot_def)
  show "struct_val get erase val st' s = Some v \<and> struct_foot get foot st' s = struct_foot get foot st s"
    if "\<forall>a \<in> struct_foot get foot st s. st' ! a = st ! a" "length st \<le> length st'" for st'
    using fields.local [OF w(1), of st'] that w(2) by (simp add: struct_foot_def struct_val_def)
  show "\<exists>bs. snd (struct_into s st) = st @ bs \<and>
      struct_val get erase val (snd (struct_into s st)) (fst (struct_into s st)) = Some v \<and>
      struct_foot get foot (snd (struct_into s st)) (fst (struct_into s st)) \<inter> {..<length st} = {}"
    using fields.copies [OF w(1)] w(2)
    by (auto simp: into_fields struct_val_def struct_foot_def get_set erase_set split: prod.splits)
qed

text \<open>
  References: a header leads to the block \<open>at h\<close>; there is a \<open>content\<close> to be copied into a new block, and the
  \<open>result\<close> is what is read from the block and the value of the content.
\<close>

definition block_val ::
  "('h \<Rightarrow> address) \<Rightarrow> ('h \<Rightarrow> block \<Rightarrow> bool) \<Rightarrow> ('h \<Rightarrow> block \<Rightarrow> 'r) \<Rightarrow> ('h \<Rightarrow> block \<Rightarrow> 'v \<Rightarrow> 'w) \<Rightarrow>
   (store \<Rightarrow> 'r \<Rightarrow> 'v option) \<Rightarrow> store \<Rightarrow> 'h option \<Rightarrow> 'w option option"
where
  "block_val at ok content result val st p =
     (case p of
        None \<Rightarrow> Some None
      | Some h \<Rightarrow>
          if at h < length st \<and> ok h (st ! at h)
          then map_option (\<lambda>v. Some (result h (st ! at h) v)) (val st (content h (st ! at h)))
          else None)"

definition block_foot ::
  "('h \<Rightarrow> address) \<Rightarrow> ('h \<Rightarrow> block \<Rightarrow> 'r) \<Rightarrow> (store \<Rightarrow> 'r \<Rightarrow> address set) \<Rightarrow> store \<Rightarrow> 'h option \<Rightarrow> address set"
where
  "block_foot at content foot st p =
     (case p of None \<Rightarrow> {} | Some h \<Rightarrow> insert (at h) (foot st (content h (st ! at h))))"

locale block_copier = target: deep_copier into val foot
  for into :: "'r \<Rightarrow> store \<Rightarrow> 'r \<times> store" and val :: "store \<Rightarrow> 'r \<Rightarrow> 'v option" and foot +
  fixes copy :: "'h option \<Rightarrow> store \<Rightarrow> 'h option \<times> store"
    and at :: "'h \<Rightarrow> address"
    and ok :: "'h \<Rightarrow> block \<Rightarrow> bool"
    and content :: "'h \<Rightarrow> block \<Rightarrow> 'r"
    and result :: "'h \<Rightarrow> block \<Rightarrow> 'v \<Rightarrow> 'w"
    and blank :: "'h \<Rightarrow> block"
  assumes copy_nil: "copy None st = (None, st)"
    and copy_block: "ok h (st ! at h) \<Longrightarrow> into (content h (st ! at h)) (st @ [blank h]) = (y, st') \<Longrightarrow>
      \<exists>h' b. copy (Some h) st = (Some h', st'[length st := b]) \<and> at h' = length st \<and> ok h' b \<and> content h' b = y \<and>
        (\<forall>v. result h' b v = result h (st ! at h) v)"

sublocale block_copier \<subseteq> ref: deep_copier copy "block_val at ok content result val" "block_foot at content foot"
proof
  fix st :: store and p :: "'h option" and v :: "'w option"
  assume "block_val at ok content result val st p = Some v"
  then have cases: "p = None \<and> v = None \<or> (\<exists>h w. p = Some h \<and> v = Some (result h (st ! at h) w) \<and> at h < length st \<and>
      ok h (st ! at h) \<and> val st (content h (st ! at h)) = Some w)"
    by (auto simp: block_val_def split: option.splits if_splits)
  show "block_foot at content foot st p \<subseteq> {..<length st}"
    using cases target.bound by (fastforce simp: block_foot_def)
  show "block_val at ok content result val st' p = Some v \<and> block_foot at content foot st' p = block_foot at content foot st p"
    if *: "\<forall>a \<in> block_foot at content foot st p. st' ! a = st ! a" "length st \<le> length st'" for st'
    using cases
  proof (elim disjE exE conjE)
    fix h w assume h: "p = Some h" "v = Some (result h (st ! at h) w)" "at h < length st" "ok h (st ! at h)"
      "val st (content h (st ! at h)) = Some w"
    have "st' ! at h = st ! at h" using *(1) h(1) by (simp add: block_foot_def)
    moreover have "val st' (content h (st ! at h)) = Some w \<and> foot st' (content h (st ! at h)) = foot st (content h (st ! at h))"
      using target.local [OF h(5) _ *(2)] *(1) h(1) by (simp add: block_foot_def)
    ultimately show ?thesis using h *(2) by (simp add: block_val_def block_foot_def)
  qed (simp add: block_val_def block_foot_def)
  show "\<exists>bs. snd (copy p st) = st @ bs \<and>
      block_val at ok content result val (snd (copy p st)) (fst (copy p st)) = Some v \<and>
      block_foot at content foot (snd (copy p st)) (fst (copy p st)) \<inter> {..<length st} = {}"
    using cases
  proof (elim disjE exE conjE)
    fix h w assume h: "p = Some h" "v = Some (result h (st ! at h) w)" "at h < length st" "ok h (st ! at h)"
      "val st (content h (st ! at h)) = Some w"
    obtain y st2 where y: "into (content h (st ! at h)) (st @ [blank h]) = (y, st2)" by fastforce
    from copy_block [of h st, OF h(4) y] obtain h' b where c: "copy (Some h) st = (Some h', st2[length st := b])"
      "at h' = length st" "ok h' b" "content h' b = y" "\<forall>v. result h' b v = result h (st ! at h) v" by blast
    obtain bs where bs: "st2[length st := b] = st @ b # bs" "val (st @ b # bs) y = Some w"
      "foot (st @ b # bs) y \<subseteq> {length st<..<length (st @ b # bs)}"
      using target.filled [OF h(5) y] .
    have "foot (st @ b # bs) y \<inter> {..<length st} = {}" using bs(3) by force
    then show ?thesis using h(1,2) c bs(1,2) by (simp add: block_val_def block_foot_def)
  qed (simp add: copy_nil block_val_def block_foot_def)
qed

text \<open>Pointers.\<close>

definition typed :: "('r \<Rightarrow> block) \<Rightarrow> (block \<Rightarrow> 'r) \<Rightarrow> block \<Rightarrow> bool" where
  "typed wrap unwrap b \<longleftrightarrow> wrap (unwrap b) = b"

locale pointer_copier = deep_copier into val foot
  for into :: "'r \<Rightarrow> store \<Rightarrow> 'r \<times> store" and val :: "store \<Rightarrow> 'r \<Rightarrow> 'v option" and foot +
  fixes wrap :: "'r \<Rightarrow> block" and unwrap :: "block \<Rightarrow> 'r" and zero :: 'r
  assumes unwrap_wrap: "unwrap (wrap x) = x"

sublocale pointer_copier \<subseteq> block_copier into val foot "pointer_copy wrap unwrap zero into"
  "\<lambda>a. a" "\<lambda>a. typed wrap unwrap" "\<lambda>a. unwrap" "\<lambda>a b v. v" "\<lambda>a. wrap zero"
  by unfold_locales (auto simp: pointer_copy_def typed_def unwrap_wrap Let_def intro!: exI [of _ "wrap _"])

text \<open>The elements of a slice, and slices.\<close>

definition list_val :: "(store \<Rightarrow> 'r \<Rightarrow> 'v option) \<Rightarrow> store \<Rightarrow> 'r list \<Rightarrow> 'v list option" where
  "list_val val st xs = those (map (val st) xs)"

definition list_foot :: "(store \<Rightarrow> 'r \<Rightarrow> address set) \<Rightarrow> store \<Rightarrow> 'r list \<Rightarrow> address set" where
  "list_foot foot st xs = \<Union> (foot st ` set xs)"

lemma length_copy_all [simp]: "length (fst (copy_all into xs st)) = length xs"
  by (induction xs arbitrary: st) (simp_all split: prod.splits, metis fst_conv)

lemma list_val_Cons:
  "list_val val st (x # xs) = Some vs \<longleftrightarrow> (\<exists>w ws. vs = w # ws \<and> val st x = Some w \<and> list_val val st xs = Some ws)"
  by (auto simp: list_val_def split: option.splits)

lemma list_val_Nil [simp]: "list_val val st [] = Some []"
  by (simp add: list_val_def)

lemma list_foot_simps [simp]:
  "list_foot foot st [] = {}" "list_foot foot st (x # xs) = foot st x \<union> list_foot foot st xs"
  by (simp_all add: list_foot_def)

locale list_copier = deep_copier into val foot
  for into :: "'r \<Rightarrow> store \<Rightarrow> 'r \<times> store" and val :: "store \<Rightarrow> 'r \<Rightarrow> 'v option" and foot
begin

lemma list_bound: "list_val val st xs = Some vs \<Longrightarrow> list_foot foot st xs \<subseteq> {..<length st}"
  by (induction xs arbitrary: vs) (auto simp: list_val_Cons dest: bound [THEN subsetD])

lemma list_local:
  assumes "list_val val st xs = Some vs" "\<forall>a \<in> list_foot foot st xs. st' ! a = st ! a" "length st \<le> length st'"
  shows "list_val val st' xs = Some vs \<and> list_foot foot st' xs = list_foot foot st xs"
  using assms(1,2)
proof (induction xs arbitrary: vs)
  case (Cons x xs)
  then obtain w ws where w: "vs = w # ws" "val st x = Some w" "list_val val st xs = Some ws"
    by (auto simp: list_val_Cons)
  have "val st' x = Some w \<and> foot st' x = foot st x"
    by (rule local [OF w(2) _ assms(3)]) (use Cons.prems(2) in simp)
  moreover have "list_val val st' xs = Some ws \<and> list_foot foot st' xs = list_foot foot st xs"
    by (rule Cons.IH [OF w(3)]) (use Cons.prems(2) in simp)
  ultimately show ?case using w(1) by (simp add: list_val_Cons)
qed simp

lemma list_copies:
  assumes "list_val val st xs = Some vs"
  shows "\<exists>bs. snd (copy_all into xs st) = st @ bs \<and>
    list_val val (snd (copy_all into xs st)) (fst (copy_all into xs st)) = Some vs \<and>
    list_foot foot (snd (copy_all into xs st)) (fst (copy_all into xs st)) \<inter> {..<length st} = {}"
  using assms
proof (induction xs arbitrary: st vs)
  case (Cons x xs)
  then obtain w ws where w: "vs = w # ws" "val st x = Some w" "list_val val st xs = Some ws"
    by (auto simp: list_val_Cons)
  obtain y st1 where y: "into x st = (y, st1)" by fastforce
  obtain as where as: "st1 = st @ as" "val st1 y = Some w" "foot st1 y \<subseteq> {length st..<length st1}"
    using copied [OF w(2) y] .
  obtain ys st2 where ys: "copy_all into xs st1 = (ys, st2)" by fastforce
  have "list_val val st1 xs = Some ws"
    using list_local [OF w(3), of st1] list_bound [OF w(3)] as(1) by (auto simp: nth_append subset_iff)
  from Cons.IH [OF this] ys obtain bs where bs: "st2 = st1 @ bs" "list_val val st2 ys = Some ws"
    "list_foot foot st2 ys \<inter> {..<length st1} = {}" by auto
  have y2: "val st2 y = Some w" "foot st2 y = foot st1 y" unfolding bs(1) by (rule frame [OF as(2)])+
  have "foot st1 y \<inter> {..<length st} = {}" using as(3) by force
  moreover have "list_foot foot st2 ys \<inter> {..<length st} = {}" using bs(3) as(1) by force
  ultimately show ?case using y ys as(1) bs(1,2) y2 w(1) by (simp add: list_val_Cons Int_Un_distrib2)
qed simp

end

sublocale list_copier \<subseteq> elems: deep_copier "copy_all into" "list_val val" "list_foot foot"
  by unfold_locales (fact list_bound, fact list_local, fact list_copies)

definition in_slice :: "('r list \<Rightarrow> block) \<Rightarrow> (block \<Rightarrow> 'r list) \<Rightarrow> address \<times> nat \<times> nat \<Rightarrow> block \<Rightarrow> bool" where
  "in_slice wrap unwrap h b \<longleftrightarrow> typed wrap unwrap b \<and> fst (snd h) + snd (snd h) \<le> length (unwrap b)"

definition slice_elems :: "(block \<Rightarrow> 'r list) \<Rightarrow> address \<times> nat \<times> nat \<Rightarrow> block \<Rightarrow> 'r list" where
  "slice_elems unwrap h b = take (snd (snd h)) (drop (fst (snd h)) (unwrap b))"

locale slice_copier = list_copier into val foot
  for into :: "'r \<Rightarrow> store \<Rightarrow> 'r \<times> store" and val :: "store \<Rightarrow> 'r \<Rightarrow> 'v option" and foot +
  fixes wrap :: "'r list \<Rightarrow> block" and unwrap :: "block \<Rightarrow> 'r list" and zero :: 'r
  assumes unwrap_wrap: "unwrap (wrap xs) = xs"

sublocale slice_copier \<subseteq> block_copier "copy_all into" "list_val val" "list_foot foot"
  "slice_copy wrap unwrap zero into" fst "in_slice wrap unwrap" "slice_elems unwrap" "\<lambda>h b v. v"
  "\<lambda>h. wrap (replicate (snd (snd h)) zero)"
proof
  show "slice_copy wrap unwrap zero into None st = (None, st)" for st by (simp add: slice_copy_def)
  fix h :: "address \<times> nat \<times> nat" and st y st'
  assume ok: "in_slice wrap unwrap h (st ! fst h)"
    and run: "copy_all into (slice_elems unwrap h (st ! fst h)) (st @ [wrap (replicate (snd (snd h)) zero)]) = (y, st')"
  obtain a off n where h: "h = (a, off, n)" by (cases h) auto
  have len: "length y = n"
    using length_copy_all [of into "slice_elems unwrap h (st ! fst h)"] run ok h
    by (auto simp: slice_elems_def in_slice_def dest!: arg_cong [of _ _ "\<lambda>p. length (fst p)"])
  show "\<exists>h' b. slice_copy wrap unwrap zero into (Some h) st = (Some h', st'[length st := b]) \<and> fst h' = length st \<and>
      in_slice wrap unwrap h' b \<and> slice_elems unwrap h' b = y \<and> (\<forall>v. v = v)"
    by (rule exI [of _ "(length st, 0, n)"], rule exI [of _ "wrap y"])
      (use run h len in \<open>simp add: Let_def slice_copy_def slice_elems_def in_slice_def typed_def unwrap_wrap\<close>)
qed

text \<open>Maps.\<close>

lemma copy_entries_distinct:
  assumes "distinct (map fst es)" "fst ` set es \<inter> fst ` set m = {}"
  shows "copy_entries into es m st =
    (let (ys, st') = copy_all into (map snd es) st in (m @ zip (map fst es) ys, st'))"
  using assms
proof (induction es arbitrary: m st)
  case (Cons e es)
  obtain k x where e: "e = (k, x)" by fastforce
  obtain y st1 where y: "into x st = (y, st1)" by fastforce
  have "map_put k y m = m @ [(k, y)]" using Cons.prems(2) e by (simp add: map_put_def)
  moreover have "fst ` set es \<inter> fst ` set (m @ [(k, y)]) = {}"
    using Cons.prems e by auto
  ultimately show ?case using Cons.IH [of "m @ [(k, y)]" st1] Cons.prems(1) e y
    by (simp split: prod.splits)
qed (simp)

definition map_ok :: "((string \<times> 'r) list \<Rightarrow> block) \<Rightarrow> (block \<Rightarrow> (string \<times> 'r) list) \<Rightarrow> address \<Rightarrow> block \<Rightarrow> bool" where
  "map_ok wrap unwrap a b \<longleftrightarrow> typed wrap unwrap b \<and> distinct (map fst (unwrap b))"

definition map_result :: "(block \<Rightarrow> (string \<times> 'r) list) \<Rightarrow> address \<Rightarrow> block \<Rightarrow> 'v list \<Rightarrow> string \<rightharpoonup> 'v" where
  "map_result unwrap a b vs = map_of (zip (map fst (unwrap b)) vs)"

locale map_copier = list_copier into val foot
  for into :: "'r \<Rightarrow> store \<Rightarrow> 'r \<times> store" and val :: "store \<Rightarrow> 'r \<Rightarrow> 'v option" and foot +
  fixes wrap :: "(string \<times> 'r) list \<Rightarrow> block" and unwrap :: "block \<Rightarrow> (string \<times> 'r) list"
  assumes unwrap_wrap: "unwrap (wrap m) = m"

sublocale map_copier \<subseteq> block_copier "copy_all into" "list_val val" "list_foot foot"
  "map_copy wrap unwrap into" "\<lambda>a. a" "map_ok wrap unwrap" "\<lambda>a b. map snd (unwrap b)" "map_result unwrap" "\<lambda>a. wrap []"
proof
  show "map_copy wrap unwrap into None st = (None, st)" for st by (simp add: map_copy_def)
  fix a :: address and st ys st'
  assume ok: "map_ok wrap unwrap a (st ! a)"
    and run: "copy_all into (map snd (unwrap (st ! a))) (st @ [wrap []]) = (ys, st')"
  let ?ks = "map fst (unwrap (st ! a))"
  have len: "length ys = length (unwrap (st ! a))"
    using length_copy_all [of into "map snd (unwrap (st ! a))" "st @ [wrap []]"] run by simp
  show "\<exists>h' b. map_copy wrap unwrap into (Some a) st = (Some h', st'[length st := b]) \<and> h' = length st \<and>
      map_ok wrap unwrap h' b \<and> map snd (unwrap b) = ys \<and> (\<forall>v. map_result unwrap h' b v = map_result unwrap a (st ! a) v)"
    by (rule exI [of _ "length st"], rule exI [of _ "wrap (zip ?ks ys)"])
      (use run ok len copy_entries_distinct [of "unwrap (st ! a)" "[]" into "st @ [wrap []]"] in
        \<open>simp add: Let_def map_copy_def map_ok_def map_result_def typed_def unwrap_wrap\<close>)
qed

section \<open>Shared building blocks\<close>

abbreviation time_ptr :: "pointer \<Rightarrow> store \<Rightarrow> pointer \<times> store" where
  "time_ptr \<equiv> pointer_copy BTime un_BTime 0 flat_copy"
abbreviation int_ptr :: "pointer \<Rightarrow> store \<Rightarrow> pointer \<times> store" where
  "int_ptr \<equiv> pointer_copy BInt un_BInt 0 flat_copy"
abbreviation bool_ptr :: "pointer \<Rightarrow> store \<Rightarrow> pointer \<times> store" where
  "bool_ptr \<equiv> pointer_copy BBool un_BBool False flat_copy"
abbreviation strings :: "slice \<Rightarrow> store \<Rightarrow> slice \<times> store" where
  "strings \<equiv> slice_copy BStrings un_BStrings [] flat_copy"
abbreviation string_map :: "pointer \<Rightarrow> store \<Rightarrow> pointer \<times> store" where
  "string_map \<equiv> map_copy BStringMap un_BStringMap flat_copy"

interpretation time_ptr: pointer_copier flat_copy flat_val flat_foot BTime un_BTime 0
  by unfold_locales simp
interpretation int_ptr: pointer_copier flat_copy flat_val flat_foot BInt un_BInt 0
  by unfold_locales simp
interpretation bool_ptr: pointer_copier flat_copy flat_val flat_foot BBool un_BBool False
  by unfold_locales simp
interpretation strings: slice_copier flat_copy flat_val flat_foot BStrings un_BStrings "[]"
  by unfold_locales simp
interpretation bytes: slice_copier flat_copy flat_val flat_foot BBytes un_BBytes "CHR 0x00"
  by unfold_locales simp
interpretation string_map: map_copier flat_copy flat_val flat_foot BStringMap un_BStringMap
  by unfold_locales simp

abbreviation pointer_val where "pointer_val wrap unwrap val \<equiv> block_val (\<lambda>a. a) (\<lambda>a. typed wrap unwrap) (\<lambda>a. unwrap) (\<lambda>a b v. v) val"
abbreviation pointer_foot where "pointer_foot unwrap foot \<equiv> block_foot (\<lambda>a. a) (\<lambda>a. unwrap) foot"
abbreviation slice_val where "slice_val wrap unwrap val \<equiv>
  block_val fst (in_slice wrap unwrap) (slice_elems unwrap) (\<lambda>h b v. v) (list_val val)"
abbreviation slice_foot where "slice_foot unwrap foot \<equiv> block_foot fst (slice_elems unwrap) (list_foot foot)"
abbreviation map_val where "map_val wrap unwrap val \<equiv>
  block_val (\<lambda>a. a) (map_ok wrap unwrap) (\<lambda>a b. map snd (unwrap b)) (map_result unwrap) (list_val val)"
abbreviation map_foot where "map_foot unwrap foot \<equiv> block_foot (\<lambda>a. a) (\<lambda>a b. map snd (unwrap b)) (list_foot foot)"

abbreviation time_val where "time_val \<equiv> pointer_val BTime un_BTime flat_val"
abbreviation time_foot where "time_foot \<equiv> pointer_foot un_BTime flat_foot"
abbreviation int_val where "int_val \<equiv> pointer_val BInt un_BInt flat_val"
abbreviation int_foot where "int_foot \<equiv> pointer_foot un_BInt flat_foot"
abbreviation bool_val where "bool_val \<equiv> pointer_val BBool un_BBool flat_val"
abbreviation bool_foot where "bool_foot \<equiv> pointer_foot un_BBool flat_foot"
abbreviation strings_val where "strings_val \<equiv> slice_val BStrings un_BStrings flat_val"
abbreviation strings_foot where "strings_foot \<equiv> slice_foot un_BStrings flat_foot"
abbreviation string_map_val where "string_map_val \<equiv> map_val BStringMap un_BStringMap flat_val"
abbreviation string_map_foot where "string_map_foot \<equiv> map_foot un_BStringMap flat_foot"

section \<open>Object metadata\<close>

definition Owner_DeepCopyInto :: "raw_owner \<Rightarrow> store \<Rightarrow> raw_owner \<times> store" where
  "Owner_DeepCopyInto r st =
     (let out = r;
          (c, st) = bool_ptr (row_Controller r) st; out = out\<lparr>row_Controller := c\<rparr>;
          (b, st) = bool_ptr (row_BlockOwnerDeletion r) st; out = out\<lparr>row_BlockOwnerDeletion := b\<rparr> in
      (out, st))"

definition owner_refs where "owner_refs = (\<lambda>r. (row_Controller r, row_BlockOwnerDeletion r))"
definition owner_erase where "owner_erase = (\<lambda>r. r\<lparr>row_Controller := None, row_BlockOwnerDeletion := None\<rparr>)"
definition owner_val where "owner_val = struct_val owner_refs owner_erase (pair_val bool_val bool_val)"
definition owner_foot where "owner_foot = struct_foot owner_refs (pair_foot bool_foot bool_foot)"

interpretation owner_pair1: pair_copier bool_ptr bool_val bool_foot
  bool_ptr bool_val bool_foot ..
interpretation owner: struct_copier "pair_copy bool_ptr bool_ptr" "pair_val bool_val bool_val" "pair_foot bool_foot bool_foot"
  owner_refs "\<lambda>(c, b) r. r\<lparr>row_Controller := c, row_BlockOwnerDeletion := b\<rparr>" owner_erase Owner_DeepCopyInto
  rewrites "struct_val owner_refs owner_erase (pair_val bool_val bool_val) = owner_val"
    and "struct_foot owner_refs (pair_foot bool_foot bool_foot) = owner_foot"
  by unfold_locales (auto simp: Owner_DeepCopyInto_def pair_copy_def Let_def owner_refs_def owner_erase_def owner_val_def owner_foot_def split: prod.splits)

definition zero_owner :: raw_owner where
  "zero_owner = \<lparr>row_APIVersion = [], row_Kind = [], row_Name = [], row_UID = [], row_Controller = None, row_BlockOwnerDeletion = None\<rparr>"

abbreviation owner_slice where "owner_slice \<equiv> slice_copy BOwners un_BOwners zero_owner Owner_DeepCopyInto"
abbreviation owner_slice_val where "owner_slice_val \<equiv> slice_val BOwners un_BOwners owner_val"
abbreviation owner_slice_foot where "owner_slice_foot \<equiv> slice_foot un_BOwners owner_foot"
interpretation owner_slice: slice_copier Owner_DeepCopyInto owner_val owner_foot BOwners un_BOwners zero_owner by unfold_locales simp

text \<open>\<open>FieldsV1\<close> has one field, a slice of bytes.\<close>

definition FieldsV1_DeepCopyInto :: "slice \<Rightarrow> store \<Rightarrow> slice \<times> store" where
  "FieldsV1_DeepCopyInto = slice_copy BBytes un_BBytes (CHR 0x00) flat_copy"

abbreviation fields_val where "fields_val \<equiv> slice_val BBytes un_BBytes flat_val"
abbreviation fields_foot where "fields_foot \<equiv> slice_foot un_BBytes flat_foot"
abbreviation fields_ptr where "fields_ptr \<equiv> pointer_copy BFieldsV1 un_BFieldsV1 None FieldsV1_DeepCopyInto"
abbreviation fields_ptr_val where "fields_ptr_val \<equiv> pointer_val BFieldsV1 un_BFieldsV1 fields_val"
abbreviation fields_ptr_foot where "fields_ptr_foot \<equiv> pointer_foot un_BFieldsV1 fields_foot"
interpretation fields: deep_copier FieldsV1_DeepCopyInto fields_val fields_foot
  unfolding FieldsV1_DeepCopyInto_def ..
interpretation fields_ptr: pointer_copier FieldsV1_DeepCopyInto fields_val fields_foot BFieldsV1 un_BFieldsV1 None
  by unfold_locales simp

definition ManagedFieldsEntry_DeepCopyInto :: "raw_managed \<Rightarrow> store \<Rightarrow> raw_managed \<times> store" where
  "ManagedFieldsEntry_DeepCopyInto r st =
     (let out = r;
          (t, st) = time_ptr (rmf_Time r) st; out = out\<lparr>rmf_Time := t\<rparr>;
          (f, st) = fields_ptr (rmf_FieldsV1 r) st; out = out\<lparr>rmf_FieldsV1 := f\<rparr> in
      (out, st))"

definition managed_refs where "managed_refs = (\<lambda>r. (rmf_Time r, rmf_FieldsV1 r))"
definition managed_erase where "managed_erase = (\<lambda>r. r\<lparr>rmf_Time := None, rmf_FieldsV1 := None\<rparr>)"
definition managed_val where "managed_val = struct_val managed_refs managed_erase (pair_val time_val fields_ptr_val)"
definition managed_foot where "managed_foot = struct_foot managed_refs (pair_foot time_foot fields_ptr_foot)"

interpretation managed_pair1: pair_copier time_ptr time_val time_foot
  fields_ptr fields_ptr_val fields_ptr_foot ..
interpretation managed: struct_copier "pair_copy time_ptr fields_ptr" "pair_val time_val fields_ptr_val" "pair_foot time_foot fields_ptr_foot"
  managed_refs "\<lambda>(t, f) r. r\<lparr>rmf_Time := t, rmf_FieldsV1 := f\<rparr>" managed_erase ManagedFieldsEntry_DeepCopyInto
  rewrites "struct_val managed_refs managed_erase (pair_val time_val fields_ptr_val) = managed_val"
    and "struct_foot managed_refs (pair_foot time_foot fields_ptr_foot) = managed_foot"
  by unfold_locales (auto simp: ManagedFieldsEntry_DeepCopyInto_def pair_copy_def Let_def managed_refs_def managed_erase_def managed_val_def managed_foot_def split: prod.splits)

definition zero_managed :: raw_managed where
  "zero_managed = \<lparr>rmf_Manager = [], rmf_Operation = [], rmf_APIVersion = [], rmf_Time = None, rmf_FieldsType = [], rmf_FieldsV1 = None, rmf_Subresource = []\<rparr>"

abbreviation managed_slice where "managed_slice \<equiv> slice_copy BManaged un_BManaged zero_managed ManagedFieldsEntry_DeepCopyInto"
abbreviation managed_slice_val where "managed_slice_val \<equiv> slice_val BManaged un_BManaged managed_val"
abbreviation managed_slice_foot where "managed_slice_foot \<equiv> slice_foot un_BManaged managed_foot"
interpretation managed_slice: slice_copier ManagedFieldsEntry_DeepCopyInto managed_val managed_foot BManaged un_BManaged zero_managed by unfold_locales simp

definition ObjectMeta_DeepCopyInto :: "raw_meta \<Rightarrow> store \<Rightarrow> raw_meta \<times> store" where
  "ObjectMeta_DeepCopyInto r st =
     (let out = r;
          (dt, st) = time_ptr (rm_DeletionTimestamp r) st; out = out\<lparr>rm_DeletionTimestamp := dt\<rparr>;
          (gp, st) = int_ptr (rm_DeletionGracePeriodSeconds r) st; out = out\<lparr>rm_DeletionGracePeriodSeconds := gp\<rparr>;
          (ls, st) = string_map (rm_Labels r) st; out = out\<lparr>rm_Labels := ls\<rparr>;
          (an, st) = string_map (rm_Annotations r) st; out = out\<lparr>rm_Annotations := an\<rparr>;
          (ows, st) = owner_slice (rm_OwnerReferences r) st; out = out\<lparr>rm_OwnerReferences := ows\<rparr>;
          (fs, st) = strings (rm_Finalizers r) st; out = out\<lparr>rm_Finalizers := fs\<rparr>;
          (mf, st) = managed_slice (rm_ManagedFields r) st; out = out\<lparr>rm_ManagedFields := mf\<rparr> in
      (out, st))"

definition meta_refs where "meta_refs = (\<lambda>r. (rm_DeletionTimestamp r, (rm_DeletionGracePeriodSeconds r, (rm_Labels r, (rm_Annotations r, (rm_OwnerReferences r, (rm_Finalizers r, rm_ManagedFields r)))))))"
definition meta_erase where "meta_erase = (\<lambda>r. r\<lparr>rm_DeletionTimestamp := None, rm_DeletionGracePeriodSeconds := None, rm_Labels := None, rm_Annotations := None, rm_OwnerReferences := None, rm_Finalizers := None, rm_ManagedFields := None\<rparr>)"
definition meta_val where "meta_val = struct_val meta_refs meta_erase (pair_val time_val (pair_val int_val (pair_val string_map_val (pair_val string_map_val (pair_val owner_slice_val (pair_val strings_val managed_slice_val))))))"
definition meta_foot where "meta_foot = struct_foot meta_refs (pair_foot time_foot (pair_foot int_foot (pair_foot string_map_foot (pair_foot string_map_foot (pair_foot owner_slice_foot (pair_foot strings_foot managed_slice_foot))))))"

interpretation meta_pair6: pair_copier strings strings_val strings_foot
  managed_slice managed_slice_val managed_slice_foot ..
interpretation meta_pair5: pair_copier owner_slice owner_slice_val owner_slice_foot
  "pair_copy strings managed_slice" "pair_val strings_val managed_slice_val" "pair_foot strings_foot managed_slice_foot" ..
interpretation meta_pair4: pair_copier string_map string_map_val string_map_foot
  "pair_copy owner_slice (pair_copy strings managed_slice)" "pair_val owner_slice_val (pair_val strings_val managed_slice_val)" "pair_foot owner_slice_foot (pair_foot strings_foot managed_slice_foot)" ..
interpretation meta_pair3: pair_copier string_map string_map_val string_map_foot
  "pair_copy string_map (pair_copy owner_slice (pair_copy strings managed_slice))" "pair_val string_map_val (pair_val owner_slice_val (pair_val strings_val managed_slice_val))" "pair_foot string_map_foot (pair_foot owner_slice_foot (pair_foot strings_foot managed_slice_foot))" ..
interpretation meta_pair2: pair_copier int_ptr int_val int_foot
  "pair_copy string_map (pair_copy string_map (pair_copy owner_slice (pair_copy strings managed_slice)))" "pair_val string_map_val (pair_val string_map_val (pair_val owner_slice_val (pair_val strings_val managed_slice_val)))" "pair_foot string_map_foot (pair_foot string_map_foot (pair_foot owner_slice_foot (pair_foot strings_foot managed_slice_foot)))" ..
interpretation meta_pair1: pair_copier time_ptr time_val time_foot
  "pair_copy int_ptr (pair_copy string_map (pair_copy string_map (pair_copy owner_slice (pair_copy strings managed_slice))))" "pair_val int_val (pair_val string_map_val (pair_val string_map_val (pair_val owner_slice_val (pair_val strings_val managed_slice_val))))" "pair_foot int_foot (pair_foot string_map_foot (pair_foot string_map_foot (pair_foot owner_slice_foot (pair_foot strings_foot managed_slice_foot))))" ..
interpretation meta: struct_copier "pair_copy time_ptr (pair_copy int_ptr (pair_copy string_map (pair_copy string_map (pair_copy owner_slice (pair_copy strings managed_slice)))))" "pair_val time_val (pair_val int_val (pair_val string_map_val (pair_val string_map_val (pair_val owner_slice_val (pair_val strings_val managed_slice_val)))))" "pair_foot time_foot (pair_foot int_foot (pair_foot string_map_foot (pair_foot string_map_foot (pair_foot owner_slice_foot (pair_foot strings_foot managed_slice_foot)))))"
  meta_refs "\<lambda>(dt, (gp, (ls, (an, (ows, (fs, mf)))))) r. r\<lparr>rm_DeletionTimestamp := dt, rm_DeletionGracePeriodSeconds := gp, rm_Labels := ls, rm_Annotations := an, rm_OwnerReferences := ows, rm_Finalizers := fs, rm_ManagedFields := mf\<rparr>" meta_erase ObjectMeta_DeepCopyInto
  rewrites "struct_val meta_refs meta_erase (pair_val time_val (pair_val int_val (pair_val string_map_val (pair_val string_map_val (pair_val owner_slice_val (pair_val strings_val managed_slice_val)))))) = meta_val"
    and "struct_foot meta_refs (pair_foot time_foot (pair_foot int_foot (pair_foot string_map_foot (pair_foot string_map_foot (pair_foot owner_slice_foot (pair_foot strings_foot managed_slice_foot)))))) = meta_foot"
  by unfold_locales (auto simp: ObjectMeta_DeepCopyInto_def pair_copy_def Let_def meta_refs_def meta_erase_def meta_val_def meta_foot_def split: prod.splits)

definition zero_meta :: raw_meta where
  "zero_meta = \<lparr>rm_Name = [], rm_GenerateName = [], rm_Namespace = [], rm_SelfLink = [], rm_UID = [], rm_ResourceVersion = [], rm_Generation = 0, rm_CreationTimestamp = 0, rm_DeletionTimestamp = None, rm_DeletionGracePeriodSeconds = None, rm_Labels = None, rm_Annotations = None, rm_OwnerReferences = None, rm_Finalizers = None, rm_ManagedFields = None\<rparr>"

definition ListMeta_DeepCopyInto :: "raw_list_meta \<Rightarrow> store \<Rightarrow> raw_list_meta \<times> store" where
  "ListMeta_DeepCopyInto r st =
     (let out = r;
          (n, st) = int_ptr (rlm_RemainingItemCount r) st; out = out\<lparr>rlm_RemainingItemCount := n\<rparr> in
      (out, st))"

definition list_meta_refs where "list_meta_refs = (\<lambda>r. rlm_RemainingItemCount r)"
definition list_meta_erase where "list_meta_erase = (\<lambda>r. r\<lparr>rlm_RemainingItemCount := None\<rparr>)"
definition list_meta_val where "list_meta_val = struct_val list_meta_refs list_meta_erase (int_val)"
definition list_meta_foot where "list_meta_foot = struct_foot list_meta_refs (int_foot)"

interpretation list_meta: struct_copier "int_ptr" "int_val" "int_foot"
  list_meta_refs "\<lambda>n r. r\<lparr>rlm_RemainingItemCount := n\<rparr>" list_meta_erase ListMeta_DeepCopyInto
  rewrites "struct_val list_meta_refs list_meta_erase (int_val) = list_meta_val"
    and "struct_foot list_meta_refs (int_foot) = list_meta_foot"
  by unfold_locales (auto simp: ListMeta_DeepCopyInto_def pair_copy_def Let_def list_meta_refs_def list_meta_erase_def list_meta_val_def list_meta_foot_def split: prod.splits)

definition zero_list_meta :: raw_list_meta where
  "zero_list_meta = \<lparr>rlm_SelfLink = [], rlm_ResourceVersion = [], rlm_Continue = [], rlm_RemainingItemCount = None\<rparr>"

section \<open>Conditions\<close>

definition Condition_DeepCopyInto :: "raw_condition \<Rightarrow> store \<Rightarrow> raw_condition \<times> store" where
  "Condition_DeepCopyInto r st =
     (let out = r;
          (xs, st) = strings (rcn_Items r) st; out = out\<lparr>rcn_Items := xs\<rparr> in
      (out, st))"

definition condition_refs where "condition_refs = (\<lambda>r. rcn_Items r)"
definition condition_erase where "condition_erase = (\<lambda>r. r\<lparr>rcn_Items := None\<rparr>)"
definition condition_val where "condition_val = struct_val condition_refs condition_erase (strings_val)"
definition condition_foot where "condition_foot = struct_foot condition_refs (strings_foot)"

interpretation condition: struct_copier "strings" "strings_val" "strings_foot"
  condition_refs "\<lambda>xs r. r\<lparr>rcn_Items := xs\<rparr>" condition_erase Condition_DeepCopyInto
  rewrites "struct_val condition_refs condition_erase (strings_val) = condition_val"
    and "struct_foot condition_refs (strings_foot) = condition_foot"
  by unfold_locales (auto simp: Condition_DeepCopyInto_def pair_copy_def Let_def condition_refs_def condition_erase_def condition_val_def condition_foot_def split: prod.splits)

definition zero_condition :: raw_condition where
  "zero_condition = \<lparr>rcn_Type = [], rcn_Status = [], rcn_Reason = [], rcn_Category = [], rcn_Message = [], rcn_LastTransitionTime = 0, rcn_Durable = False, rcn_Items = None, rcn_staged = False\<rparr>"

abbreviation condition_slice where "condition_slice \<equiv> slice_copy BConditions un_BConditions zero_condition Condition_DeepCopyInto"
abbreviation condition_slice_val where "condition_slice_val \<equiv> slice_val BConditions un_BConditions condition_val"
abbreviation condition_slice_foot where "condition_slice_foot \<equiv> slice_foot un_BConditions condition_foot"
interpretation condition_slice: slice_copier Condition_DeepCopyInto condition_val condition_foot BConditions un_BConditions zero_condition by unfold_locales simp

abbreviation condition_map where "condition_map \<equiv> map_copy BConditionMap un_BConditionMap Condition_DeepCopyInto"
abbreviation condition_map_val where "condition_map_val \<equiv> map_val BConditionMap un_BConditionMap condition_val"
abbreviation condition_map_foot where "condition_map_foot \<equiv> map_foot un_BConditionMap condition_foot"
interpretation condition_map: map_copier Condition_DeepCopyInto condition_val condition_foot BConditionMap un_BConditionMap
  by unfold_locales simp

definition Explain_DeepCopyInto :: "raw_explain \<Rightarrow> store \<Rightarrow> raw_explain \<times> store" where
  "Explain_DeepCopyInto r st =
     (let out = r;
          (a, st) = condition_map (rex_Added r) st; out = out\<lparr>rex_Added := a\<rparr>;
          (u, st) = condition_map (rex_Updated r) st; out = out\<lparr>rex_Updated := u\<rparr>;
          (d, st) = condition_map (rex_Deleted r) st; out = out\<lparr>rex_Deleted := d\<rparr> in
      (out, st))"

definition explain_refs where "explain_refs = (\<lambda>r. (rex_Added r, (rex_Updated r, rex_Deleted r)))"
definition explain_erase where "explain_erase = (\<lambda>r. r\<lparr>rex_Added := None, rex_Updated := None, rex_Deleted := None\<rparr>)"
definition explain_val where "explain_val = struct_val explain_refs explain_erase (pair_val condition_map_val (pair_val condition_map_val condition_map_val))"
definition explain_foot where "explain_foot = struct_foot explain_refs (pair_foot condition_map_foot (pair_foot condition_map_foot condition_map_foot))"

interpretation explain_pair2: pair_copier condition_map condition_map_val condition_map_foot
  condition_map condition_map_val condition_map_foot ..
interpretation explain_pair1: pair_copier condition_map condition_map_val condition_map_foot
  "pair_copy condition_map condition_map" "pair_val condition_map_val condition_map_val" "pair_foot condition_map_foot condition_map_foot" ..
interpretation explain: struct_copier "pair_copy condition_map (pair_copy condition_map condition_map)" "pair_val condition_map_val (pair_val condition_map_val condition_map_val)" "pair_foot condition_map_foot (pair_foot condition_map_foot condition_map_foot)"
  explain_refs "\<lambda>(a, (u, d)) r. r\<lparr>rex_Added := a, rex_Updated := u, rex_Deleted := d\<rparr>" explain_erase Explain_DeepCopyInto
  rewrites "struct_val explain_refs explain_erase (pair_val condition_map_val (pair_val condition_map_val condition_map_val)) = explain_val"
    and "struct_foot explain_refs (pair_foot condition_map_foot (pair_foot condition_map_foot condition_map_foot)) = explain_foot"
  by unfold_locales (auto simp: Explain_DeepCopyInto_def pair_copy_def Let_def explain_refs_def explain_erase_def explain_val_def explain_foot_def split: prod.splits)

definition zero_explain :: raw_explain where
  "zero_explain = \<lparr>rex_Added = None, rex_Updated = None, rex_Deleted = None\<rparr>"

definition Conditions_DeepCopyInto :: "raw_conditions \<Rightarrow> store \<Rightarrow> raw_conditions \<times> store" where
  "Conditions_DeepCopyInto r st =
     (let out = r;
          (l, st) = condition_slice (rcs_List r) st; out = out\<lparr>rcs_List := l\<rparr>;
          (e, st) = Explain_DeepCopyInto (rcs_explain r) st; out = out\<lparr>rcs_explain := e\<rparr> in
      (out, st))"

definition conditions_refs where "conditions_refs = (\<lambda>r. (rcs_List r, rcs_explain r))"
definition conditions_erase where "conditions_erase = (\<lambda>r. r\<lparr>rcs_List := None, rcs_explain := zero_explain\<rparr>)"
definition conditions_val where "conditions_val = struct_val conditions_refs conditions_erase (pair_val condition_slice_val explain_val)"
definition conditions_foot where "conditions_foot = struct_foot conditions_refs (pair_foot condition_slice_foot explain_foot)"

interpretation conditions_pair1: pair_copier condition_slice condition_slice_val condition_slice_foot
  Explain_DeepCopyInto explain_val explain_foot ..
interpretation conditions: struct_copier "pair_copy condition_slice Explain_DeepCopyInto" "pair_val condition_slice_val explain_val" "pair_foot condition_slice_foot explain_foot"
  conditions_refs "\<lambda>(l, e) r. r\<lparr>rcs_List := l, rcs_explain := e\<rparr>" conditions_erase Conditions_DeepCopyInto
  rewrites "struct_val conditions_refs conditions_erase (pair_val condition_slice_val explain_val) = conditions_val"
    and "struct_foot conditions_refs (pair_foot condition_slice_foot explain_foot) = conditions_foot"
  by unfold_locales (auto simp: Conditions_DeepCopyInto_def pair_copy_def Let_def conditions_refs_def conditions_erase_def conditions_val_def conditions_foot_def split: prod.splits)

definition zero_conditions :: raw_conditions where
  "zero_conditions = \<lparr>rcs_List = None, rcs_staging = False, rcs_explain = zero_explain\<rparr>"

section \<open>Rule sets\<close>

definition GroupVersionResource_DeepCopyInto :: "gvr \<Rightarrow> store \<Rightarrow> gvr \<times> store" where
  "GroupVersionResource_DeepCopyInto r st = (r, st)"

definition Rule_DeepCopyInto :: "rule \<Rightarrow> store \<Rightarrow> rule \<times> store" where
  "Rule_DeepCopyInto r st = (r, st)"

definition LabelExpression_DeepCopyInto :: "label_expression \<Rightarrow> store \<Rightarrow> label_expression \<times> store" where
  "LabelExpression_DeepCopyInto r st = (r, st)"

definition zero_rule :: rule where
  "zero_rule = \<lparr>ru_Operation = [], ru_Expression = []\<rparr>"

definition zero_label_expression :: label_expression where
  "zero_label_expression = \<lparr>le_Key = [], le_Expression = []\<rparr>"

abbreviation rules_slice where "rules_slice \<equiv> slice_copy BRules un_BRules zero_rule flat_copy"
abbreviation rules_slice_val where "rules_slice_val \<equiv> slice_val BRules un_BRules flat_val"
abbreviation rules_slice_foot where "rules_slice_foot \<equiv> slice_foot un_BRules flat_foot"
interpretation rules_slice: slice_copier flat_copy flat_val flat_foot BRules un_BRules zero_rule by unfold_locales simp

abbreviation exprs_slice where "exprs_slice \<equiv> slice_copy BLabelExprs un_BLabelExprs zero_label_expression flat_copy"
abbreviation exprs_slice_val where "exprs_slice_val \<equiv> slice_val BLabelExprs un_BLabelExprs flat_val"
abbreviation exprs_slice_foot where "exprs_slice_foot \<equiv> slice_foot un_BLabelExprs flat_foot"
interpretation exprs_slice: slice_copier flat_copy flat_val flat_foot BLabelExprs un_BLabelExprs zero_label_expression by unfold_locales simp

definition OperationRuleSetSpec_DeepCopyInto :: "raw_ors_spec \<Rightarrow> store \<Rightarrow> raw_ors_spec \<times> store" where
  "OperationRuleSetSpec_DeepCopyInto r st =
     (let out = r;
          (rs, st) = rules_slice (ros_Rules r) st; out = out\<lparr>ros_Rules := rs\<rparr>;
          (ns, st) = strings (ros_Namespaces r) st; out = out\<lparr>ros_Namespaces := ns\<rparr>;
          (ls, st) = string_map (ros_Labels r) st; out = out\<lparr>ros_Labels := ls\<rparr>;
          (es, st) = exprs_slice (ros_LabelExpressions r) st; out = out\<lparr>ros_LabelExpressions := es\<rparr> in
      (out, st))"

definition ors_spec_refs where "ors_spec_refs = (\<lambda>r. (ros_Rules r, (ros_Namespaces r, (ros_Labels r, ros_LabelExpressions r))))"
definition ors_spec_erase where "ors_spec_erase = (\<lambda>r. r\<lparr>ros_Rules := None, ros_Namespaces := None, ros_Labels := None, ros_LabelExpressions := None\<rparr>)"
definition ors_spec_val where "ors_spec_val = struct_val ors_spec_refs ors_spec_erase (pair_val rules_slice_val (pair_val strings_val (pair_val string_map_val exprs_slice_val)))"
definition ors_spec_foot where "ors_spec_foot = struct_foot ors_spec_refs (pair_foot rules_slice_foot (pair_foot strings_foot (pair_foot string_map_foot exprs_slice_foot)))"

interpretation ors_spec_pair3: pair_copier string_map string_map_val string_map_foot
  exprs_slice exprs_slice_val exprs_slice_foot ..
interpretation ors_spec_pair2: pair_copier strings strings_val strings_foot
  "pair_copy string_map exprs_slice" "pair_val string_map_val exprs_slice_val" "pair_foot string_map_foot exprs_slice_foot" ..
interpretation ors_spec_pair1: pair_copier rules_slice rules_slice_val rules_slice_foot
  "pair_copy strings (pair_copy string_map exprs_slice)" "pair_val strings_val (pair_val string_map_val exprs_slice_val)" "pair_foot strings_foot (pair_foot string_map_foot exprs_slice_foot)" ..
interpretation ors_spec: struct_copier "pair_copy rules_slice (pair_copy strings (pair_copy string_map exprs_slice))" "pair_val rules_slice_val (pair_val strings_val (pair_val string_map_val exprs_slice_val))" "pair_foot rules_slice_foot (pair_foot strings_foot (pair_foot string_map_foot exprs_slice_foot))"
  ors_spec_refs "\<lambda>(rs, (ns, (ls, es))) r. r\<lparr>ros_Rules := rs, ros_Namespaces := ns, ros_Labels := ls, ros_LabelExpressions := es\<rparr>" ors_spec_erase OperationRuleSetSpec_DeepCopyInto
  rewrites "struct_val ors_spec_refs ors_spec_erase (pair_val rules_slice_val (pair_val strings_val (pair_val string_map_val exprs_slice_val))) = ors_spec_val"
    and "struct_foot ors_spec_refs (pair_foot rules_slice_foot (pair_foot strings_foot (pair_foot string_map_foot exprs_slice_foot))) = ors_spec_foot"
  by unfold_locales (auto simp: OperationRuleSetSpec_DeepCopyInto_def pair_copy_def Let_def ors_spec_refs_def ors_spec_erase_def ors_spec_val_def ors_spec_foot_def split: prod.splits)

definition zero_ors_spec :: raw_ors_spec where
  "zero_ors_spec = \<lparr>ros_Component = [], ros_Target = GVR [] [] [], ros_Rules = None, ros_Namespaces = None, ros_Labels = None, ros_LabelExpressions = None\<rparr>"

definition OperationRuleSetStatus_DeepCopyInto :: "raw_ors_status \<Rightarrow> store \<Rightarrow> raw_ors_status \<times> store" where
  "OperationRuleSetStatus_DeepCopyInto r st =
     (let out = r;
          (cs, st) = Conditions_DeepCopyInto (rst_Conditions r) st; out = out\<lparr>rst_Conditions := cs\<rparr>;
          (t, st) = time_ptr (rst_LastEvaluationTime r) st; out = out\<lparr>rst_LastEvaluationTime := t\<rparr> in
      (out, st))"

definition ors_status_refs where "ors_status_refs = (\<lambda>r. (rst_Conditions r, rst_LastEvaluationTime r))"
definition ors_status_erase where "ors_status_erase = (\<lambda>r. r\<lparr>rst_Conditions := zero_conditions, rst_LastEvaluationTime := None\<rparr>)"
definition ors_status_val where "ors_status_val = struct_val ors_status_refs ors_status_erase (pair_val conditions_val time_val)"
definition ors_status_foot where "ors_status_foot = struct_foot ors_status_refs (pair_foot conditions_foot time_foot)"

interpretation ors_status_pair1: pair_copier Conditions_DeepCopyInto conditions_val conditions_foot
  time_ptr time_val time_foot ..
interpretation ors_status: struct_copier "pair_copy Conditions_DeepCopyInto time_ptr" "pair_val conditions_val time_val" "pair_foot conditions_foot time_foot"
  ors_status_refs "\<lambda>(cs, t) r. r\<lparr>rst_Conditions := cs, rst_LastEvaluationTime := t\<rparr>" ors_status_erase OperationRuleSetStatus_DeepCopyInto
  rewrites "struct_val ors_status_refs ors_status_erase (pair_val conditions_val time_val) = ors_status_val"
    and "struct_foot ors_status_refs (pair_foot conditions_foot time_foot) = ors_status_foot"
  by unfold_locales (auto simp: OperationRuleSetStatus_DeepCopyInto_def pair_copy_def Let_def ors_status_refs_def ors_status_erase_def ors_status_val_def ors_status_foot_def split: prod.splits)

definition zero_ors_status :: raw_ors_status where
  "zero_ors_status = \<lparr>rst_Conditions = zero_conditions, rst_WatchActive = False, rst_LastEvaluationTime = None, rst_ObservedGeneration = 0\<rparr>"

definition OperationRuleSet_DeepCopyInto :: "raw_ors \<Rightarrow> store \<Rightarrow> raw_ors \<times> store" where
  "OperationRuleSet_DeepCopyInto r st =
     (let out = r;
          (m, st) = ObjectMeta_DeepCopyInto (ro_Meta r) st; out = out\<lparr>ro_Meta := m\<rparr>;
          (sp, st) = OperationRuleSetSpec_DeepCopyInto (ro_Spec r) st; out = out\<lparr>ro_Spec := sp\<rparr>;
          (ss, st) = OperationRuleSetStatus_DeepCopyInto (ro_Status r) st; out = out\<lparr>ro_Status := ss\<rparr> in
      (out, st))"

definition ruleset_refs where "ruleset_refs = (\<lambda>r. (ro_Meta r, (ro_Spec r, ro_Status r)))"
definition ruleset_erase where "ruleset_erase = (\<lambda>r. r\<lparr>ro_Meta := zero_meta, ro_Spec := zero_ors_spec, ro_Status := zero_ors_status\<rparr>)"
definition ruleset_val where "ruleset_val = struct_val ruleset_refs ruleset_erase (pair_val meta_val (pair_val ors_spec_val ors_status_val))"
definition ruleset_foot where "ruleset_foot = struct_foot ruleset_refs (pair_foot meta_foot (pair_foot ors_spec_foot ors_status_foot))"

interpretation ruleset_pair2: pair_copier OperationRuleSetSpec_DeepCopyInto ors_spec_val ors_spec_foot
  OperationRuleSetStatus_DeepCopyInto ors_status_val ors_status_foot ..
interpretation ruleset_pair1: pair_copier ObjectMeta_DeepCopyInto meta_val meta_foot
  "pair_copy OperationRuleSetSpec_DeepCopyInto OperationRuleSetStatus_DeepCopyInto" "pair_val ors_spec_val ors_status_val" "pair_foot ors_spec_foot ors_status_foot" ..
interpretation ruleset: struct_copier "pair_copy ObjectMeta_DeepCopyInto (pair_copy OperationRuleSetSpec_DeepCopyInto OperationRuleSetStatus_DeepCopyInto)" "pair_val meta_val (pair_val ors_spec_val ors_status_val)" "pair_foot meta_foot (pair_foot ors_spec_foot ors_status_foot)"
  ruleset_refs "\<lambda>(m, (sp, ss)) r. r\<lparr>ro_Meta := m, ro_Spec := sp, ro_Status := ss\<rparr>" ruleset_erase OperationRuleSet_DeepCopyInto
  rewrites "struct_val ruleset_refs ruleset_erase (pair_val meta_val (pair_val ors_spec_val ors_status_val)) = ruleset_val"
    and "struct_foot ruleset_refs (pair_foot meta_foot (pair_foot ors_spec_foot ors_status_foot)) = ruleset_foot"
  by unfold_locales (auto simp: OperationRuleSet_DeepCopyInto_def pair_copy_def Let_def ruleset_refs_def ruleset_erase_def ruleset_val_def ruleset_foot_def split: prod.splits)

definition zero_ruleset :: raw_ors where
  "zero_ruleset = \<lparr>ro_Kind = [], ro_APIVersion = [], ro_Meta = zero_meta, ro_Spec = zero_ors_spec, ro_Status = zero_ors_status\<rparr>"

abbreviation ruleset_slice where "ruleset_slice \<equiv> slice_copy BRuleSets un_BRuleSets zero_ruleset OperationRuleSet_DeepCopyInto"
abbreviation ruleset_slice_val where "ruleset_slice_val \<equiv> slice_val BRuleSets un_BRuleSets ruleset_val"
abbreviation ruleset_slice_foot where "ruleset_slice_foot \<equiv> slice_foot un_BRuleSets ruleset_foot"
interpretation ruleset_slice: slice_copier OperationRuleSet_DeepCopyInto ruleset_val ruleset_foot BRuleSets un_BRuleSets zero_ruleset by unfold_locales simp

definition OperationRuleSetList_DeepCopyInto :: "raw_list \<Rightarrow> store \<Rightarrow> raw_list \<times> store" where
  "OperationRuleSetList_DeepCopyInto r st =
     (let out = r;
          (m, st) = ListMeta_DeepCopyInto (rl_Meta r) st; out = out\<lparr>rl_Meta := m\<rparr>;
          (its, st) = ruleset_slice (rl_Items r) st; out = out\<lparr>rl_Items := its\<rparr> in
      (out, st))"

definition ruleset_list_refs where "ruleset_list_refs = (\<lambda>r. (rl_Meta r, rl_Items r))"
definition ruleset_list_erase where "ruleset_list_erase = (\<lambda>r. r\<lparr>rl_Meta := zero_list_meta, rl_Items := None\<rparr>)"
definition ruleset_list_val where "ruleset_list_val = struct_val ruleset_list_refs ruleset_list_erase (pair_val list_meta_val ruleset_slice_val)"
definition ruleset_list_foot where "ruleset_list_foot = struct_foot ruleset_list_refs (pair_foot list_meta_foot ruleset_slice_foot)"

interpretation ruleset_list_pair1: pair_copier ListMeta_DeepCopyInto list_meta_val list_meta_foot
  ruleset_slice ruleset_slice_val ruleset_slice_foot ..
interpretation ruleset_list: struct_copier "pair_copy ListMeta_DeepCopyInto ruleset_slice" "pair_val list_meta_val ruleset_slice_val" "pair_foot list_meta_foot ruleset_slice_foot"
  ruleset_list_refs "\<lambda>(m, its) r. r\<lparr>rl_Meta := m, rl_Items := its\<rparr>" ruleset_list_erase OperationRuleSetList_DeepCopyInto
  rewrites "struct_val ruleset_list_refs ruleset_list_erase (pair_val list_meta_val ruleset_slice_val) = ruleset_list_val"
    and "struct_foot ruleset_list_refs (pair_foot list_meta_foot ruleset_slice_foot) = ruleset_list_foot"
  by unfold_locales (auto simp: OperationRuleSetList_DeepCopyInto_def pair_copy_def Let_def ruleset_list_refs_def ruleset_list_erase_def ruleset_list_val_def ruleset_list_foot_def split: prod.splits)

section \<open>Operations\<close>

definition SubjectReference_DeepCopyInto :: "raw_subject \<Rightarrow> store \<Rightarrow> raw_subject \<times> store" where
  "SubjectReference_DeepCopyInto r st =
     (let out = r;
          (ows, st) = owner_slice (rsu_OwnerReferences r) st; out = out\<lparr>rsu_OwnerReferences := ows\<rparr> in
      (out, st))"

definition subject_refs where "subject_refs = (\<lambda>r. rsu_OwnerReferences r)"
definition subject_erase where "subject_erase = (\<lambda>r. r\<lparr>rsu_OwnerReferences := None\<rparr>)"
definition subject_val where "subject_val = struct_val subject_refs subject_erase (owner_slice_val)"
definition subject_foot where "subject_foot = struct_foot subject_refs (owner_slice_foot)"

interpretation subject: struct_copier "owner_slice" "owner_slice_val" "owner_slice_foot"
  subject_refs "\<lambda>ows r. r\<lparr>rsu_OwnerReferences := ows\<rparr>" subject_erase SubjectReference_DeepCopyInto
  rewrites "struct_val subject_refs subject_erase (owner_slice_val) = subject_val"
    and "struct_foot subject_refs (owner_slice_foot) = subject_foot"
  by unfold_locales (auto simp: SubjectReference_DeepCopyInto_def pair_copy_def Let_def subject_refs_def subject_erase_def subject_val_def subject_foot_def split: prod.splits)

definition zero_subject :: raw_subject where
  "zero_subject = \<lparr>rsu_APIVersion = [], rsu_Kind = [], rsu_Name = [], rsu_Namespace = [], rsu_UID = [], rsu_OwnerReferences = None\<rparr>"

definition InFlightOperationSpec_DeepCopyInto :: "raw_ifo_spec \<Rightarrow> store \<Rightarrow> raw_ifo_spec \<times> store" where
  "InFlightOperationSpec_DeepCopyInto r st =
     (let out = r;
          (s, st) = SubjectReference_DeepCopyInto (ris_Subject r) st; out = out\<lparr>ris_Subject := s\<rparr> in
      (out, st))"

definition ifo_spec_refs where "ifo_spec_refs = (\<lambda>r. ris_Subject r)"
definition ifo_spec_erase where "ifo_spec_erase = (\<lambda>r. r\<lparr>ris_Subject := zero_subject\<rparr>)"
definition ifo_spec_val where "ifo_spec_val = struct_val ifo_spec_refs ifo_spec_erase (subject_val)"
definition ifo_spec_foot where "ifo_spec_foot = struct_foot ifo_spec_refs (subject_foot)"

interpretation ifo_spec: struct_copier "SubjectReference_DeepCopyInto" "subject_val" "subject_foot"
  ifo_spec_refs "\<lambda>s r. r\<lparr>ris_Subject := s\<rparr>" ifo_spec_erase InFlightOperationSpec_DeepCopyInto
  rewrites "struct_val ifo_spec_refs ifo_spec_erase (subject_val) = ifo_spec_val"
    and "struct_foot ifo_spec_refs (subject_foot) = ifo_spec_foot"
  by unfold_locales (auto simp: InFlightOperationSpec_DeepCopyInto_def pair_copy_def Let_def ifo_spec_refs_def ifo_spec_erase_def ifo_spec_val_def ifo_spec_foot_def split: prod.splits)

definition zero_ifo_spec :: raw_ifo_spec where
  "zero_ifo_spec = \<lparr>ris_Operation = [], ris_RuleSet = [], ris_Component = [], ris_Subject = zero_subject\<rparr>"

definition InFlightOperationStatus_DeepCopyInto :: "raw_ifo_status \<Rightarrow> store \<Rightarrow> raw_ifo_status \<times> store" where
  "InFlightOperationStatus_DeepCopyInto r st =
     (let out = r;
          (c, st) = time_ptr (rit_Completed r) st; out = out\<lparr>rit_Completed := c\<rparr>;
          (l, st) = time_ptr (rit_LastDetected r) st; out = out\<lparr>rit_LastDetected := l\<rparr>;
          (d, st) = strings (rit_DetectedBy r) st; out = out\<lparr>rit_DetectedBy := d\<rparr>;
          (cs, st) = Conditions_DeepCopyInto (rit_Conditions r) st; out = out\<lparr>rit_Conditions := cs\<rparr> in
      (out, st))"

definition ifo_status_refs where "ifo_status_refs = (\<lambda>r. (rit_Completed r, (rit_LastDetected r, (rit_DetectedBy r, rit_Conditions r))))"
definition ifo_status_erase where "ifo_status_erase = (\<lambda>r. r\<lparr>rit_Completed := None, rit_LastDetected := None, rit_DetectedBy := None, rit_Conditions := zero_conditions\<rparr>)"
definition ifo_status_val where "ifo_status_val = struct_val ifo_status_refs ifo_status_erase (pair_val time_val (pair_val time_val (pair_val strings_val conditions_val)))"
definition ifo_status_foot where "ifo_status_foot = struct_foot ifo_status_refs (pair_foot time_foot (pair_foot time_foot (pair_foot strings_foot conditions_foot)))"

interpretation ifo_status_pair3: pair_copier strings strings_val strings_foot
  Conditions_DeepCopyInto conditions_val conditions_foot ..
interpretation ifo_status_pair2: pair_copier time_ptr time_val time_foot
  "pair_copy strings Conditions_DeepCopyInto" "pair_val strings_val conditions_val" "pair_foot strings_foot conditions_foot" ..
interpretation ifo_status_pair1: pair_copier time_ptr time_val time_foot
  "pair_copy time_ptr (pair_copy strings Conditions_DeepCopyInto)" "pair_val time_val (pair_val strings_val conditions_val)" "pair_foot time_foot (pair_foot strings_foot conditions_foot)" ..
interpretation ifo_status: struct_copier "pair_copy time_ptr (pair_copy time_ptr (pair_copy strings Conditions_DeepCopyInto))" "pair_val time_val (pair_val time_val (pair_val strings_val conditions_val))" "pair_foot time_foot (pair_foot time_foot (pair_foot strings_foot conditions_foot))"
  ifo_status_refs "\<lambda>(c, (l, (d, cs))) r. r\<lparr>rit_Completed := c, rit_LastDetected := l, rit_DetectedBy := d, rit_Conditions := cs\<rparr>" ifo_status_erase InFlightOperationStatus_DeepCopyInto
  rewrites "struct_val ifo_status_refs ifo_status_erase (pair_val time_val (pair_val time_val (pair_val strings_val conditions_val))) = ifo_status_val"
    and "struct_foot ifo_status_refs (pair_foot time_foot (pair_foot time_foot (pair_foot strings_foot conditions_foot))) = ifo_status_foot"
  by unfold_locales (auto simp: InFlightOperationStatus_DeepCopyInto_def pair_copy_def Let_def ifo_status_refs_def ifo_status_erase_def ifo_status_val_def ifo_status_foot_def split: prod.splits)

definition zero_ifo_status :: raw_ifo_status where
  "zero_ifo_status = \<lparr>rit_Phase = [], rit_Completed = None, rit_LastDetected = None, rit_DetectedBy = None, rit_SubjectGeneration = 0, rit_Conditions = zero_conditions\<rparr>"

definition InFlightOperation_DeepCopyInto :: "raw_ifo \<Rightarrow> store \<Rightarrow> raw_ifo \<times> store" where
  "InFlightOperation_DeepCopyInto r st =
     (let out = r;
          (m, st) = ObjectMeta_DeepCopyInto (ri_Meta r) st; out = out\<lparr>ri_Meta := m\<rparr>;
          (sp, st) = InFlightOperationSpec_DeepCopyInto (ri_Spec r) st; out = out\<lparr>ri_Spec := sp\<rparr>;
          (ss, st) = InFlightOperationStatus_DeepCopyInto (ri_Status r) st; out = out\<lparr>ri_Status := ss\<rparr> in
      (out, st))"

definition operation_refs where "operation_refs = (\<lambda>r. (ri_Meta r, (ri_Spec r, ri_Status r)))"
definition operation_erase where "operation_erase = (\<lambda>r. r\<lparr>ri_Meta := zero_meta, ri_Spec := zero_ifo_spec, ri_Status := zero_ifo_status\<rparr>)"
definition operation_val where "operation_val = struct_val operation_refs operation_erase (pair_val meta_val (pair_val ifo_spec_val ifo_status_val))"
definition operation_foot where "operation_foot = struct_foot operation_refs (pair_foot meta_foot (pair_foot ifo_spec_foot ifo_status_foot))"

interpretation operation_pair2: pair_copier InFlightOperationSpec_DeepCopyInto ifo_spec_val ifo_spec_foot
  InFlightOperationStatus_DeepCopyInto ifo_status_val ifo_status_foot ..
interpretation operation_pair1: pair_copier ObjectMeta_DeepCopyInto meta_val meta_foot
  "pair_copy InFlightOperationSpec_DeepCopyInto InFlightOperationStatus_DeepCopyInto" "pair_val ifo_spec_val ifo_status_val" "pair_foot ifo_spec_foot ifo_status_foot" ..
interpretation operation: struct_copier "pair_copy ObjectMeta_DeepCopyInto (pair_copy InFlightOperationSpec_DeepCopyInto InFlightOperationStatus_DeepCopyInto)" "pair_val meta_val (pair_val ifo_spec_val ifo_status_val)" "pair_foot meta_foot (pair_foot ifo_spec_foot ifo_status_foot)"
  operation_refs "\<lambda>(m, (sp, ss)) r. r\<lparr>ri_Meta := m, ri_Spec := sp, ri_Status := ss\<rparr>" operation_erase InFlightOperation_DeepCopyInto
  rewrites "struct_val operation_refs operation_erase (pair_val meta_val (pair_val ifo_spec_val ifo_status_val)) = operation_val"
    and "struct_foot operation_refs (pair_foot meta_foot (pair_foot ifo_spec_foot ifo_status_foot)) = operation_foot"
  by unfold_locales (auto simp: InFlightOperation_DeepCopyInto_def pair_copy_def Let_def operation_refs_def operation_erase_def operation_val_def operation_foot_def split: prod.splits)

definition zero_operation :: raw_ifo where
  "zero_operation = \<lparr>ri_Kind = [], ri_APIVersion = [], ri_Meta = zero_meta, ri_Spec = zero_ifo_spec, ri_Status = zero_ifo_status\<rparr>"

abbreviation operation_slice where "operation_slice \<equiv> slice_copy BOperations un_BOperations zero_operation InFlightOperation_DeepCopyInto"
abbreviation operation_slice_val where "operation_slice_val \<equiv> slice_val BOperations un_BOperations operation_val"
abbreviation operation_slice_foot where "operation_slice_foot \<equiv> slice_foot un_BOperations operation_foot"
interpretation operation_slice: slice_copier InFlightOperation_DeepCopyInto operation_val operation_foot BOperations un_BOperations zero_operation by unfold_locales simp

definition InFlightOperationList_DeepCopyInto :: "raw_list \<Rightarrow> store \<Rightarrow> raw_list \<times> store" where
  "InFlightOperationList_DeepCopyInto r st =
     (let out = r;
          (m, st) = ListMeta_DeepCopyInto (rl_Meta r) st; out = out\<lparr>rl_Meta := m\<rparr>;
          (its, st) = operation_slice (rl_Items r) st; out = out\<lparr>rl_Items := its\<rparr> in
      (out, st))"

definition operation_list_refs where "operation_list_refs = (\<lambda>r. (rl_Meta r, rl_Items r))"
definition operation_list_erase where "operation_list_erase = (\<lambda>r. r\<lparr>rl_Meta := zero_list_meta, rl_Items := None\<rparr>)"
definition operation_list_val where "operation_list_val = struct_val operation_list_refs operation_list_erase (pair_val list_meta_val operation_slice_val)"
definition operation_list_foot where "operation_list_foot = struct_foot operation_list_refs (pair_foot list_meta_foot operation_slice_foot)"

interpretation operation_list_pair1: pair_copier ListMeta_DeepCopyInto list_meta_val list_meta_foot
  operation_slice operation_slice_val operation_slice_foot ..
interpretation operation_list: struct_copier "pair_copy ListMeta_DeepCopyInto operation_slice" "pair_val list_meta_val operation_slice_val" "pair_foot list_meta_foot operation_slice_foot"
  operation_list_refs "\<lambda>(m, its) r. r\<lparr>rl_Meta := m, rl_Items := its\<rparr>" operation_list_erase InFlightOperationList_DeepCopyInto
  rewrites "struct_val operation_list_refs operation_list_erase (pair_val list_meta_val operation_slice_val) = operation_list_val"
    and "struct_foot operation_list_refs (pair_foot list_meta_foot operation_slice_foot) = operation_list_foot"
  by unfold_locales (auto simp: InFlightOperationList_DeepCopyInto_def pair_copy_def Let_def operation_list_refs_def operation_list_erase_def operation_list_val_def operation_list_foot_def split: prod.splits)

section \<open>Copies of whole objects\<close>

definition GroupVersionResource_DeepCopy :: "gvr option \<Rightarrow> store \<Rightarrow> gvr option \<times> store" where
  "GroupVersionResource_DeepCopy = new_copy GroupVersionResource_DeepCopyInto"

definition Rule_DeepCopy :: "rule option \<Rightarrow> store \<Rightarrow> rule option \<times> store" where
  "Rule_DeepCopy = new_copy Rule_DeepCopyInto"

definition LabelExpression_DeepCopy :: "label_expression option \<Rightarrow> store \<Rightarrow> label_expression option \<times> store" where
  "LabelExpression_DeepCopy = new_copy LabelExpression_DeepCopyInto"

definition OperationRuleSetSpec_DeepCopy :: "raw_ors_spec option \<Rightarrow> store \<Rightarrow> raw_ors_spec option \<times> store" where
  "OperationRuleSetSpec_DeepCopy = new_copy OperationRuleSetSpec_DeepCopyInto"

definition OperationRuleSetStatus_DeepCopy :: "raw_ors_status option \<Rightarrow> store \<Rightarrow> raw_ors_status option \<times> store" where
  "OperationRuleSetStatus_DeepCopy = new_copy OperationRuleSetStatus_DeepCopyInto"

definition OperationRuleSet_DeepCopy :: "raw_ors option \<Rightarrow> store \<Rightarrow> raw_ors option \<times> store" where
  "OperationRuleSet_DeepCopy = new_copy OperationRuleSet_DeepCopyInto"

definition OperationRuleSetList_DeepCopy :: "raw_list option \<Rightarrow> store \<Rightarrow> raw_list option \<times> store" where
  "OperationRuleSetList_DeepCopy = new_copy OperationRuleSetList_DeepCopyInto"

definition SubjectReference_DeepCopy :: "raw_subject option \<Rightarrow> store \<Rightarrow> raw_subject option \<times> store" where
  "SubjectReference_DeepCopy = new_copy SubjectReference_DeepCopyInto"

definition InFlightOperationSpec_DeepCopy :: "raw_ifo_spec option \<Rightarrow> store \<Rightarrow> raw_ifo_spec option \<times> store" where
  "InFlightOperationSpec_DeepCopy = new_copy InFlightOperationSpec_DeepCopyInto"

definition InFlightOperationStatus_DeepCopy :: "raw_ifo_status option \<Rightarrow> store \<Rightarrow> raw_ifo_status option \<times> store" where
  "InFlightOperationStatus_DeepCopy = new_copy InFlightOperationStatus_DeepCopyInto"

definition InFlightOperation_DeepCopy :: "raw_ifo option \<Rightarrow> store \<Rightarrow> raw_ifo option \<times> store" where
  "InFlightOperation_DeepCopy = new_copy InFlightOperation_DeepCopyInto"

definition InFlightOperationList_DeepCopy :: "raw_list option \<Rightarrow> store \<Rightarrow> raw_list option \<times> store" where
  "InFlightOperationList_DeepCopy = new_copy InFlightOperationList_DeepCopyInto"

definition Condition_DeepCopy :: "raw_condition option \<Rightarrow> store \<Rightarrow> raw_condition option \<times> store" where
  "Condition_DeepCopy = new_copy Condition_DeepCopyInto"

definition Conditions_DeepCopy :: "raw_conditions option \<Rightarrow> store \<Rightarrow> raw_conditions option \<times> store" where
  "Conditions_DeepCopy = new_copy Conditions_DeepCopyInto"

definition Explain_DeepCopy :: "raw_explain option \<Rightarrow> store \<Rightarrow> raw_explain option \<times> store" where
  "Explain_DeepCopy = new_copy Explain_DeepCopyInto"

text \<open>A \<open>runtime.Object\<close>; the nil interface is \<open>None\<close>, and never a non-nil one that holds a nil pointer.\<close>

datatype runtime_object =
    ORuleSet raw_ors | ORuleSetList raw_list | OOperation raw_ifo | OOperationList raw_list

definition as_object :: "('r \<Rightarrow> runtime_object) \<Rightarrow> 'r option \<times> store \<Rightarrow> runtime_object option \<times> store" where
  "as_object wrap cs = (case cs of (Some c, st) \<Rightarrow> (Some (wrap c), st) | (None, st) \<Rightarrow> (None, st))"

definition OperationRuleSet_DeepCopyObject :: "raw_ors option \<Rightarrow> store \<Rightarrow> runtime_object option \<times> store" where
  "OperationRuleSet_DeepCopyObject r st = as_object ORuleSet (OperationRuleSet_DeepCopy r st)"

definition OperationRuleSetList_DeepCopyObject :: "raw_list option \<Rightarrow> store \<Rightarrow> runtime_object option \<times> store" where
  "OperationRuleSetList_DeepCopyObject r st = as_object ORuleSetList (OperationRuleSetList_DeepCopy r st)"

definition InFlightOperation_DeepCopyObject :: "raw_ifo option \<Rightarrow> store \<Rightarrow> runtime_object option \<times> store" where
  "InFlightOperation_DeepCopyObject r st = as_object OOperation (InFlightOperation_DeepCopy r st)"

definition InFlightOperationList_DeepCopyObject :: "raw_list option \<Rightarrow> store \<Rightarrow> runtime_object option \<times> store" where
  "InFlightOperationList_DeepCopyObject r st = as_object OOperationList (InFlightOperationList_DeepCopy r st)"

text \<open>The method call through the interface.\<close>

fun DeepCopyObject :: "runtime_object \<Rightarrow> store \<Rightarrow> runtime_object option \<times> store" where
  "DeepCopyObject (ORuleSet r) st = OperationRuleSet_DeepCopyObject (Some r) st"
| "DeepCopyObject (ORuleSetList r) st = OperationRuleSetList_DeepCopyObject (Some r) st"
| "DeepCopyObject (OOperation r) st = InFlightOperation_DeepCopyObject (Some r) st"
| "DeepCopyObject (OOperationList r) st = InFlightOperationList_DeepCopyObject (Some r) st"

section \<open>Properties\<close>

text \<open>Two structs, each in its store, hold the same, and both stores are well typed below them.\<close>

definition same_val :: "(store \<Rightarrow> 'r \<Rightarrow> 'v option) \<Rightarrow> store \<Rightarrow> 'r \<Rightarrow> store \<Rightarrow> 'r \<Rightarrow> bool" where
  "same_val val st r st' r' \<longleftrightarrow> val st r \<noteq> None \<and> val st' r' = val st r"

fun same_object :: "store \<Rightarrow> runtime_object \<Rightarrow> store \<Rightarrow> runtime_object \<Rightarrow> bool" where
  "same_object st (ORuleSet r) st' (ORuleSet r') = same_val ruleset_val st r st' r'"
| "same_object st (ORuleSetList r) st' (ORuleSetList r') = same_val ruleset_list_val st r st' r'"
| "same_object st (OOperation r) st' (OOperation r') = same_val operation_val st r st' r'"
| "same_object st (OOperationList r) st' (OOperationList r') = same_val operation_list_val st r st' r'"
| "same_object st r st' r' = False"

lemmas copy_object_defs = OperationRuleSet_DeepCopyObject_def OperationRuleSetList_DeepCopyObject_def
  InFlightOperation_DeepCopyObject_def InFlightOperationList_DeepCopyObject_def
  OperationRuleSet_DeepCopy_def OperationRuleSetList_DeepCopy_def
  InFlightOperation_DeepCopy_def InFlightOperationList_DeepCopy_def new_copy_def as_object_def

text \<open>
  What a snapshot is: the copy holds the same, and keeps doing so whatever happens to blocks that are not its
  own; the original keeps its value whatever happens to blocks allocated by the copy.
\<close>

definition snapshot_of :: "(store \<Rightarrow> 'r \<Rightarrow> store \<Rightarrow> 'r \<Rightarrow> bool) \<Rightarrow> store \<Rightarrow> 'r \<Rightarrow> store \<Rightarrow> 'r \<Rightarrow> store \<Rightarrow> bool" where
  "snapshot_of same st r st' copy st'' \<longleftrightarrow>
     same st r st' copy \<and>
     ((\<forall>a \<ge> length st. a < length st' \<longrightarrow> st'' ! a = st' ! a) \<longrightarrow> same st r st'' copy) \<and>
     ((\<forall>a < length st. st'' ! a = st ! a) \<longrightarrow> same st r st'' r)"

context deep_copier
begin

lemma new_copy_snapshot:
  assumes "same_val val st r st r" "length (snd (into r st)) \<le> length st''"
  shows "snapshot_of (same_val val) st r (snd (into r st)) (fst (into r st)) st''"
proof -
  obtain v where v: "val st r = Some v" using assms(1) by (auto simp: same_val_def simp del: split_paired_Ex)
  obtain r' st' where run: "into r st = (r', st')" by fastforce
  obtain bs where bs: "st' = st @ bs" "val st' r' = Some v" using copied [OF v run] .
  have "val st'' r' = Some v" if "\<forall>a \<ge> length st. a < length st' \<longrightarrow> st'' ! a = st' ! a"
    using independent(1) [OF v run _ that] assms(2) run by simp
  moreover have "val st'' r = Some v" if "\<forall>a < length st. st'' ! a = st ! a"
    using independent(2) [OF v run, of st''] assms(2) run that bs(1) by (simp add: nth_append)
  ultimately show ?thesis using v bs(2) run by (simp add: snapshot_of_def same_val_def)
qed

end

text \<open>
  C37. A deep copy of an API object is a snapshot of it. For every object that is well formed in the store,
  \<open>DeepCopyObject\<close> returns one that holds the same, whatever slices, maps and pointers it is made of; whatever
  is written afterwards, the copy still holds it as long as the blocks allocated by the copy are left
  alone, and the original as long as the blocks it had are: neither sees a write to the other. So the base
  of the reconciler's finalizer patch, a deep copy, is the rule set as it was read.
\<close>

theorem DeepCopyObject_snapshot:
  assumes "same_object st r st r" "DeepCopyObject r st = (c, st')" "length st' \<le> length st''"
  shows "\<exists>copy. c = Some copy \<and> snapshot_of same_object st r st' copy st''"
proof (cases r)
  case (ORuleSet x)
  then show ?thesis using assms ruleset.struct.new_copy_snapshot [of st x st'']
    by (simp add: copy_object_defs snapshot_of_def split: prod.splits) fastforce
next
  case (ORuleSetList x)
  then show ?thesis using assms ruleset_list.struct.new_copy_snapshot [of st x st'']
    by (simp add: copy_object_defs snapshot_of_def split: prod.splits) fastforce
next
  case (OOperation x)
  then show ?thesis using assms operation.struct.new_copy_snapshot [of st x st'']
    by (simp add: copy_object_defs snapshot_of_def split: prod.splits) fastforce
next
  case (OOperationList x)
  then show ?thesis using assms operation_list.struct.new_copy_snapshot [of st x st'']
    by (simp add: copy_object_defs snapshot_of_def split: prod.splits) fastforce
qed

definition snapshot_store :: store where
  "snapshot_store = [BStrings [''ifo.kubevirt.io/finalizer'', ''other''], BTime 7]"

definition snapshot_ors :: raw_ors where
  "snapshot_ors = zero_ruleset\<lparr>ro_Meta := zero_meta\<lparr>rm_Name := ''pods'', rm_Finalizers := Some (0, 0, 1),
     rm_DeletionTimestamp := Some 1\<rparr>\<rparr>"

lemma snapshot_ors_typed: "same_object snapshot_store (ORuleSet snapshot_ors) snapshot_store (ORuleSet snapshot_ors)"
proof -
  have "\<not> Option.is_none (ruleset_val snapshot_store snapshot_ors)" by code_simp
  then show ?thesis by (simp add: same_val_def Option.is_none_def)
qed

theorem DeepCopyObject_snapshot_witness:
  "\<exists>copy. fst (DeepCopyObject (ORuleSet snapshot_ors) snapshot_store) = Some copy \<and>
     same_object snapshot_store (ORuleSet snapshot_ors)
       ((snd (DeepCopyObject (ORuleSet snapshot_ors) snapshot_store))[0 := BStrings [''overwritten'']]) copy"
proof -
  obtain c st' where run: "DeepCopyObject (ORuleSet snapshot_ors) snapshot_store = (c, st')" by fastforce
  have "\<forall>a \<ge> length snapshot_store. a < length st' \<longrightarrow> st'[0 := BStrings [''overwritten'']] ! a = st' ! a"
    by (simp add: snapshot_store_def)
  with DeepCopyObject_snapshot [OF snapshot_ors_typed run, of "st'[0 := BStrings [''overwritten'']]"] show ?thesis
    unfolding run snapshot_of_def by auto
qed

text \<open>What the original reads after that write, and what the copy reads.\<close>

lemma snapshot_example:
  "let (c, st) = OperationRuleSet_DeepCopy (Some snapshot_ors) snapshot_store;
       st = st[0 := BStrings [''overwritten'']] in
   strings_val st (rm_Finalizers (ro_Meta snapshot_ors)) = Some (Some [''overwritten'']) \<and>
   strings_val st (rm_Finalizers (ro_Meta (the c))) = Some (Some [''ifo.kubevirt.io/finalizer''])"
  by code_simp

end
