(* ===== verification/Watch_Lifecycle.thy ===== *)
theory Watch_Lifecycle
  imports Watch_Cache
begin

text \<open>
  The end of the watcher (\<open>Watcher.Start\<close> of \<open>internal/watch/watcher.go\<close>): it blocks until its context is
  cancelled and then shuts the watches down. What the shutdown promises needs one more invariant of the watch
  cache, that no open stop channel is forgotten, and the termination of what the scheduler still has to do.
\<close>

section \<open>Start\<close>

datatype 'a running = Blocked | Panicked | Returned 'a

text \<open>\<open>cancelled\<close> says whether the context is done; \<open>ks\<close> is the order of the visit of the map.\<close>

definition Watcher_Start :: "bool \<Rightarrow> gvr list \<Rightarrow> watch_cache \<Rightarrow> (goerr option \<times> watch_cache) running" where
  "Watcher_Start cancelled ks c =
     (if \<not> cancelled then Blocked
      else (case Shutdown ks c of None \<Rightarrow> Panicked | Some c \<Rightarrow> Returned (None, c)))"

section \<open>Every open channel has its watch\<close>

definition chans_owned :: "watch_cache \<Rightarrow> bool" where
  "chans_owned c \<longleftrightarrow> (\<forall>n < length (rt_closed (wc_rt c)). \<not> rt_closed (wc_rt c) ! n \<longrightarrow>
     (\<exists>g w. wc_watches c g = Some w \<and> w_stopCh w = Some n))"

lemma Stop_owned:
  assumes inv: "watch_inv c" and own: "chans_owned c" and stop: "Stop g c = Some c'"
  shows "chans_owned c'"
proof (cases "wc_watches c g")
  case None
  with own stop show ?thesis by (simp add: Stop_def)
next
  case (Some w)
  from inv Some obtain ch where ch: "w_stopCh w = Some ch" by (rule watching_chan)
  have c': "c' = c\<lparr>wc_watches := (wc_watches c)(g := None), wc_ActiveWatches := wc_ActiveWatches c - 1,
      wc_rt := (wc_rt c)\<lparr>rt_closed := (rt_closed (wc_rt c))[ch := True]\<rparr>\<rparr>"
    using stop Stop_watching [OF inv Some ch] by simp
  show ?thesis
    unfolding chans_owned_def
  proof (intro allI impI)
    fix n
    assume n: "n < length (rt_closed (wc_rt c'))" "\<not> rt_closed (wc_rt c') ! n"
    then have "n < length (rt_closed (wc_rt c))" "\<not> rt_closed (wc_rt c) ! n" "n \<noteq> ch"
      by (cases "n = ch"; simp add: c')+
    with own obtain h v where "wc_watches c h = Some v" "w_stopCh v = Some n" unfolding chans_owned_def by blast
    with \<open>n \<noteq> ch\<close> Some ch show "\<exists>g w. wc_watches c' g = Some w \<and> w_stopCh w = Some n"
      by (intro exI [of _ h] exI [of _ v]) (auto simp: c')
  qed
qed

lemma stop_list_owned:
  "watch_inv c \<Longrightarrow> chans_owned c \<Longrightarrow> watches.stop_list ks c = Some c' \<Longrightarrow> chans_owned c'"
proof (induction ks arbitrary: c)
  case (Cons g ks)
  from Stop_inv [OF Cons.prems(1), of g] obtain c1 where "Stop g c = Some c1" "watch_inv c1" by blast
  with Cons Stop_owned [OF Cons.prems(1,2)] show ?case by auto
qed simp

lemma Shutdown_owned:
  assumes "watch_inv c" "chans_owned c" "Shutdown ks c = Some c'"
  shows "chans_owned c'"
proof -
  from assms(3) obtain c1 where "watches.stop_list ks c = Some c1" "c' = c1\<lparr>wc_rt := (wc_rt c1)\<lparr>rt_shuttingDown := True\<rparr>\<rparr>"
    by (auto simp: Shutdown_def StopAll_list split: option.splits)
  with stop_list_owned [OF assms(1,2)] show ?thesis by (auto simp: chans_owned_def)
qed

lemma addHandlers_closed: "addHandlers frames i rt = (err, rt') \<Longrightarrow> rt_closed rt' = rt_closed rt"
  by (auto simp: addHandlers_def AddEventHandler_def Let_def split: prod.splits option.splits if_splits)

lemma makeInformer_closed: "makeInformer g rt = (i, rt') \<Longrightarrow> rt_closed rt' = rt_closed rt"
  by (auto simp: makeInformer_def Let_def split: option.splits)

lemma Register_owned:
  assumes "chans_owned c"
  shows "chans_owned (snd (Register frames g c))"
proof (cases "Exists g c")
  case True
  with assms show ?thesis by (simp add: Register_def)
next
  case False
  obtain i rt1 where mk: "makeInformer g (wc_rt c) = (i, rt1)" by force
  obtain err rt2 where ah: "addHandlers frames i rt1 = (err, rt2)" by force
  have closed: "rt_closed rt2 = rt_closed (wc_rt c)"
    using makeInformer_closed [OF mk] addHandlers_closed [OF ah] by simp
  have "chans_owned (Start g i (c\<lparr>wc_rt := rt2\<rparr>))"
    unfolding chans_owned_def
  proof (intro allI impI)
    let ?c = "Start g i (c\<lparr>wc_rt := rt2\<rparr>)"
    fix n
    assume n: "n < length (rt_closed (wc_rt ?c))" "\<not> rt_closed (wc_rt ?c) ! n"
    show "\<exists>g w. wc_watches ?c g = Some w \<and> w_stopCh w = Some n"
    proof (cases "n = length (rt_closed (wc_rt c))")
      case True
      then show ?thesis
        by (intro exI [of _ g]) (simp add: Start_def Watch_Start_def Let_def closed)
    next
      case older: False
      with n have "n < length (rt_closed (wc_rt c))" "\<not> rt_closed (wc_rt c) ! n"
        by (auto simp: Start_def Watch_Start_def Let_def closed nth_append split: if_splits)
      with assms obtain h v where "wc_watches c h = Some v" "w_stopCh v = Some n" unfolding chans_owned_def by blast
      moreover from this False have "h \<noteq> g" by (auto simp: Exists_def)
      ultimately show ?thesis
        by (intro exI [of _ h] exI [of _ v]) (simp add: Start_def Watch_Start_def Let_def)
    qed
  qed
  moreover have "chans_owned (c\<lparr>wc_rt := rt2\<rparr>)" using assms closed by (simp add: chans_owned_def)
  ultimately show ?thesis using False mk ah by (auto simp: Register_def split: option.splits)
qed

lemma watch_reach_owned: "watch_reach c \<Longrightarrow> chans_owned c"
proof (induction rule: watch_reach.induct)
  case init
  then show ?case by (simp add: chans_owned_def NewWatchCache_def)
next
  case (step c c')
  note inv = watch_reach_inv [OF step.hyps(1)]
  from step.hyps(2) show ?case
  proof (cases rule: watch_step.cases)
    case (register frames g)
    then show ?thesis using Register_owned [OF step.IH] by simp
  next
    case (prune ks gvrs)
    then show ?thesis using stop_list_owned [OF inv step.IH] by (metis Prune_list)
  next
    case (shutdown ks)
    then show ?thesis using Shutdown_owned [OF inv step.IH] by simp
  next
    case (sched rt)
    then show ?thesis
      using step.IH sched_extends [OF sched(2)] inv by (simp add: chans_owned_def watch_inv_def)
  qed
qed

section \<open>The scheduler comes to rest\<close>

definition running_informers :: "runtime \<Rightarrow> nat set" where
  "running_informers rt = {i. i < length (rt_informers rt) \<and> (\<exists>ch. inf_phase (rt_informers rt ! i) = Running ch)}"

definition sched_work :: "runtime \<Rightarrow> nat" where
  "sched_work rt = 2 * length (rt_spawned rt) + card (running_informers rt)"

lemma finite_running [simp]: "finite (running_informers rt)"
  by (simp add: running_informers_def)

lemma sched_step_work: "sched_step rt rt' \<Longrightarrow> sched_work rt' < sched_work rt"
proof (induction rule: sched_step.induct)
  case (begins p rt)
  have "running_informers (run_begin p rt) \<subseteq> insert (fst p) (running_informers rt)"
    by (auto simp: running_informers_def run_begin_def Let_def nth_list_update split: if_splits)
  then have "card (running_informers (run_begin p rt)) \<le> Suc (card (running_informers rt))"
    using card_mono [of "insert (fst p) (running_informers rt)" "running_informers (run_begin p rt)"]
    by (simp add: card_insert_if split: if_splits)
  moreover have "length (rt_spawned (run_begin p rt)) < length (rt_spawned rt)"
    using begins length_pos_if_in_set [OF begins] by (simp add: run_begin_def Let_def length_remove1)
  ultimately show ?case by (simp add: sched_work_def)
next
  case (ends i rt ch)
  then have "running_informers (run_end i rt) \<subseteq> running_informers rt - {i}"
    by (auto simp: running_informers_def run_end_def nth_list_update split: if_splits)
  moreover have "i \<in> running_informers rt" using ends by (auto simp: running_informers_def)
  ultimately have "card (running_informers (run_end i rt)) < card (running_informers rt)"
    by (meson Diff_subset card_Diff1_less card_mono finite_Diff finite_running le_less_trans)
  then show ?case by (simp add: sched_work_def run_end_def)
qed

lemma sched_steps_bounded: "(sched_step ^^ n) rt rt' \<Longrightarrow> n + sched_work rt' \<le> sched_work rt"
proof (induction n arbitrary: rt')
  case (Suc n)
  then obtain rt1 where "(sched_step ^^ n) rt rt1" "sched_step rt1 rt'" by auto
  with Suc.IH [of rt1] sched_step_work [of rt1 rt'] show ?case by simp
qed simp

lemma sched_steps_frame:
  "(sched_step ^^ n) rt rt' \<Longrightarrow> runtime_wf rt \<Longrightarrow> runtime_wf rt' \<and> rt_closed rt' = rt_closed rt"
proof (induction n arbitrary: rt')
  case (Suc n)
  then obtain rt1 where "(sched_step ^^ n) rt rt1" "sched_step rt1 rt'" by auto
  with Suc.IH [of rt1] Suc.prems(2) sched_extends [of rt1 rt'] show ?case by (simp add: rt_extends_def)
qed simp

lemma at_rest:
  assumes "runtime_wf rt" "\<forall>n < length (rt_closed rt). rt_closed rt ! n" "\<nexists>rt'. sched_step rt rt'"
  shows "rt_spawned rt = [] \<and> running_informers rt = {}"
proof
  show "rt_spawned rt = []"
    using assms(3) sched_step.begins [of _ rt] by (cases "rt_spawned rt") auto
  show "running_informers rt = {}"
  proof (rule ccontr)
    assume "running_informers rt \<noteq> {}"
    then obtain i ch where i: "i < length (rt_informers rt)" "inf_phase (rt_informers rt ! i) = Running ch"
      by (auto simp: running_informers_def)
    with assms(1) have "ch < length (rt_closed rt)" by (auto simp: runtime_wf_def)
    with assms(2,3) sched_step.ends [OF i] show False by blast
  qed
qed

section \<open>Properties\<close>

text \<open>
  C24. The watcher stops. From every reachable state \<open>Start\<close> blocks until the context is cancelled and then returns
  without an error or a panic: no watch is left, the gauge is zero and every stop channel ever made is closed. What the
  scheduler still does afterwards ends, after at most as many steps as there is work left, and once nothing is left
  to do no informer runs and none is about to.
\<close>

theorem Start_stops_everything:
  assumes "watch_reach c" and "enumerates ks (wc_watches c)"
  shows "Watcher_Start False ks c = Blocked \<and>
    (\<exists>c'. Watcher_Start True ks c = Returned (None, c') \<and> wc_watches c' = Map.empty \<and> wc_ActiveWatches c' = 0 \<and>
      (\<forall>n < length (rt_closed (wc_rt c')). rt_closed (wc_rt c') ! n) \<and>
      (\<forall>n rt. (sched_step ^^ n) (wc_rt c') rt \<longrightarrow>
         n \<le> sched_work (wc_rt c') \<and>
         ((\<nexists>rt'. sched_step rt rt') \<longrightarrow> rt_spawned rt = [] \<and> running_informers rt = {})))"
proof -
  note inv = watch_reach_inv [OF assms(1)]
  from Shutdown_inv [OF inv assms(2)] obtain c'
    where c': "Shutdown ks c = Some c'" "watch_inv c'" "wc_watches c' = Map.empty" by blast
  have closed: "\<forall>n < length (rt_closed (wc_rt c')). rt_closed (wc_rt c') ! n"
    using Shutdown_owned [OF inv watch_reach_owned [OF assms(1)] c'(1)] c'(3) by (simp add: chans_owned_def)
  have "runtime_wf (wc_rt c')" "wc_ActiveWatches c' = 0" using c'(2,3) by (simp_all add: watch_inv_def)
  then have "n \<le> sched_work (wc_rt c') \<and> ((\<nexists>rt'. sched_step rt rt') \<longrightarrow> rt_spawned rt = [] \<and> running_informers rt = {})"
    if "(sched_step ^^ n) (wc_rt c') rt" for n rt
    using sched_steps_bounded [OF that] sched_steps_frame [OF that] at_rest [of rt] closed by auto
  with c' closed \<open>wc_ActiveWatches c' = 0\<close> show ?thesis by (auto simp: Watcher_Start_def)
qed

theorem Start_stops_everything_witness:
  "running_informers (wc_rt pod_running) = {0} \<and>
   (\<exists>c'. Watcher_Start True [pods] pod_running = Returned (None, c') \<and> wc_watches c' = Map.empty \<and>
      sched_step (wc_rt c') (run_end 0 (wc_rt c')) \<and> running_informers (run_end 0 (wc_rt c')) = {})"
proof
  have e: "enumerates [pods] (wc_watches pod_running)"
    by (simp add: pod_running_def pod_watch_eq enumerates_def)
  show "running_informers (wc_rt pod_running) = {0}"
    by (auto simp: running_informers_def pod_running_def pod_watch_eq run_begin_def Let_def)
  from Start_stops_everything [OF pod_running_reach e] obtain c'
    where c': "Watcher_Start True [pods] pod_running = Returned (None, c')" "wc_watches c' = Map.empty"
      and steps: "\<forall>n rt. (sched_step ^^ n) (wc_rt c') rt \<longrightarrow> n \<le> sched_work (wc_rt c') \<and>
        ((\<nexists>rt'. sched_step rt rt') \<longrightarrow> rt_spawned rt = [] \<and> running_informers rt = {})" by blast
  let ?rt = "run_end 0 (wc_rt c')"
  have rt: "rt_closed (wc_rt c') = [True]" "rt_spawned (wc_rt c') = []"
      "rt_informers (wc_rt c') = [\<lparr>inf_gvr = pods, inf_phase = Running 0, inf_handlers = 1\<rparr>]"
    using c'(1)
    by (auto simp: Watcher_Start_def Shutdown_def Stop_def Watch_Stop_def close_chan_def pod_running_def pod_watch_eq
        run_begin_def Let_def)
  then have step: "sched_step (wc_rt c') ?rt" by (intro sched_step.ends [of _ _ 0]) simp_all
  have rest: "\<not> sched_step ?rt rt'" for rt'
    by (rule notI, erule sched_stepE) (auto simp: run_end_def rt)
  have "running_informers ?rt = {}"
    using steps [rule_format, of 1 ?rt] step rest by (simp add: eq_OO)
  with c' step show "\<exists>c'. Watcher_Start True [pods] pod_running = Returned (None, c') \<and> wc_watches c' = Map.empty \<and>
      sched_step (wc_rt c') (run_end 0 (wc_rt c')) \<and> running_informers (run_end 0 (wc_rt c')) = {}" by blast
qed

end
