(* ===== verification/Operation_Typing.thy ===== *)
theory Operation_Typing
  imports Watcher
begin

text \<open>
  The operations the watcher writes are well typed: what the schema of \<open>InFlightOperation\<close>
  (\<open>api/v1alpha1/inflightoperation_types.go\<close>) asks for, and the relation between phase and completion time that the
  rest of the program relies on. It is an invariant of the store and of the calls, kept by every step of the
  handlers, like the type of a state by the steps of a program.
\<close>

section \<open>Types\<close>

text \<open>A status: active and without a completion time, or completed at some time.\<close>

definition status_typed :: "ifo_status \<Rightarrow> bool" where
  "status_typed s \<longleftrightarrow>
     st_Phase s = OperationPhaseActive \<and> st_Completed s = None \<or>
     st_Phase s = OperationPhaseCompleted \<and> \<not> IsZero (st_Completed s)"

text \<open>A stored operation: \<open>MinLength=1\<close>, and a status, or none yet.\<close>

definition ifo_typed :: "ifo \<Rightarrow> bool" where
  "ifo_typed x \<longleftrightarrow> is_Operation (ifo_Spec x) \<noteq> [] \<and> (ifo_Status x = empty_status \<or> status_typed (ifo_Status x))"

text \<open>A call: a status update must carry a status.\<close>

fun call_typed :: "api_call \<Rightarrow> bool" where
  "call_typed (CCreate op) \<longleftrightarrow> ifo_typed op"
| "call_typed (CUpdateStatus op) \<longleftrightarrow> ifo_typed op \<and> status_typed (ifo_Status op)"
| "call_typed c \<longleftrightarrow> True"

definition env_typed :: "('w \<Rightarrow> ifo set) \<Rightarrow> 'w env \<Rightarrow> bool" where
  "env_typed view e \<longleftrightarrow> (\<forall>x \<in> view (en_world e). ifo_typed x) \<and> (\<forall>c \<in> set (en_calls e). call_typed c)"

text \<open>A rule: its operation is not empty.\<close>

definition rule_typed :: "rule \<Rightarrow> bool" where
  "rule_typed ru \<longleftrightarrow> ru_Operation ru \<noteq> []"

definition ors_typed :: "ors \<Rightarrow> bool" where
  "ors_typed r \<longleftrightarrow> (\<forall>ru \<in> set (Rules r). rule_typed ru)"

section \<open>Typed values\<close>

lemma MarkDetection_typed:
  "ifo_typed x \<Longrightarrow> ifo_typed (MarkDetection t subj rs x) \<and> status_typed (ifo_Status (MarkDetection t subj rs x))"
  by (simp add: ifo_typed_def status_typed_def MarkDetection_def)

lemma MarkCompleted_typed:
  "t \<noteq> 0 \<Longrightarrow> ifo_typed x \<Longrightarrow> ifo_typed (MarkCompleted t subj x) \<and> status_typed (ifo_Status (MarkCompleted t subj x))"
  by (simp add: ifo_typed_def status_typed_def MarkCompleted_def IsZero_def)

lemma Build_typed: "operation \<noteq> [] \<Longrightarrow> ifo_typed (Build subj operation r ls)"
  by (simp add: ifo_typed_def Build_def)

lemma Complete_typed: "status_typed (ifo_Status x) \<Longrightarrow> Complete x \<longleftrightarrow> st_Phase (ifo_Status x) = OperationPhaseCompleted"
  by (auto simp: status_typed_def Complete_def IsZero_def OperationPhaseActive_def OperationPhaseCompleted_def)

lemma matching_typed: "ors_typed r \<Longrightarrow> [] \<notin> set (matching cel subj (Rules r))"
  by (auto simp: matching_def ors_typed_def rule_typed_def)

section \<open>Typed steps\<close>

lemma env_typed_frame:
  "view (en_world e') = view (en_world e) \<Longrightarrow> en_calls e' = en_calls e \<Longrightarrow> env_typed view e' = env_typed view e"
  by (simp add: env_typed_def)

lemma env_typed_observe [simp]:
  "env_typed view (observe m e) = env_typed view e" "env_typed view (snd (Now sys e)) = env_typed view e"
  "env_typed view (e\<lparr>en_ticks := n\<rparr>) = env_typed view e"
  by (simp_all add: env_typed_def observe_def Now_def)

lemma past_debounce_typed: "past_debounce sys th op e = (b, e') \<Longrightarrow> env_typed view e' = env_typed view e"
  using past_debounce_frame by (metis env_typed_frame)

lemma client_List_typed:
  assumes "server_ok sys view" "client_List sys sel e = (r, e')" "env_typed view e"
  shows "env_typed view e'" and "r = Inr items \<Longrightarrow> x \<in> set items \<Longrightarrow> ifo_typed x"
proof -
  obtain w where w: "cl_List sys sel (en_world e) = (r, w)" "e' = e\<lparr>en_world := w, en_calls := en_calls e @ [CList sel]\<rparr>"
    using assms(2) by (auto simp: client_defs split: prod.splits)
  from server_List [OF assms(1) w(1)] w(2) assms(3)
  show "env_typed view e'" and "r = Inr items \<Longrightarrow> x \<in> set items \<Longrightarrow> ifo_typed x"
    by (auto simp: env_typed_def)
qed

lemma client_Create_typed:
  assumes "server_ok sys view" "client_Create sys op e = (r, e')" "env_typed view e" "ifo_typed op"
  shows "env_typed view e'" and "r = Inr out \<Longrightarrow> ifo_typed out"
proof -
  obtain w where w: "cl_Create sys op (en_world e) = (r, w)" "e' = e\<lparr>en_world := w, en_calls := en_calls e @ [CCreate op]\<rparr>"
    using assms(2) by (auto simp: client_defs split: prod.splits)
  from server_Create [OF assms(1) w(1)] w(2) assms(3,4)
  show "env_typed view e'" and "r = Inr out \<Longrightarrow> ifo_typed out"
    by (auto simp: env_typed_def ifo_typed_def split: sum.splits)
qed

lemma set_status_typed:
  "ifo_typed x \<Longrightarrow> status_typed (ifo_Status op) \<Longrightarrow> ifo_typed (set_status op x)"
  by (simp add: set_status_def ifo_typed_def)

lemma client_UpdateStatus_typed:
  assumes "server_ok sys view" "client_UpdateStatus sys op e = (r, e')" "env_typed view e"
    and "ifo_typed op" "status_typed (ifo_Status op)"
  shows "env_typed view e'"
proof -
  obtain w where w: "cl_UpdateStatus sys op (en_world e) = (r, w)"
      "e' = e\<lparr>en_world := w, en_calls := en_calls e @ [CUpdateStatus op]\<rparr>"
    using assms(2) by (auto simp: client_defs split: prod.splits)
  from server_UpdateStatus [OF assms(1) w(1)] w(2) assms(3-5) show ?thesis
    by (auto simp: env_typed_def set_status_typed)
qed

lemma client_Delete_typed:
  assumes "server_ok sys view" "env_typed view e"
  shows "env_typed view (snd (client_Delete sys op e))"
proof -
  obtain r w where w: "cl_Delete sys (ifo_Name op) (en_world e) = (r, w)" by force
  from server_Delete [OF assms(1) w] w assms(2) show ?thesis by (auto simp: env_typed_def client_defs)
qed

text \<open>The completion loop.\<close>

lemma complete_one_typed:
  assumes ok: "server_ok sys view" and clock: "\<And>k. sys_clock sys k \<noteq> 0" and "env_typed view e" "ifo_typed op"
  shows "env_typed view (complete_one sys st subj d op e)"
proof -
  obtain past e1 where pd: "past_debounce sys (DebounceThreshold st) op e = (past, e1)" by force
  from past_debounce_typed [OF this] assms(3) have e1: "env_typed view e1" by simp
  obtain op' e2 where mc: "markCompleted sys subj op e1 = (op', e2)" by force
  have "env_typed view e2"
  proof -
    let ?op = "MarkCompleted (sys_clock sys (en_ticks e1)) subj op"
    obtain r e3 where u: "client_UpdateStatus sys ?op (snd (Now sys e1)) = (r, e3)" by force
    have "env_typed view e3"
      using client_UpdateStatus_typed [OF ok u] e1 MarkCompleted_typed [OF clock assms(4)] by simp
    then show ?thesis
      using mc u by (cases r) (auto simp: markCompleted_def Let_def Now_def split: prod.splits)
  qed
  then have "env_typed view (cleanupCompleted sys st op' e2)"
    using client_Delete_typed [OF ok, of e2 op'] by (simp add: cleanupCompleted_def)
  with e1 pd mc show ?thesis by (simp add: complete_one_def split: option.splits)
qed

lemma complete_loop_typed:
  assumes "server_ok sys view" "\<And>k. sys_clock sys k \<noteq> 0"
  shows "env_typed view e \<Longrightarrow> \<forall>x \<in> set items. ifo_typed x \<Longrightarrow> env_typed view (complete_loop sys st subj d items e)"
  by (induction items arbitrary: e) (simp_all add: complete_one_typed [OF assms])

text \<open>The detection loop.\<close>

lemma Ensure_typed:
  assumes ok: "server_ok sys view" and h: "Ensure sys th op e = (r, e')" and "env_typed view e" "ifo_typed op"
  shows "env_typed view e'" and "r = Inr out \<Longrightarrow> ifo_typed out"
proof -
  obtain l e1 where l: "client_List sys (ifo_Labels op) e = (l, e1)" by force
  note lt = client_List_typed [OF ok l assms(3)]
  have "env_typed view e' \<and> (\<forall>out. r = Inr out \<longrightarrow> ifo_typed out)"
  proof (cases l)
    case (Inl er)
    with h l lt(1) show ?thesis by (auto simp: Ensure_def)
  next
    case (Inr items)
    let ?items = "SortFunc newest_first items"
    obtain create e2 where c: "(case ?items of [] \<Rightarrow> (True, e1) | newest # _ \<Rightarrow> past_debounce sys th newest e1) = (create, e2)"
      by force
    have e2: "env_typed view e2" using c lt(1) by (auto dest: past_debounce_typed split: list.splits)
    obtain cr e3 where cr: "client_Create sys op e2 = (cr, e3)" by force
    note ct = client_Create_typed [OF ok cr e2 assms(4)]
    have "\<not> create \<Longrightarrow> ?items \<noteq> []" using c by (auto simp: SortFunc_def)
    then have "\<not> create \<Longrightarrow> ifo_typed (hd ?items)" using lt(2) [OF Inr] hd_in_set [of ?items] by simp
    with h l Inr c cr e2 ct show ?thesis
      by (cases create; cases cr) (auto simp: Ensure_def Let_def)
  qed
  then show "env_typed view e'" and "r = Inr out \<Longrightarrow> ifo_typed out" by auto
qed

lemma ensure_one_typed:
  assumes ok: "server_ok sys view" and "env_typed view e" "operation \<noteq> []"
    and h: "ensure_one sys st subj result operation e = (err, e')"
  shows "env_typed view e'"
proof -
  let ?op = "Build subj operation (rr_RuleSet result) (rr_Labels result)"
  obtain r e1 where en: "Ensure sys (DebounceThreshold st) ?op e = (r, e1)" by force
  note et = Ensure_typed [OF ok en assms(2) Build_typed [OF assms(3)]]
  show ?thesis
  proof (cases r)
    case (Inl er)
    with h en et(1) show ?thesis by (simp add: ensure_one_def)
  next
    case (Inr op)
    let ?op = "MarkDetection (sys_clock sys (en_ticks e1)) subj [ors_Name (rr_RuleSet result)] op"
    obtain u e2 where u: "client_UpdateStatus sys ?op (snd (Now sys e1)) = (u, e2)" by force
    have "env_typed view e2"
      using client_UpdateStatus_typed [OF ok u] et(1) MarkDetection_typed [OF et(2) [OF Inr]] by simp
    with h en Inr u show ?thesis by (auto simp: ensure_one_def Now_def Let_def split: if_splits)
  qed
qed

lemma ensure_ops_typed:
  assumes "server_ok sys view"
  shows "env_typed view e \<Longrightarrow> \<forall>operation \<in> set opers. operation \<noteq> [] \<Longrightarrow>
    ensure_ops sys st subj result opers err e = (err', e') \<Longrightarrow> env_typed view e'"
  by (induction opers arbitrary: err e) (auto split: prod.splits dest: ensure_one_typed [OF assms])

lemma ensure_results_typed:
  assumes "server_ok sys view"
  shows "env_typed view e \<Longrightarrow> \<forall>res \<in> set results. \<forall>operation \<in> set (rr_Operations res). operation \<noteq> [] \<Longrightarrow>
    ensure_results sys st subj results err e = (err', e') \<Longrightarrow> env_typed view e'"
  by (induction results arbitrary: err e) (auto split: prod.splits dest: ensure_ops_typed [OF assms])

section \<open>Properties\<close>



end
