(* ===== verification/Api_Scheme.thy ===== *)
theory Api_Scheme
  imports Api_Types
begin

text \<open>
  The registration of the resources with the scheme (\<open>api/v1alpha1/groupversion_info.go\<close> and the \<open>init\<close> functions of the
  types): which Go type stands for which kind. The builder and the scheme are vendored (controller-runtime and
  apimachinery), modelled without conversions and defaults; what \<open>metav1.AddToGroupVersion\<close> adds of its own types is the
  argument \<open>addMeta\<close>. A panic is \<open>None\<close>.
\<close>

section \<open>The scheme\<close>

datatype gvk = GVK (gvk_Group: string) (gvk_Version: string) (gvk_Kind: string)

text \<open>A Go type is named by its package path and its name.\<close>

record scheme =
  gvkToType :: "gvk \<rightharpoonup> string \<times> string"
  typeToGVK :: "string \<times> string \<Rightarrow> gvk list"
  observedVersions :: "(string \<times> string) list"

definition APIVersionInternal :: string where
  "APIVersionInternal = ''__internal''"

definition addObservedVersion :: "string \<times> string \<Rightarrow> scheme \<Rightarrow> scheme" where
  "addObservedVersion gv s =
     (if snd gv = [] \<or> snd gv = APIVersionInternal then s
      else if gv \<in> set (observedVersions s) then s
      else s\<lparr>observedVersions := observedVersions s @ [gv]\<rparr>)"

definition AddKnownTypeWithName :: "gvk \<Rightarrow> string \<times> string \<Rightarrow> scheme \<Rightarrow> scheme option" where
  "AddKnownTypeWithName g t s =
     (let s = addObservedVersion (gvk_Group g, gvk_Version g) s in
      if gvk_Version g = [] then None
      else if gvkToType s g \<noteq> None \<and> gvkToType s g \<noteq> Some t then None
      else
        (let s = s\<lparr>gvkToType := (gvkToType s)(g \<mapsto> t)\<rparr> in
         if g \<in> set (typeToGVK s t) then Some s
         else Some (s\<lparr>typeToGVK := (typeToGVK s)(t := typeToGVK s t @ [g])\<rparr>)))"

text \<open>A type is known under its own name.\<close>

fun known_loop :: "string \<times> string \<Rightarrow> (string \<times> string) list \<Rightarrow> scheme \<Rightarrow> scheme option" where
  "known_loop gv [] s = Some s"
| "known_loop gv (t # types) s =
     (case AddKnownTypeWithName (GVK (fst gv) (snd gv) (snd t)) t s of
        None \<Rightarrow> None
      | Some s \<Rightarrow> known_loop gv types s)"

definition AddKnownTypes :: "string \<times> string \<Rightarrow> (string \<times> string) list \<Rightarrow> scheme \<Rightarrow> scheme option" where
  "AddKnownTypes gv types s = known_loop gv types (addObservedVersion gv s)"

section \<open>The builder\<close>

type_synonym add_meta = "string \<times> string \<Rightarrow> scheme \<Rightarrow> scheme option"

record builder =
  sb_GroupVersion :: "string \<times> string"
  sb_funcs :: "(scheme \<Rightarrow> scheme option) list"

definition Builder_Register :: "add_meta \<Rightarrow> (string \<times> string) list \<Rightarrow> builder \<Rightarrow> builder" where
  "Builder_Register addMeta types bld =
     bld\<lparr>sb_funcs := sb_funcs bld @
       [\<lambda>s. case AddKnownTypes (sb_GroupVersion bld) types s of
              None \<Rightarrow> None
            | Some s \<Rightarrow> addMeta (sb_GroupVersion bld) s]\<rparr>"

fun funcs_loop :: "(scheme \<Rightarrow> scheme option) list \<Rightarrow> scheme \<Rightarrow> scheme option" where
  "funcs_loop [] s = Some s"
| "funcs_loop (f # fs) s = (case f s of None \<Rightarrow> None | Some s \<Rightarrow> funcs_loop fs s)"

definition AddToScheme :: "builder \<Rightarrow> scheme \<Rightarrow> scheme option" where
  "AddToScheme bld s = funcs_loop (sb_funcs bld) s"

section \<open>The package\<close>

definition GroupVersion :: "string \<times> string" where
  "GroupVersion = (''ifo.kubevirt.io'', ''v1alpha1'')"

definition api_package :: string where
  "api_package = ''github.com/openshift-virtualization/inflightoperations/api/v1alpha1''"

definition SchemeBuilder :: builder where
  "SchemeBuilder = \<lparr>sb_GroupVersion = GroupVersion, sb_funcs = []\<rparr>"

definition register_ifo :: "add_meta \<Rightarrow> builder \<Rightarrow> builder" where
  "register_ifo addMeta =
     Builder_Register addMeta [(api_package, ''InFlightOperation''), (api_package, ''InFlightOperationList'')]"

definition register_ors :: "add_meta \<Rightarrow> builder \<Rightarrow> builder" where
  "register_ors addMeta =
     Builder_Register addMeta [(api_package, ''OperationRuleSet''), (api_package, ''OperationRuleSetList'')]"

text \<open>The package's initialisation runs the \<open>init\<close> functions in the order of the files.\<close>

definition api_builder :: "add_meta \<Rightarrow> builder" where
  "api_builder addMeta = register_ors addMeta (register_ifo addMeta SchemeBuilder)"

section \<open>What the scheme knows\<close>

definition api_kinds :: "string list" where
  "api_kinds = [''InFlightOperation'', ''InFlightOperationList'', ''OperationRuleSet'', ''OperationRuleSetList'']"

definition api_gvk :: "string \<Rightarrow> gvk" where
  "api_gvk k = GVK (fst GroupVersion) (snd GroupVersion) k"

text \<open>\<open>addMeta\<close> does not panic and adds kinds of its own only.\<close>

definition meta_ok :: "add_meta \<Rightarrow> bool" where
  "meta_ok addMeta \<longleftrightarrow> (\<forall>gv s. \<exists>s'. addMeta gv s = Some s' \<and> gvkToType s \<subseteq>\<^sub>m gvkToType s' \<and>
     (\<forall>k \<in> set api_kinds. gvkToType s' (api_gvk k) = gvkToType s (api_gvk k)))"

lemma addObservedVersion_types [simp]:
  "gvkToType (addObservedVersion gv s) = gvkToType s" "typeToGVK (addObservedVersion gv s) = typeToGVK s"
  by (simp_all add: addObservedVersion_def)

lemma AddKnownTypeWithName_new:
  assumes "gvk_Version g \<noteq> []" "gvkToType s g = None \<or> gvkToType s g = Some t"
  shows "\<exists>s'. AddKnownTypeWithName g t s = Some s' \<and> gvkToType s' = (gvkToType s)(g \<mapsto> t)"
  using assms by (auto simp: AddKnownTypeWithName_def Let_def)

lemma known_loop_new:
  assumes "snd gv \<noteq> []"
  shows "distinct (map snd types) \<Longrightarrow> \<forall>t \<in> set types. gvkToType s (GVK (fst gv) (snd gv) (snd t)) \<in> {None, Some t} \<Longrightarrow>
    \<exists>s'. known_loop gv types s = Some s' \<and>
      (\<forall>t \<in> set types. gvkToType s' (GVK (fst gv) (snd gv) (snd t)) = Some t) \<and>
      (\<forall>g. g \<notin> (\<lambda>t. GVK (fst gv) (snd gv) (snd t)) ` set types \<longrightarrow> gvkToType s' g = gvkToType s g)"
proof (induction types arbitrary: s)
  case (Cons t types)
  let ?g = "\<lambda>t. GVK (fst gv) (snd gv) (snd t)"
  from AddKnownTypeWithName_new [of "?g t" s t] Cons.prems(2) assms obtain s1
    where s1: "AddKnownTypeWithName (?g t) t s = Some s1" "gvkToType s1 = (gvkToType s)(?g t \<mapsto> t)" by auto
  have t: "?g t \<notin> ?g ` set types" using Cons.prems(1) by (auto simp: image_iff)
  have "\<forall>u \<in> set types. gvkToType s1 (?g u) \<in> {None, Some u}"
    using Cons.prems t s1(2) by (auto simp: image_iff)
  with Cons.IH [of s1] Cons.prems(1) obtain s' where s': "known_loop gv types s1 = Some s'"
      "\<forall>t \<in> set types. gvkToType s' (?g t) = Some t" "\<forall>g. g \<notin> ?g ` set types \<longrightarrow> gvkToType s' g = gvkToType s1 g"
    by auto
  moreover have "gvkToType s' (?g t) = Some t" using s'(3) t s1(2) by simp
  ultimately show ?case using s1 by (auto simp: image_iff)
qed simp

lemma api_funcs:
  "sb_funcs (api_builder addMeta) =
     [\<lambda>s. case AddKnownTypes GroupVersion [(api_package, ''InFlightOperation''), (api_package, ''InFlightOperationList'')] s of
            None \<Rightarrow> None | Some s \<Rightarrow> addMeta GroupVersion s,
      \<lambda>s. case AddKnownTypes GroupVersion [(api_package, ''OperationRuleSet''), (api_package, ''OperationRuleSetList'')] s of
            None \<Rightarrow> None | Some s \<Rightarrow> addMeta GroupVersion s]"
  by (simp add: api_builder_def register_ors_def register_ifo_def Builder_Register_def SchemeBuilder_def cong: option.case_cong)

lemma AddKnownTypes_api:
  assumes "distinct ks" "\<forall>k \<in> set ks. gvkToType s (api_gvk k) \<in> {None, Some (api_package, k)}"
  shows "\<exists>s'. AddKnownTypes GroupVersion (map (Pair api_package) ks) s = Some s' \<and>
    (\<forall>k \<in> set ks. gvkToType s' (api_gvk k) = Some (api_package, k)) \<and>
    (\<forall>g. g \<notin> api_gvk ` set ks \<longrightarrow> gvkToType s' g = gvkToType s g)"
proof -
  let ?s = "addObservedVersion GroupVersion s"
  have "distinct (map snd (map (Pair api_package) ks))" using assms(1) by (simp add: comp_def)
  from known_loop_new [OF _ this, of GroupVersion ?s] assms(2) show ?thesis
    by (auto simp: AddKnownTypes_def api_gvk_def GroupVersion_def image_image)
qed

text \<open>
  The four kinds of the package are known by their names after \<open>AddToScheme\<close>, which panics on no scheme that does not use
  them for other types, and keeps every other kind; adding the package again is harmless.
\<close>

theorem AddToScheme_knows:
  assumes meta: "meta_ok addMeta"
    and free: "\<forall>k \<in> set api_kinds. gvkToType s (api_gvk k) \<in> {None, Some (api_package, k)}"
  shows "\<exists>s'. AddToScheme (api_builder addMeta) s = Some s' \<and>
    (\<forall>k \<in> set api_kinds. gvkToType s' (api_gvk k) = Some (api_package, k)) \<and> gvkToType s \<subseteq>\<^sub>m gvkToType s'"
proof -
  have sub: "gvkToType s1 \<subseteq>\<^sub>m gvkToType s2"
    if "\<forall>k \<in> set ks. gvkToType s2 (api_gvk k) = Some (api_package, k)"
      "\<forall>g. g \<notin> api_gvk ` set ks \<longrightarrow> gvkToType s2 g = gvkToType s1 g"
      "\<forall>k \<in> set ks. gvkToType s1 (api_gvk k) \<in> {None, Some (api_package, k)}" for ks s1 s2
    unfolding map_le_def
  proof
    fix g assume "g \<in> dom (gvkToType s1)"
    with that show "gvkToType s1 g = gvkToType s2 g" by (cases "g \<in> api_gvk ` set ks") auto
  qed
  let ?a = "[''InFlightOperation'', ''InFlightOperationList'']" and ?b = "[''OperationRuleSet'', ''OperationRuleSetList'']"
  have ka: "\<forall>k \<in> set ?a. gvkToType s (api_gvk k) \<in> {None, Some (api_package, k)}"
    and kb: "\<forall>k \<in> set ?b. gvkToType s (api_gvk k) \<in> {None, Some (api_package, k)}"
    using free by (auto simp: api_kinds_def)
  from AddKnownTypes_api [OF _ ka] obtain s1 where s1: "AddKnownTypes GroupVersion (map (Pair api_package) ?a) s = Some s1"
      "\<forall>k \<in> set ?a. gvkToType s1 (api_gvk k) = Some (api_package, k)"
      "\<forall>g. g \<notin> api_gvk ` set ?a \<longrightarrow> gvkToType s1 g = gvkToType s g" by auto
  from meta obtain s2 where s2: "addMeta GroupVersion s1 = Some s2" "gvkToType s1 \<subseteq>\<^sub>m gvkToType s2"
      "\<forall>k \<in> set api_kinds. gvkToType s2 (api_gvk k) = gvkToType s1 (api_gvk k)" unfolding meta_ok_def by blast
  have "\<forall>k \<in> set ?b. api_gvk k \<notin> api_gvk ` set ?a" by (simp add: api_gvk_def)
  then have kb2: "\<forall>k \<in> set ?b. gvkToType s2 (api_gvk k) \<in> {None, Some (api_package, k)}"
    using kb s1(3) s2(3) by (simp add: api_kinds_def)
  from AddKnownTypes_api [OF _ kb2] obtain s3 where s3: "AddKnownTypes GroupVersion (map (Pair api_package) ?b) s2 = Some s3"
      "\<forall>k \<in> set ?b. gvkToType s3 (api_gvk k) = Some (api_package, k)"
      "\<forall>g. g \<notin> api_gvk ` set ?b \<longrightarrow> gvkToType s3 g = gvkToType s2 g" by auto
  from meta obtain s4 where s4: "addMeta GroupVersion s3 = Some s4" "gvkToType s3 \<subseteq>\<^sub>m gvkToType s4"
      "\<forall>k \<in> set api_kinds. gvkToType s4 (api_gvk k) = gvkToType s3 (api_gvk k)" unfolding meta_ok_def by blast
  have "AddToScheme (api_builder addMeta) s = Some s4"
    using s1(1) s2(1) s3(1) s4(1) by (simp add: AddToScheme_def api_funcs)
  moreover have "gvkToType s \<subseteq>\<^sub>m gvkToType s4"
    using sub [OF s1(2,3) ka] s2(2) sub [OF s3(2,3) kb2] s4(2) by (blast intro: map_le_trans)
  moreover have "\<forall>k \<in> set ?a. gvkToType s3 (api_gvk k) = Some (api_package, k)"
    using s1(2) s2(3) s3(3) by (simp add: api_kinds_def api_gvk_def image_iff)
  ultimately show ?thesis using s3(2) s4(3) by (auto simp: api_kinds_def)
qed

definition empty_scheme :: scheme where
  "empty_scheme = \<lparr>gvkToType = Map.empty, typeToGVK = (\<lambda>t. []), observedVersions = []\<rparr>"

theorem AddToScheme_knows_witness:
  "\<exists>s'. AddToScheme (api_builder (\<lambda>gv. Some)) empty_scheme = Some s' \<and>
     gvkToType s' (GVK ''ifo.kubevirt.io'' ''v1alpha1'' ''OperationRuleSet'') = Some (api_package, ''OperationRuleSet'')"
  using AddToScheme_knows [of "\<lambda>gv. Some" empty_scheme]
  by (auto simp: meta_ok_def empty_scheme_def api_kinds_def api_gvk_def GroupVersion_def)

end
