(* ===== verification/Spec2Isabelle.thy ===== *)
theory Spec2Isabelle
  imports Manager Programs Deep_Copy Watch_Lifecycle Operation_Typing Api_Scheme
begin

text \<open>
  \<^bold>\<open>InFlightOperations\<close>, a Kubernetes operator and its tools.

  An \<open>OperationRuleSet\<close> names a kind of resource (group, version, resource: a GVR) and rules, expressions in CEL.
  While a rule holds of a resource, an \<open>InFlightOperation\<close> says that the operation of the rule is in progress on it.
  The operator reconciles rule sets, watches the kinds they target and creates, completes and deletes the
  operations; a kubectl plugin shows them; generators make the operator's role and its manifest from the
  rule set files.

  \<^bold>\<open>The parts and how they interact.\<close> \<open>Reconcile\<close> validates a rule set (is the target served, do the expressions
  compile), reports the verdict as staged conditions, stores it in the rule cache and registers a watch for its
  target. A watch is an informer with a channel that stops it; its events run \<open>handle\<close>, which evaluates the cached
  rule sets of the GVR on the subject of the event (through the cache of compiled programs), completes the
  operations of the subject that were not detected and ensures one for each that was. The plugin lists operations,
  builds the forest of their owners and prints it. The two caches are shared by the reconciler and the handlers,
  the program cache by all goroutines.

  \<^bold>\<open>The theories\<close>, each with the sources it models; a definition has the name of the function it models, and a type
  that of its Go type, unless that clashes.

  \<^item> \<open>Prelude\<close>: time, durations as 64-bit words, labels, the orders in which a Go map is visited, sorting with a
    comparison function (locale \<open>comparator\<close>), strings.
  \<^item> \<open>Errors\<close> (\<open>lib/error\<close>), \<open>Settings\<close> (\<open>settings\<close>), \<open>Logging\<close> (\<open>lib/logging\<close>), \<open>Conditions\<close> (\<open>lib/condition\<close>): the
    libraries. The condition list is shown to be a board of conditions by type with a staging protocol
    (locales \<open>condition_board\<close>, \<open>erasable_board\<close>), which the reconciler's lemmas rest on.
  \<^item> \<open>Api_Types\<close> (\<open>api/v1alpha1\<close>): the resources and their methods, JSON subjects. \<open>Deep_Copy\<close> (the generated
    deep copies): an explicit store of arrays, maps and pointers; the locale \<open>deep_copier\<close> says what a deep copy
    is, further locales build copies of structs, slices, pointers and maps, and every generated function is an
    interpretation. \<open>Api_Scheme\<close>: the registration of the kinds with the scheme.
  \<^item> \<open>Program_Cache\<close>, \<open>Evaluator\<close> (\<open>internal/evaluator\<close>): the cache under concurrent callers, as a step relation with
    its lock; evaluation of rules and label expressions against a reference without a cache (locale \<open>evaluator_iface\<close>).
  \<^item> \<open>Rule_Cache\<close>, \<open>Watch_Cache\<close>, \<open>Operations\<close>, \<open>Watcher\<close> (\<open>internal/watch\<close>, \<open>internal/metrics\<close>): rule sets by target,
    refining a function from histories (locale \<open>rule_store\<close>); watches with channels, informers and the scheduler as a
    store and step relation (locale \<open>watch_registry\<close>); operations against an API server; the event handlers, what
    they call and what that does to the server. \<open>Watch_Lifecycle\<close>: the watcher's \<open>Start\<close> and what is left after it.
    \<open>Operation_Typing\<close>: the types of what the handlers write.
  \<^item> \<open>Reconciler\<close> (\<open>internal/controller\<close>): one reconcile with all its early returns, and the reachable states of the
    controller (\<open>controller_reach\<close>: reconciles, handlers and the scheduler in any order).
  \<^item> \<open>Manager\<close> (\<open>cmd/manager\<close>): package initialisation, the command line, TLS and server options, the steps up to the start.
  \<^item> \<open>Plugin_Model\<close>, \<open>Plugin_Output\<close>, \<open>Plugin_Cmd\<close> (\<open>pkg/plugin\<close>, \<open>cmd/kubectl-ifo\<close>): forests over a heap of nodes (locale
    \<open>forest_correlator\<close> for the correlators), what is printed, line by line, and the four commands.
  \<^item> \<open>Role_Generators\<close> (\<open>cmd/watch-role-generator\<close>, \<open>cmd/ruleset-bundler\<close>), \<open>Csv_Generator\<close> (\<open>cmd/csv-generator\<close>): the
    directory walk and the files they read, the role, the bundle, and the manifest.
  \<^item> \<open>Command_Line\<close> (the vendored \<open>pflag\<close> and \<open>cobra\<close>), \<open>Programs\<close> (\<open>pkg/plugin/cmd\<close> and the generators' \<open>main.go\<close>): the
    parser, how the command is found and executed, and the contract between the flags of a program and its
    variables (locale \<open>flag_settings\<close>); the flags and commands of each program, and its exit status.
  \<^item> This theory: what spans the operator and the generators.

  \<^bold>\<open>State and effects.\<close> Records hold the state of a component and operations return it updated. The API server, the
  discovery client, the CEL library, the file system and the codecs are arguments; a server has a state of an arbitrary
  type that every call may change, and may fail or answer anything. What a well-behaved server does is a
  hypothesis of the properties that need it (\<open>server_ok\<close> for the operator; \<open>selector_laws\<close> and \<open>answers\<close> for the plugin),
  and each such property is applied to a concrete server in its witness. Every reading of the clock is an argument of
  its own. Stack frames recorded in errors, and the orders in which maps are visited, are arguments too. Errors
  are values of a sum or option type; an operation that may panic returns \<open>None\<close> for the panic.

  \<^bold>\<open>Bounds and fuel.\<close> Durations wrap at 64 bits, as in Go (\<open>LookupSeconds_overflow\<close>). Recursions over nodes that are
  linked in a heap take fuel: as many steps as there are operations suffice for every forest the code builds
  (\<open>BuildForest_shows\<close>), for printing it (\<open>PrintForest_total\<close>) and for the tree command (\<open>runTree_ends\<close>). All else
  terminates by the structure of the data or a measure (the arguments left, the letters of a group of
  shorthands, the subcommands below a command); \<open>Reconcile_total\<close> says that a reconcile always has a result, never a panic.

  \<^bold>\<open>What is shown\<close>, by component: the handler's calls, and that a well-behaved server ends up with exactly the right
  operations (\<open>handle_detects\<close>, \<open>handle_completes\<close>, \<open>handle_converges\<close>); the reconciler's verdicts, effects and invariant
  (\<open>Validate_verdict\<close>, \<open>Reconcile_activates\<close>, \<open>Reconcile_rejects\<close>, \<open>watched_iff_targeted\<close>); what the caches hold after any history
  and under any interleaving (\<open>rule_cache_history\<close>, \<open>watch_cache_sound\<close>, \<open>concurrent_cache_correct\<close>); evaluation against its
  reference; the staging protocol; labels and selectors that identify a subject, on the operator's and the plugin's
  side; that the plugin's forest shows every operation once, how it is grouped and printed, and the counts of the
  summary; that the generated role and manifest grant what the rule sets need and nothing else; secure defaults of the
  operator's servers; deep copies as snapshots; that what is written is well typed (\<open>handlers_typed\<close>), that a cancelled
  watcher stops everything (\<open>Start_stops_everything\<close>), and that the programs read their flags back
  (\<open>plugin_reads_flags\<close>, \<open>csv_command_line\<close>, \<open>flags_roundtrip\<close>). Behaviour that falls short of what the code means to do is stated
  as it is: a pruned GVR is never watched again (\<open>pruned_never_live_again\<close>), a deleted rule set comes back
  (\<open>deleted_rule_set_returns\<close>), a rule set that changes its target stays under the old one (\<open>retarget_leaves_stale\<close>), a changed
  dynamic label duplicates an operation (\<open>relabelled_operation_duplicated\<close>), failing rules complete everything
  (\<open>failing_rules_complete_all\<close>), deeper log levels and the logging flags have no effect (\<open>level_logger_verbosity\<close>,
  \<open>zap_flags_ignored\<close>), owners in a cycle are not shown (\<open>ownership_cycle_hidden\<close>).

  \<^bold>\<open>Not modelled.\<close> The registration of metrics with Prometheus: declarations without behaviour of their own. The texts
  cobra prints, its help and completion commands, and what of cobra and pflag the programs do not use. The YAML and JSON
  codecs, the CEL compiler and interpreter, client-go and controller-runtime beyond the parts named above: libraries, which
  the model takes as arguments. Log lines, except in \<open>Logging\<close> and \<open>Manager\<close>, whose subject they are. Mutexes, where
  an operation holds its lock from beginning to end and is one step; the program cache, which releases its lock
  between two looks, has its steps apart.
\<close>

section \<open>From the rule sets to what is watched\<close>

text \<open>A server whose rule sets all target GVRs in \<open>T\<close>, and a patch of whose metadata leaves it so.\<close>

definition serves_targets :: "'w kube \<Rightarrow> gvr set \<Rightarrow> bool" where
  "serves_targets k T \<longleftrightarrow>
     (\<forall>nm w r w'. k_Get k nm w = (Inr r, w') \<longrightarrow> ors_GVR r \<in> T) \<and>
     (\<forall>rule w r w'. ors_GVR rule \<in> T \<longrightarrow> k_Patch k rule w = (Inr r, w') \<longrightarrow> ors_GVR r \<in> T)"

definition watches_in :: "'prog controller \<Rightarrow> gvr set \<Rightarrow> bool" where
  "watches_in s T \<longleftrightarrow> (\<forall>g. Exists g (ct_Watches s) \<longrightarrow> g \<in> T)"

lemma Setup_watches_in:
  assumes "Setup frames rule s = (err, s')" "watches_in s T" "ors_GVR rule \<in> T"
  shows "watches_in s' T"
proof -
  obtain er ws where reg: "Register frames (ors_GVR rule) (ct_Watches s) = (er, ws)" by force
  have "ct_Watches s' = ws" using assms(1) reg by (auto simp: Setup_def Let_def split: if_splits)
  then show ?thesis using Register_watches [OF reg] assms(2,3) by (metis watches_in_def)
qed

lemma Teardown_watches_in:
  assumes "controller_inv cel s" "Reconciler.orders_ok ord" "Teardown ord rule s = Some s'" "watches_in s T"
  shows "watches_in s' T"
proof -
  from Teardown_inv [OF assms(1,2), of rule] assms(3) have s': "controller_inv cel s'"
    "ct_Rules s' = RemoveRule rule (ct_Rules s)" by auto
  have "wf_rules (ct_Rules s)" using assms(1) by (simp add: controller_inv_def)
  then have "List_rules (ct_Rules s') g \<noteq> [] \<Longrightarrow> List_rules (ct_Rules s) g \<noteq> []" for g
    using rules_RemoveRule_sub [of "ct_Rules s" rule g] s'(2) by force
  then show ?thesis using assms(1,4) s'(1) by (auto simp: watches_in_def controller_inv_def)
qed

lemma finalizer_patches_in:
  assumes "serves_targets k T" "ors_GVR rule \<in> T"
  shows "AddFinalizer k rule e = (Inr r, e') \<Longrightarrow> ors_GVR r \<in> T"
    and "RemoveFinalizer k rule e = (Inr r, e') \<Longrightarrow> ors_GVR r \<in> T"
proof -
  have same: "ors_GVR (rule\<lparr>ors_Finalizers := fs\<rparr>) \<in> T" for fs using assms(2) by (simp add: ors_GVR_eq)
  have patched: "ors_GVR r \<in> T" if "k_Patch k (rule\<lparr>ors_Finalizers := fs\<rparr>) w = (Inr r, w')" for fs w w'
    using assms(1) same that unfolding serves_targets_def by blast
  show "ors_GVR r \<in> T" if "AddFinalizer k rule e = (Inr r, e')"
    using that assms(2) same patched
    by (auto simp: AddFinalizer_def util_AddFinalizer_def kcall_def split: if_splits prod.splits)
  show "ors_GVR r \<in> T" if "RemoveFinalizer k rule e = (Inr r, e')"
    using that assms(2) same patched
    by (auto simp: RemoveFinalizer_def util_RemoveFinalizer_def kcall_def Let_def split: if_splits prod.splits)
qed

lemma reconcile_finalizers_in:
  assumes "controller_inv cel s" "Reconciler.orders_ok ord" "serves_targets k T" "ors_GVR rule \<in> T" "watches_in s T"
    and "reconcile_finalizers k ord rule s e = Some (r, s', e')"
  shows "watches_in s' T \<and> (\<forall>rule'. r = Inr rule' \<longrightarrow> ors_GVR rule' \<in> T)"
proof (cases "IsZero (ors_DeletionTimestamp rule)")
  case True
  then show ?thesis using assms(5,6) finalizer_patches_in(1) [OF assms(3,4)]
    by (auto simp: reconcile_finalizers_def split: prod.splits)
next
  case False
  obtain s1 where s1: "Teardown ord rule s = Some s1" using Teardown_inv [OF assms(1,2)] by blast
  obtain r1 e1 where rm: "RemoveFinalizer k rule e = (r1, e1)" by fastforce
  have w: "watches_in s1 T" by (rule Teardown_watches_in [OF assms(1,2) s1 assms(5)])
  show ?thesis
  proof (cases r1)
    case (Inl err)
    then show ?thesis using False s1 rm w assms(6) by (auto simp: reconcile_finalizers_def)
  next
    case (Inr rule1)
    have "ors_GVR rule1 \<in> T" using finalizer_patches_in(2) [OF assms(3,4)] rm Inr by simp
    then show ?thesis using False s1 rm Inr w assms(6) finalizer_patches_in(1) [OF assms(3)]
      by (auto simp: reconcile_finalizers_def split: prod.splits if_splits)
  qed
qed

lemma reconcile_status_in:
  assumes "controller_inv cel s" "watches_in s T" "ors_GVR rule \<in> T"
    and "reconcile_status k st cel rule s e = (requeue, err, s', e')"
  shows "watches_in s' T"
proof -
  have "cache_ok cel (ct_Programs s)" using assms(1) by (simp add: controller_inv_def)
  from reconcile_status_spec [OF this assms(4)] obtain pc c where
    "if HasBlockerCondition c then s' = s\<lparr>ct_Programs := pc\<rparr> \<and> requeue = RequeueInterval st
     else \<exists>er. Setup (k_frames k) (over_conditions (\<lambda>_. c) rule) (s\<lparr>ct_Programs := pc\<rparr>) = (er, s') \<and>
       requeue = (if er = None then 0 else RequeueInterval st)" by blast
  moreover have "watches_in (s\<lparr>ct_Programs := pc\<rparr>) T" using assms(2) by (simp add: watches_in_def)
  moreover have "ors_GVR (over_conditions (\<lambda>_. c) rule) \<in> T" using assms(3) by (simp add: over_conditions_def ors_GVR_eq)
  ultimately show ?thesis by (auto dest: Setup_watches_in simp: watches_in_def split: if_splits)
qed

lemma Reconcile_in:
  assumes "controller_inv cel s" "Reconciler.orders_ok ord" "serves_targets k T" "watches_in s T"
    and "Reconcile k st cel ord nm s e = Some (requeue, err, s', e')"
  shows "watches_in s' T"
proof -
  obtain r e1 where get: "kcall (k_Get k nm) e = (r, e1)" by fastforce
  show ?thesis
  proof (cases r)
    case (Inl er)
    then show ?thesis using get assms(4,5) by (cases er) (auto simp: Reconcile_def reconcile_body_def)
  next
    case (Inr rule)
    have rule: "ors_GVR rule \<in> T"
      using get Inr assms(3) by (auto simp: kcall_def serves_targets_def split: prod.splits)
    obtain r2 s2 e2 where fin: "reconcile_finalizers k ord rule s e1 = Some (r2, s2, e2)" "controller_inv cel s2"
      using reconcile_finalizers_inv [OF assms(1,2)] by metis
    note f = reconcile_finalizers_in [OF assms(1-3) rule assms(4) fin(1)]
    show ?thesis
    proof (cases r2)
      case (Inl er)
      then show ?thesis using get Inr fin f assms(5) \<open>r = Inr rule\<close> by (auto simp: Reconcile_def reconcile_body_def)
    next
      case (Inr rule2)
      obtain rq er s3 e3 where st: "reconcile_status k st cel rule2 s2 e2 = (rq, er, s3, e3)" by (metis prod_cases4)
      then have "s' = s3" using get \<open>r = Inr rule\<close> Inr fin assms(5) by (auto simp: Reconcile_def reconcile_body_def)
      then show ?thesis using reconcile_status_in [OF fin(2) _ _ st] f Inr by blast
    qed
  qed
qed

lemma controller_reach_in:
  assumes "controller_reach k sys cel s" "serves_targets k T"
  shows "watches_in s T"
  using assms(1)
proof (induction rule: controller_reach.induct)
  case new
  then show ?case by (simp add: watches_in_def NewController_def NewWatchCache_def Exists_def)
next
  case (reconcile s ord st nm e requeue err s' e')
  then show ?case using Reconcile_in [OF controller_reach_inv] assms(2) by blast
next
  case (handling s st obj g e err pc e')
  then show ?case by (simp add: watches_in_def)
next
  case (scheduling s rt)
  then show ?case by (simp add: watches_in_def Exists_def)
qed

text \<open>
  C25. The operator may watch everything it watches. When the rule sets of the cluster target the resources of a rules
  directory, and the operator was installed from the manifest whose watch role was generated from that
  directory, then in every state the controller can reach, whatever the order of its reconciles and the
  answers it gets, the account it runs under is granted get, list and watch on the resource of every GVR
  that is watched.
\<close>

theorem watched_targets_permitted:
  assumes "Role_Generators.orders_ok ord" "collectTargets (go_groups ord) (go_members ord) rules_fs unmarshal dir = Inr targets"
    and "readRBACRules fs y (fs_Join fs (gf_rbacDir fl) ''watch_role.yaml'') = Inr (cr_Rules (buildClusterRole (go_targets ord) name targets))"
    and "readRBACRules fs y (fs_Join fs (gf_rbacDir fl) ''role.yaml'') = Inr managerRules"
    and "buildClusterPermissions fs y fl = Inr rules"
    and "serves_targets k {g. (gvr_Group g, gvr_Resource g) \<in> file_targets rules_fs unmarshal (fs_Walk rules_fs dir)}"
    and "controller_reach k sys cel s" "Exists g (ct_Watches s)" "v \<in> {''get'', ''list'', ''watch''}"
  shows "cluster_grants (buildCSV fl rules perm owned) (gvr_Group g) (gvr_Resource g) v"
proof -
  have "(gvr_Group g, gvr_Resource g) \<in> file_targets rules_fs unmarshal (fs_Walk rules_fs dir)"
    using controller_reach_in [OF assms(7,6)] assms(8) by (auto simp: watches_in_def)
  then show ?thesis using permissions_of_bundle [OF assms(1-4), of perm owned] assms(5,9) by auto
qed

text \<open>The directory and manifest of the generators' examples, and a cluster with a rule set on its deployments.\<close>

definition deployments :: gvr where "deployments = GVR ''apps'' ''v1'' ''deployments''"

definition deployments_rs :: ors where
  "deployments_rs = finalized (example_ors ''rollout'' deployments [\<lparr>ru_Operation = ''Rolling'', ru_Expression = ''true''\<rparr>])"

definition deployments_kube :: "unit kube" where
  "deployments_kube = (demo_kube deployments_rs)\<lparr>k_Discover := (\<lambda>_ w. (Inr [''deployments''], w))\<rparr>"

lemma deployments_watched:
  "\<exists>s. controller_reach deployments_kube demo_sys echo_lib s \<and> Exists deployments (ct_Watches s)"
proof -
  let ?k = deployments_kube
  have gvr: "ors_GVR deployments_rs = deployments"
    by (simp add: deployments_rs_def finalized_def example_ors_def ors_GVR_eq)
  obtain requeue err s e where r: "reconcile_status ?k demo_settings echo_lib deployments_rs NewController
      (demo_kenv\<lparr>ke_world := ()\<rparr>) = (requeue, err, s, e)" by (metis prod_cases4)
  have conds: "ost_Conditions (ors_Status deployments_rs) = empty_conditions"
    by (simp add: deployments_rs_def finalized_def example_ors_def)
  have "controller_inv echo_lib NewController" by (rule controller_reach_inv [OF controller_reach.new [of ?k demo_sys]])
  moreover have "wf_conditions empty_conditions" by simp
  moreover have "target_served ?k deployments_rs (demo_kenv\<lparr>ke_world := ()\<rparr>)"
    by (simp add: target_served_def gvr deployments_def deployments_kube_def)
  moreover have "exprs_compile echo_lib deployments_rs"
    by (simp add: exprs_compile_def Rules_def deployments_rs_def finalized_def example_ors_def compiled_def echo_lib_def)
  ultimately have "Exists deployments (ct_Watches s)"
    using reconcile_status_ready [OF _ _ _ _ _ _ r, unfolded conds gvr] by simp
  moreover have "Reconcile ?k demo_settings echo_lib Reconciler.sorted_orders ''rollout'' NewController demo_kenv =
      Some (Ended demo_settings requeue err, None, s, e)"
    by (rule Reconcile_kept [OF _ _ _ r])
      (simp_all add: deployments_kube_def deployments_rs_def finalized_def example_ors_def IsZero_def)
  then have "controller_reach ?k demo_sys echo_lib s"
    by (rule controller_reach.reconcile [OF controller_reach.new orders_ok_sorted])
  ultimately show ?thesis by blast
qed

theorem watched_targets_permitted_witness:
  "\<exists>rules s. buildClusterPermissions demo_rules demo_codec demo_generator = Inr rules \<and>
     controller_reach deployments_kube demo_sys echo_lib s \<and> Exists deployments (ct_Watches s) \<and>
     cluster_grants (buildCSV demo_generator rules [] []) ''apps'' ''deployments'' ''watch''"
proof -
  obtain s where s: "controller_reach deployments_kube demo_sys echo_lib s" "Exists deployments (ct_Watches s)"
    using deployments_watched by blast
  obtain rules where rules: "buildClusterPermissions demo_rules demo_codec demo_generator = Inr rules"
    using permissions_of_bundle [OF demo_bundle, of "[]" "[]"] by blast
  have "serves_targets deployments_kube
      {g. (gvr_Group g, gvr_Resource g) \<in> file_targets demo_rules demo_unmarshal (fs_Walk demo_rules ''rules'')}"
    using demo_file_targets(1)
    by (simp add: serves_targets_def deployments_kube_def deployments_rs_def finalized_def example_ors_def ors_GVR_eq deployments_def)
  from watched_targets_permitted [OF demo_bundle rules this s, of "''watch''" "[]" "[]"] s rules
  show ?thesis by (auto simp: deployments_def)
qed

end
